(* ===== verification/Prelude.thy ===== *)
theory Prelude
  imports Main "HOL-Library.Word" "HOL-Library.Log_Nat"
begin

text \<open>
  Shared vocabulary of the development: the machine integers of the Rust code,
  results (\<open>Result<T, E>\<close> is \<open>'e + 'a\<close> with \<open>Inl\<close> for \<open>Err\<close>), the bounded FIFO window that
  \<open>RollingSigma\<close>, \<open>EmpiricalCdf\<close>, \<open>IntensityAdjustedCdf\<close> and \<open>VpinEngine\<close> all keep in a
  \<open>VecDeque\<close>, ASCII case mapping, decimal numerals, and the generic lemmas the component
  theories share.
\<close>

named_theorems model_defs \<open>unfolding equations of the small accessors of the model\<close>
named_theorems inv_intros \<open>preservation lemmas for component invariants\<close>

subsection \<open>Machine integers\<close>

type_synonym u8 = "8 word"
type_synonym u32 = "32 word"
type_synonym u64 = "64 word"

text \<open>\<open>usize\<close> values of the model are lengths and window sizes; they are natural numbers and no
  operation of the code adds to or multiplies them.\<close>

type_synonym usize = nat

definition saturating_mul_u64 :: "u64 \<Rightarrow> u64 \<Rightarrow> u64" where
  "saturating_mul_u64 a b = (if unat a * unat b < 2 ^ 64 then a * b else - 1)"

definition saturating_sub_u64 :: "u64 \<Rightarrow> u64 \<Rightarrow> u64" where
  "saturating_sub_u64 a b = (if b \<le> a then a - b else 0)"

definition checked_mul_u64 :: "u64 \<Rightarrow> u64 \<Rightarrow> u64 option" where
  "checked_mul_u64 a b = (if unat a * unat b < 2 ^ 64 then Some (a * b) else None)"

definition checked_add_u64 :: "u64 \<Rightarrow> u64 \<Rightarrow> u64 option" where
  "checked_add_u64 a b = (if unat a + unat b < 2 ^ 64 then Some (a + b) else None)"

lemma unat_mult_u64_small: "unat a * unat b < 2 ^ 64 \<Longrightarrow> unat (a * b :: u64) = unat a * unat b"
  by (simp add: unat_word_ariths)

lemma unat_add_u64_small: "unat a + unat b < 2 ^ 64 \<Longrightarrow> unat (a + b :: u64) = unat a + unat b"
  by (simp add: unat_word_ariths)

lemma saturating_mul_u64_ge:
  "unat (saturating_mul_u64 a b) = min (unat a * unat b) (2 ^ 64 - 1)"
  by (auto simp: saturating_mul_u64_def unat_mult_u64_small min_def unsigned_minus_1_eq_mask mask_eq_exp_minus_1)

lemma checked_mul_u64_Some: "checked_mul_u64 a b = Some c \<longleftrightarrow>
    unat a * unat b < 2 ^ 64 \<and> c = a * b"
  by (auto simp: checked_mul_u64_def)

lemma checked_add_u64_Some: "checked_add_u64 a b = Some c \<longleftrightarrow>
    unat a + unat b < 2 ^ 64 \<and> c = a + b"
  by (auto simp: checked_add_u64_def)

subsection \<open>Results\<close>

definition result_bind :: "'e + 'a \<Rightarrow> ('a \<Rightarrow> 'e + 'b) \<Rightarrow> 'e + 'b" where
  "result_bind r f = (case r of Inl e \<Rightarrow> Inl e | Inr x \<Rightarrow> f x)"

definition is_err :: "'e + 'a \<Rightarrow> bool" where
  "is_err r = (case r of Inl _ \<Rightarrow> True | Inr _ \<Rightarrow> False)"

lemma result_bind_simps [simp]:
  "result_bind (Inl e) f = Inl e" "result_bind (Inr x) f = f x"
  by (simp_all add: result_bind_def)

lemma is_err_simps [simp]: "is_err (Inl e)" "\<not> is_err (Inr x)"
  by (simp_all add: is_err_def)

lemma result_bind_Inr: "result_bind r f = Inr y \<longleftrightarrow> (\<exists>x. r = Inr x \<and> f x = Inr y)"
  by (cases r) auto

lemma result_bind_Inl: "result_bind r f = Inl e \<longleftrightarrow> r = Inl e \<or> (\<exists>x. r = Inr x \<and> f x = Inl e)"
  by (cases r) auto

subsection \<open>The bounded window of a \<open>VecDeque\<close>\<close>

text \<open>\<open>if buf.len() == window { buf.pop_front(); } buf.push_back(x)\<close>, oldest element first.\<close>

definition window_push :: "nat \<Rightarrow> 'a list \<Rightarrow> 'a \<Rightarrow> 'a list" where
  "window_push w buf x = (if length buf = w then tl buf else buf) @ [x]"

lemma window_push_not_Nil [simp]: "window_push w buf x \<noteq> []"
  by (simp add: window_push_def)

lemma last_window_push [simp]: "last (window_push w buf x) = x"
  by (simp add: window_push_def)

lemma length_window_push:
  "length buf \<le> w \<Longrightarrow> 0 < w \<Longrightarrow> length (window_push w buf x) = min w (Suc (length buf))"
  by (auto simp: window_push_def min_def)

lemma set_window_push: "set (window_push w buf x) \<subseteq> insert x (set buf)"
  by (cases buf) (auto simp: window_push_def)

text \<open>Feeding a list of samples to an operation that also answers, keeping the state only.\<close>

fun feed :: "('s \<Rightarrow> 'a \<Rightarrow> 's \<times> 'r) \<Rightarrow> 's \<Rightarrow> 'a list \<Rightarrow> 's" where
  "feed push s [] = s"
| "feed push s (x # xs) = feed push (fst (push s x)) xs"

lemma feed_snoc: "feed push s (xs @ [x]) = fst (push (feed push s xs) x)"
  by (induction xs arbitrary: s) simp_all

lemma feed_append: "feed push s (xs @ ys) = feed push (feed push s xs) ys"
  by (induction xs arbitrary: s) simp_all

lemma feed_invariant:
  "(\<And>s x. P s \<Longrightarrow> x \<in> set xs \<Longrightarrow> P (fst (push s x))) \<Longrightarrow> P s \<Longrightarrow> P (feed push s xs)"
  by (induction xs arbitrary: s) simp_all

text \<open>The last \<open>w\<close> elements.\<close>

definition last_n :: "nat \<Rightarrow> 'a list \<Rightarrow> 'a list" where
  "last_n w xs = drop (length xs - w) xs"

lemma length_last_n [simp]: "length (last_n w xs) = min w (length xs)"
  by (auto simp: last_n_def)

lemma window_push_last_n: "0 < w \<Longrightarrow> window_push w (last_n w xs) x = last_n w (xs @ [x])"
  by (auto simp: window_push_def last_n_def drop_Suc Suc_diff_le tl_drop)

lemma last_n_all: "length xs \<le> w \<Longrightarrow> last_n w xs = xs"
  by (simp add: last_n_def)

lemma set_last_n: "set (last_n w xs) \<subseteq> set xs"
  by (auto simp: last_n_def dest: in_set_dropD)

lemma in_set_window_push: "x \<in> set (window_push w buf x)"
  by (simp add: window_push_def)

end
