(* ===== verification/F64_Core.thy ===== *)
theory F64_Core
  imports Complex_Main Prelude
begin

text \<open>
  IEEE 754 binary64, the \<open>f64\<close> of the Rust code. A number is its sign bit and the other 63 bits
  read as a natural number (\<open>f64::to_bits\<close> without the sign bit): zero is 0, the subnormals
  follow, then the normal numbers, and \<open>inf_mag\<close> is infinity; a larger magnitude is read as
  infinity too, and no operation returns one. All NaNs are one value: Rust leaves the payload and
  the sign of a computed NaN open, and the code never looks at them. Magnitudes are ordered as
  the values they stand for, so rounding to nearest (ties to even) is a choice of the nearest
  index, and its monotonicity is the monotonicity of that choice.
\<close>

subsection \<open>Magnitudes and their values in units of \<open>2 ^ (-1074)\<close>\<close>

datatype f64 = NaN | Num bool nat

definition inf_mag :: nat where
  "inf_mag = 2047 * 2 ^ 52"

definition sig_of :: "nat \<Rightarrow> nat" where
  "sig_of k = (if k < 2 ^ 52 then k else 2 ^ 52 + k mod 2 ^ 52)"

definition exp_of :: "nat \<Rightarrow> nat" where
  "exp_of k = k div 2 ^ 52 - 1"

definition munits :: "nat \<Rightarrow> nat" where
  "munits k = sig_of k * 2 ^ exp_of k"

text \<open>One step up in the order of magnitudes is one unit in the last place.\<close>

lemma munits_split: "r < 2 ^ 52 \<Longrightarrow> munits (q * 2 ^ 52 + r) =
    (if q = 0 then r else (2 ^ 52 + r) * 2 ^ (q - 1))"
  by (auto simp: munits_def sig_of_def exp_of_def)

lemma munits_Suc: "munits (Suc k) = munits k + 2 ^ exp_of k"
proof -
  define q r where "q = k div 2 ^ 52" and "r = k mod 2 ^ 52"
  have k: "k = q * 2 ^ 52 + r" and r: "r < 2 ^ 52" by (simp_all add: q_def r_def)
  have e: "exp_of k = q - 1" by (simp add: exp_of_def q_def)
  show ?thesis
  proof (cases "Suc r < 2 ^ 52")
    case True
    have "munits (q * 2 ^ 52 + Suc r) = (if q = 0 then Suc r else (2 ^ 52 + Suc r) * 2 ^ (q - 1))"
      by (rule munits_split) (rule True)
    then show ?thesis using munits_split [OF r, of q] e unfolding k
      by (simp add: algebra_simps)
  next
    case False
    with r have r': "r = 2 ^ 52 - 1" by simp
    have s: "Suc k = Suc q * 2 ^ 52 + 0" unfolding k r' by simp
    have "munits (Suc k) = 2 ^ 52 * 2 ^ q"
      unfolding s by (subst munits_split) simp_all
    moreover have "munits k = (if q = 0 then r else (2 ^ 52 + r) * 2 ^ (q - 1))"
      unfolding k by (rule munits_split) (rule r)
    moreover have "2 ^ q = 2 * (2::nat) ^ (q - 1)" if "q \<noteq> 0"
      using that by (cases q) simp_all
    ultimately show ?thesis using e r' by (cases "q = 0") (simp_all add: algebra_simps)
  qed
qed

lemma munits_less: "j < k \<Longrightarrow> munits j < munits k"
  by (rule lift_Suc_mono_less [of munits]) (simp_all add: munits_Suc)

lemma munits_less_iff [simp]: "munits j < munits k \<longleftrightarrow> j < k"
  using munits_less by (metis less_asym linorder_neqE_nat)

lemma munits_le_iff [simp]: "munits j \<le> munits k \<longleftrightarrow> j \<le> k"
  by (meson munits_less_iff not_le)

lemma munits_eq_iff [simp]: "munits j = munits k \<longleftrightarrow> j = k"
  by (metis eq_iff munits_le_iff)

lemma munits_0 [simp]: "munits 0 = 0"
  by (simp add: munits_def sig_of_def)

lemma munits_scaled:
  assumes "2 ^ 52 \<le> m \<or> E = 0" and "m \<le> 2 ^ 53"
  shows "munits (E * 2 ^ 52 + m) = m * 2 ^ E"
proof -
  consider "m < 2 ^ 52" | "2 ^ 52 \<le> m" "m < 2 ^ 53" | "m = 2 ^ 53" using assms by linarith
  then show ?thesis
  proof cases
    case 1 then show ?thesis using assms munits_split [of m 0] by auto
  next
    case 2
    have "E * 2 ^ 52 + m = Suc E * 2 ^ 52 + (m - 2 ^ 52)" using 2 by simp
    then show ?thesis using 2 munits_split [of "m - 2 ^ 52" "Suc E"] by (simp add: algebra_simps)
  next
    case 3
    have "E * 2 ^ 52 + m = Suc (Suc E) * 2 ^ 52 + 0" using 3 by simp
    then show ?thesis using 3 munits_split [of 0 "Suc (Suc E)"] by (simp add: algebra_simps)
  qed
qed

subsection \<open>Round to nearest, ties to even: the specification\<close>

definition rounds_to :: "real \<Rightarrow> nat \<Rightarrow> bool" where
  "rounds_to x k \<longleftrightarrow> (\<forall>j. \<bar>x - munits k\<bar> \<le> \<bar>x - munits j\<bar> \<and>
     (\<bar>x - munits k\<bar> = \<bar>x - munits j\<bar> \<longrightarrow> j \<noteq> k \<longrightarrow> even k))"

lemma rounds_to_munits: "rounds_to (munits k) j \<longleftrightarrow> j = k"
proof
  assume "rounds_to (munits k) j"
  then have "\<bar>real (munits k) - munits j\<bar> \<le> \<bar>real (munits k) - munits k\<bar>"
    unfolding rounds_to_def by blast
  then show "j = k" by simp
qed (auto simp: rounds_to_def)

lemma rounds_to_tie_adjacent:
  assumes "rounds_to x j" "rounds_to x k" "j < k" shows "k = Suc j"
proof (rule ccontr)
  assume "k \<noteq> Suc j"
  with assms have "Suc j < k" by simp
  then have lt: "real (munits j) < munits (Suc j)" "real (munits (Suc j)) < munits k" by simp_all
  have "\<bar>x - munits j\<bar> = \<bar>x - munits k\<bar>" "\<bar>x - munits k\<bar> \<le> \<bar>x - munits (Suc j)\<bar>"
    using assms(1,2) unfolding rounds_to_def by (metis order_antisym, blast)
  with lt show False by linarith
qed

lemma rounds_to_unique:
  assumes "rounds_to x j" "rounds_to x k" shows "j = k"
proof -
  have False if "rounds_to x j" "rounds_to x k" "j < k" for j k
  proof -
    have "k = Suc j" using that by (rule rounds_to_tie_adjacent)
    moreover have "\<bar>x - munits j\<bar> = \<bar>x - munits k\<bar>"
      using that(1,2) unfolding rounds_to_def by (metis order_antisym)
    then have "even j" "even k" using that unfolding rounds_to_def by (metis less_irrefl)+
    ultimately show False by simp
  qed
  then show ?thesis using assms by (metis linorder_neqE_nat)
qed

lemma rounds_to_mono:
  assumes "rounds_to x j" "rounds_to y k" "x \<le> y" shows "j \<le> k"
proof (rule ccontr)
  assume "\<not> j \<le> k"
  then have lt: "real (munits k) < munits j" by simp
  have "\<bar>x - munits j\<bar> \<le> \<bar>x - munits k\<bar>" "\<bar>y - munits k\<bar> \<le> \<bar>y - munits j\<bar>"
    using assms(1,2) unfolding rounds_to_def by blast+
  with lt assms(3) have "x = y" by linarith
  with assms have "j = k" using rounds_to_unique by blast
  with \<open>\<not> j \<le> k\<close> show False by simp
qed

subsection \<open>Round to nearest, computed\<close>

definition round_quotient :: "nat \<Rightarrow> nat \<Rightarrow> nat \<Rightarrow> nat" where
  "round_quotient d q r = (if d < 2 * r \<or> (2 * r = d \<and> odd q) then q + 1 else q)"

definition rne :: "nat \<Rightarrow> nat \<Rightarrow> nat" where
  "rne n d = round_quotient d (n div d) (n mod d)"

text \<open>\<open>rnd_index n d e\<close> is the index nearest to \<open>n / d * 2 ^ e\<close> units, the exponent range not yet
  limited: estimate the exponent from the bit lengths, correct it so that a 53-bit quotient is
  left, then round the quotient. Each step is a function of its own, so that closed terms evaluate
  innermost first.\<close>

definition rnd_at :: "nat \<Rightarrow> nat \<Rightarrow> int \<Rightarrow> nat \<Rightarrow> nat" where
  "rnd_at n d e E = E * 2 ^ 52 + rne (n * 2 ^ nat (e - int E)) (d * 2 ^ nat (int E - e))"

definition fit_exp :: "nat \<Rightarrow> nat \<Rightarrow> int \<Rightarrow> nat \<Rightarrow> nat" where
  "fit_exp n d e E =
     (if 2 ^ 53 * (d * 2 ^ nat (int E - e)) \<le> n * 2 ^ nat (e - int E) then Suc E else E)"

definition rnd_index :: "nat \<Rightarrow> nat \<Rightarrow> int \<Rightarrow> nat" where
  "rnd_index n d e = (if n = 0 then 0 else rnd_at n d e
     (fit_exp n d e (nat (int (floorlog 2 n) - int (floorlog 2 d) + e - 53))))"

definition rnd_mag :: "nat \<Rightarrow> nat \<Rightarrow> int \<Rightarrow> nat" where
  "rnd_mag n d e = min inf_mag (rnd_index n d e)"

definition qval :: "nat \<Rightarrow> nat \<Rightarrow> int \<Rightarrow> real" where
  "qval n d e = real n / real d * 2 powi e"

lemma rne_bounds: "0 < d \<Longrightarrow> n div d \<le> rne n d \<and> rne n d \<le> n div d + 1"
  by (simp add: rne_def round_quotient_def)

lemma rne_error:
  assumes "0 < d"
  shows "\<bar>real n / d - rne n d\<bar> \<le> 1 / 2"
    and "\<bar>real n / d - rne n d\<bar> = 1 / 2 \<Longrightarrow> even (rne n d)"
proof -
  define q r where "q = n div d" and "r = n mod d"
  have n: "n = q * d + r" and r: "r < d" using assms by (simp_all add: q_def r_def)
  have x: "real n / d = q + real r / d" using assms unfolding n by (simp add: field_simps)
  have rne: "rne n d = (if d < 2 * r \<or> (2 * r = d \<and> odd q) then q + 1 else q)"
    by (simp add: rne_def round_quotient_def q_def r_def)
  consider "2 * r < d" | "d < 2 * r" | "2 * r = d" by linarith
  then have "\<bar>real n / d - rne n d\<bar> \<le> 1 / 2 \<and> (\<bar>real n / d - rne n d\<bar> = 1 / 2 \<longrightarrow> even (rne n d))"
  proof cases
    case 1
    then have "real r / d < 1 / 2" "0 \<le> real r / d" using assms by (simp_all add: field_simps)
    then show ?thesis using 1 unfolding x rne by auto
  next
    case 2
    then have "1 / 2 < real r / d" "real r / d < 1" using assms r by (simp_all add: field_simps)
    then show ?thesis using 2 unfolding x rne by auto
  next
    case 3
    then have "real r / d = 1 / 2" using assms by (simp add: field_simps)
    then show ?thesis using 3 unfolding x rne by auto
  qed
  then show "\<bar>real n / d - rne n d\<bar> \<le> 1 / 2"
    and "\<bar>real n / d - rne n d\<bar> = 1 / 2 \<Longrightarrow> even (rne n d)" by blast+
qed

lemma scaled_quotient:
  assumes "0 < d"
  shows "real (n * 2 ^ nat (e - int E)) / real (d * 2 ^ nat (int E - e)) * 2 ^ E = qval n d e"
proof (cases "int E \<le> e")
  case True
  then have "(2::real) powi e = 2 powi (int (nat (e - int E)) + int E)" by simp
  also have "\<dots> = 2 powi int (nat (e - int E)) * 2 powi int E"
    by (rule power_int_add) simp
  also have "\<dots> = 2 ^ nat (e - int E) * 2 ^ E" by (simp only: power_int_of_nat)
  finally have "(2::real) powi e = 2 ^ nat (e - int E) * 2 ^ E" .
  then show ?thesis using True by (simp add: qval_def)
next
  case False
  then have "(2::real) powi int E = 2 powi (e + int (nat (int E - e)))" by simp
  also have "\<dots> = 2 powi e * 2 powi int (nat (int E - e))"
    by (rule power_int_add) simp
  finally have "(2::real) ^ E = 2 powi e * 2 ^ nat (int E - e)"
    by (simp only: power_int_of_nat)
  then show ?thesis using False by (simp add: qval_def)
qed

lemma qval_bounds:
  fixes n d :: nat and e :: int
  assumes "0 < n" "0 < d"
  defines "b \<equiv> int (floorlog 2 n) - int (floorlog 2 d) + e"
  shows "2 powi (b - 1) < qval n d e" and "qval n d e < 2 powi (b + 1)"
proof -
  define a c where "a = floorlog 2 n" and "c = floorlog 2 d"
  have n: "2 ^ (a - 1) \<le> n" "n < 2 ^ a" and d: "2 ^ (c - 1) \<le> d" "d < 2 ^ c"
    using floorlog_bounds [of n 2] floorlog_bounds [of d 2] assms by (simp_all add: a_def c_def)
  have "a \<noteq> 0" "c \<noteq> 0" using assms by (simp_all add: a_def c_def floorlog_eq_zero_iff)
  then have pa: "(2::real) ^ (a - 1) = 2 powi (int a - 1)" "(2::real) ^ (c - 1) = 2 powi (int c - 1)"
    by (simp_all add: power_int_diff power_diff)
  have rn: "2 powi (int a - 1) \<le> real n" "real n < 2 powi int a"
    and rd: "2 powi (int c - 1) \<le> real d" "real d < 2 powi int c"
    using n d by (simp_all flip: pa add: of_nat_less_iff [of _ "2 ^ _", where 'a = real, simplified])
  have "(2::real) powi (b - 1) = 2 powi ((int a - 1) - int c + e)"
    by (simp add: b_def a_def c_def algebra_simps)
  also have "\<dots> = 2 powi (int a - 1) / 2 powi int c * 2 powi e"
    by (simp only: power_int_add power_int_diff disjI1 zero_neq_numeral [symmetric] not_False_eq_True simp_thms)
  also have "\<dots> < real n / real d * 2 powi e"
    using rn rd assms(2)
    by (intro mult_strict_right_mono frac_less2) auto
  finally show "2 powi (b - 1) < qval n d e" unfolding qval_def .
  have "real n / real d * 2 powi e < 2 powi int a / 2 powi (int c - 1) * 2 powi e"
    using rn rd assms(2)
    by (intro mult_strict_right_mono frac_less) auto
  also have "\<dots> = 2 powi (int a - (int c - 1) + e)"
    by (simp only: power_int_add power_int_diff disjI1 zero_neq_numeral [symmetric] not_False_eq_True simp_thms)
  also have "\<dots> = 2 powi (b + 1)"
    by (simp add: b_def a_def c_def algebra_simps)
  finally show "qval n d e < 2 powi (b + 1)" unfolding qval_def .
qed

lemma rnd_index_quotient:
  fixes n d :: nat and e :: int
  assumes "0 < n" "0 < d"
  defines "E0 \<equiv> nat (int (floorlog 2 n) - int (floorlog 2 d) + e - 53)"
  defines "E \<equiv> if 2 ^ 53 * (d * 2 ^ nat (int E0 - e)) \<le> n * 2 ^ nat (e - int E0) then Suc E0 else E0"
  defines "Y \<equiv> qval n d e / 2 ^ E"
  shows "(2 ^ 52 \<le> Y \<or> E = 0) \<and> Y < 2 ^ 53"
proof -
  define b where "b = int (floorlog 2 n) - int (floorlog 2 d) + e"
  define X where "X = qval n d e"
  define Y0 where "Y0 = X / 2 ^ E0"
  have E0: "E0 = nat (b - 53)" by (simp add: E0_def b_def)
  have X: "2 powi (b - 1) < X" "X < 2 powi (b + 1)"
    using qval_bounds [OF assms(1,2), of e] by (simp_all add: b_def X_def)
  have N0: "real (n * 2 ^ nat (e - int E0)) / real (d * 2 ^ nat (int E0 - e)) = Y0"
    using scaled_quotient [OF assms(2), of n e E0] unfolding Y0_def X_def by (simp add: field_simps)
  have E: "E = (if 2 ^ 53 \<le> Y0 then Suc E0 else E0)"
  proof -
    have "(2 ^ 53 * (d * 2 ^ nat (int E0 - e)) \<le> n * 2 ^ nat (e - int E0)) \<longleftrightarrow>
      2 ^ 53 * real (d * 2 ^ nat (int E0 - e)) \<le> real (n * 2 ^ nat (e - int E0))"
      by (metis of_nat_le_iff of_nat_mult of_nat_numeral of_nat_power)
    also have "\<dots> \<longleftrightarrow> 2 ^ 53 \<le> Y0"
      unfolding N0 [symmetric] using assms(2) by (subst pos_le_divide_eq) auto
    finally show ?thesis unfolding E_def by simp
  qed
  have "(2::real) powi (b + 1) \<le> 2 powi (54 + int E0)"
    by (rule power_int_increasing) (auto simp: E0)
  also have "\<dots> = 2 ^ 54 * 2 ^ E0" by (simp add: power_int_add)
  finally have up: "Y0 < 2 ^ 54" using X(2) unfolding Y0_def by (simp add: field_simps)
  have low: "2 ^ 52 < Y0" if "E0 \<noteq> 0"
  proof -
    have "2 ^ 52 * 2 ^ E0 = (2::real) powi (52 + int E0)" by (simp add: power_int_add)
    also have "\<dots> = 2 powi (b - 1)" using that by (simp add: E0)
    finally show ?thesis using X(1) unfolding Y0_def by (simp add: field_simps)
  qed
  show ?thesis
  proof (cases "2 ^ 53 \<le> Y0")
    case True
    then have "Y = Y0 / 2" by (simp add: Y_def Y0_def E X_def)
    then show ?thesis using True up by simp
  next
    case False
    then have "Y = Y0" "E = E0" by (simp_all add: Y_def Y0_def E X_def)
    then show ?thesis using False low by linarith
  qed
qed

text \<open>Every magnitude other than the chosen one is at least half a unit in the last place away.\<close>

lemma far_from_others:
  fixes X :: real
  assumes k: "k = E * 2 ^ 52 + m" and m: "2 ^ 52 \<le> m \<or> E = 0" "m \<le> 2 ^ 53"
    and near: "\<bar>X - real m * 2 ^ E\<bar> \<le> 2 ^ E / 2"
    and above: "E \<noteq> 0 \<Longrightarrow> m = 2 ^ 52 \<Longrightarrow> real m * 2 ^ E \<le> X"
    and j: "j \<noteq> k"
  shows "2 ^ E / 2 \<le> \<bar>X - munits j\<bar>"
proof -
  have mk: "real (munits k) = m * 2 ^ E" unfolding k munits_scaled [OF m] by simp
  show ?thesis
  proof (cases "j < k")
    case True
    show ?thesis
    proof (cases "m = 2 ^ 52 \<and> E \<noteq> 0")
      case ex: True
      have "k - 1 = (E - 1) * 2 ^ 52 + (2 ^ 53 - 1)" using ex k by (cases E) auto
      then have "munits (k - 1) = (2 ^ 53 - 1) * 2 ^ (E - 1)"
        using munits_scaled [of "2 ^ 53 - 1" "E - 1"] by simp
      then have p: "real (munits (k - 1)) = (2 ^ 53 - 1) * 2 ^ (E - 1)" by simp
      have e: "(2::real) ^ E = 2 * 2 ^ (E - 1)" using ex by (cases E) auto
      have "munits j \<le> munits (k - 1)" using True by simp
      then have "real (munits j) \<le> munits (k - 1)" by (simp only: of_nat_le_iff)
      moreover have "real m * 2 ^ E \<le> X" using above ex by simp
      ultimately show ?thesis using ex unfolding p e by (simp add: abs_real_def field_simps)
    next
      case False
      then have m': "2 ^ 52 \<le> m - 1 \<or> E = 0" using m by auto
      have "0 < m" using True k m by (cases "m = 0") auto
      then have "k - 1 = E * 2 ^ 52 + (m - 1)" using k by simp
      then have p: "real (munits (k - 1)) = (real m - 1) * 2 ^ E"
        using munits_scaled [OF m'] m(2) \<open>0 < m\<close> by (simp add: of_nat_diff)
      have "munits j \<le> munits (k - 1)" using True by simp
      then have "real (munits j) \<le> munits (k - 1)" by (simp only: of_nat_le_iff)
      then show ?thesis using near unfolding p by (simp add: abs_real_def field_simps split: if_splits)
    qed
  next
    case False
    then have "Suc k \<le> j" using j by simp
    then have "munits (Suc k) \<le> munits j" by simp
    moreover have "E \<le> exp_of k" using m unfolding exp_of_def k by auto
    then have "(2::nat) ^ E \<le> 2 ^ exp_of k" by simp
    ultimately have "munits k + 2 ^ E \<le> munits j" unfolding munits_Suc by linarith
    then have "real (munits k) + 2 ^ E \<le> munits j"
      by (metis of_nat_add of_nat_le_iff of_nat_numeral of_nat_power)
    then show ?thesis using near unfolding mk by (simp add: abs_real_def field_simps split: if_splits)
  qed
qed

text \<open>The index as an exponent and a rounded quotient in the normal range.\<close>

lemma rnd_index_form:
  assumes d: "0 < d" and n: "n \<noteq> 0"
  obtains N D E where "rnd_index n d e = E * 2 ^ 52 + rne N D" "0 < D" "real N / D * 2 ^ E = qval n d e"
    "2 ^ 52 * D \<le> N \<or> E = 0" "N < 2 ^ 53 * D"
proof -
  define E0 where "E0 = nat (int (floorlog 2 n) - int (floorlog 2 d) + e - 53)"
  define E where "E = (if 2 ^ 53 * (d * 2 ^ nat (int E0 - e)) \<le> n * 2 ^ nat (e - int E0)
    then Suc E0 else E0)"
  define N D where "N = n * 2 ^ nat (e - int E)" and "D = d * 2 ^ nat (int E - e)"
  have k: "rnd_index n d e = E * 2 ^ 52 + rne N D"
    using n by (simp add: rnd_index_def rnd_at_def fit_exp_def E0_def E_def N_def D_def)
  have D: "0 < D" using d by (simp add: D_def)
  have XE: "real N / D * 2 ^ E = qval n d e"
    unfolding N_def D_def by (rule scaled_quotient) (rule d)
  then have Y: "real N / D = qval n d e / 2 ^ E" by (simp add: field_simps)
  have "(2 ^ 52 \<le> real N / D \<or> E = 0) \<and> real N / D < 2 ^ 53"
    using rnd_index_quotient [OF _ d, of n e] n unfolding Y E_def E0_def by simp
  then have "(real (2 ^ 52 * D) \<le> real N \<or> E = 0) \<and> real N < real (2 ^ 53 * D)"
    using D by (simp add: pos_le_divide_eq pos_divide_less_eq)
  then have "2 ^ 52 * D \<le> N \<or> E = 0" "N < 2 ^ 53 * D" by (simp_all only: of_nat_le_iff of_nat_less_iff)
  then show ?thesis using that k D XE by blast
qed

lemma rnd_index_rounds:
  assumes d: "0 < d"
  shows "rounds_to (qval n d e) (rnd_index n d e)"
proof (cases "n = 0")
  case True
  then show ?thesis using rounds_to_munits [of 0 0] by (simp add: rnd_index_def qval_def)
next
  case False
  define X where "X = qval n d e"
  define k where "k = rnd_index n d e"
  obtain N D E where "k = E * 2 ^ 52 + rne N D" and D: "0 < D" and XE: "real N / D * 2 ^ E = X"
    and ND: "2 ^ 52 * D \<le> N \<or> E = 0" "N < 2 ^ 53 * D"
    using rnd_index_form [OF d False, of e] unfolding X_def k_def by blast
  define m where "m = rne N D"
  have k: "k = E * 2 ^ 52 + m" unfolding m_def by fact
  have q: "2 ^ 52 \<le> N div D \<or> E = 0" "N div D < 2 ^ 53"
    using D ND by (auto simp: less_eq_div_iff_mult_less_eq div_less_iff_less_mult)
  then have m: "2 ^ 52 \<le> m \<or> E = 0" "m \<le> 2 ^ 53"
    using rne_bounds [OF D, of N] by (auto simp: m_def)
  have mk: "munits k = m * 2 ^ E"
    unfolding k by (rule munits_scaled) (rule m)+
  define u where "u = \<bar>real N / D - m\<bar>"
  have u: "u \<le> 1 / 2" "u = 1 / 2 \<Longrightarrow> even m"
    unfolding u_def m_def by (fact rne_error [OF D])+
  have "X - real m * 2 ^ E = (real N / D - m) * 2 ^ E"
    unfolding XE [symmetric] by (simp only: left_diff_distrib)
  then have dist: "\<bar>X - real m * 2 ^ E\<bar> = u * 2 ^ E" by (simp add: u_def abs_mult)
  have above: "real m * 2 ^ E \<le> X" if "E \<noteq> 0" "m = 2 ^ 52"
  proof -
    have "2 ^ 52 * D \<le> N" using ND(1) that by blast
    then have "real (2 ^ 52 * D) \<le> real N" by (simp only: of_nat_le_iff)
    then have "real m \<le> real N / D" using D that by (simp add: pos_le_divide_eq)
    then show ?thesis unfolding XE [symmetric] by (rule mult_right_mono) simp
  qed
  have far: "2 ^ E / 2 \<le> \<bar>X - munits j\<bar>" if "j \<noteq> k" for j
    using k m _ above that by (rule far_from_others) (use u dist in simp)
  show ?thesis unfolding rounds_to_def X_def [symmetric] k_def [symmetric]
  proof (intro allI conjI impI)
    fix j
    show "\<bar>X - munits k\<bar> \<le> \<bar>X - munits j\<bar>"
    proof (cases "j = k")
      case False
      have "u * 2 ^ E \<le> 1 / 2 * 2 ^ E" using u(1) by (rule mult_right_mono) simp
      also have "\<dots> \<le> \<bar>X - munits j\<bar>" using far [OF False] by simp
      finally show ?thesis by (simp add: mk dist)
    qed simp
    assume "\<bar>X - munits k\<bar> = \<bar>X - munits j\<bar>" "j \<noteq> k"
    then have "2 ^ E / 2 \<le> u * 2 ^ E" using far [of j] dist by (simp add: mk)
    then have "u = 1 / 2" using u(1) by simp
    then show "even k" using u(2) unfolding k by simp
  qed
qed

end
