(* ===== verification/F64.thy ===== *)
theory F64
  imports F64_Core
begin

text \<open>
  The operations of \<open>f64\<close> the code uses, on the representation of \<open>F64_Core\<close>: comparisons,
  \<open>+\<close>, \<open>-\<close>, \<open>*\<close>, \<open>/\<close>, \<open>sqrt\<close>, \<open>abs\<close>, \<open>min\<close>, \<open>max\<close>, \<open>floor\<close>, \<open>ceil\<close>, \<open>total_cmp\<close>, the casts
  from and to integers and \<open>Iterator::sum\<close>. The laws say that each arithmetic operation returns
  the nearest \<open>f64\<close> to the exact result, and that it is therefore monotone.
\<close>

subsection \<open>Classes, comparisons, constants\<close>

fun f64_is_nan :: "f64 \<Rightarrow> bool" where
  "f64_is_nan NaN = True"
| "f64_is_nan (Num s m) = False"

fun f64_is_finite :: "f64 \<Rightarrow> bool" where
  "f64_is_finite NaN = False"
| "f64_is_finite (Num s m) = (m < inf_mag)"

text \<open>Position of a number that is not NaN in the order of \<open>f64\<close>; both zeros are 0.\<close>

fun f64_key :: "f64 \<Rightarrow> int" where
  "f64_key NaN = 0"
| "f64_key (Num s m) = (if s then - int (min m inf_mag) else int (min m inf_mag))"

definition f64_le :: "f64 \<Rightarrow> f64 \<Rightarrow> bool" where
  "f64_le x y \<longleftrightarrow> \<not> f64_is_nan x \<and> \<not> f64_is_nan y \<and> f64_key x \<le> f64_key y"

definition f64_lt :: "f64 \<Rightarrow> f64 \<Rightarrow> bool" where
  "f64_lt x y \<longleftrightarrow> \<not> f64_is_nan x \<and> \<not> f64_is_nan y \<and> f64_key x < f64_key y"

definition f64_eq :: "f64 \<Rightarrow> f64 \<Rightarrow> bool" where
  "f64_eq x y \<longleftrightarrow> \<not> f64_is_nan x \<and> \<not> f64_is_nan y \<and> f64_key x = f64_key y"

text \<open>\<open>f64::total_cmp\<close>: \<open>-0 < +0\<close>, and the NaN above every number.\<close>

fun f64_total_key :: "f64 \<Rightarrow> int" where
  "f64_total_key NaN = int inf_mag + 1"
| "f64_total_key (Num s m) = (if s then - int (min m inf_mag) - 1 else int (min m inf_mag))"

definition f64_total_le :: "f64 \<Rightarrow> f64 \<Rightarrow> bool" where
  "f64_total_le x y \<longleftrightarrow> f64_total_key x \<le> f64_total_key y"

abbreviation f64_zero :: f64 where "f64_zero \<equiv> Num False 0"
abbreviation f64_neg_zero :: f64 where "f64_neg_zero \<equiv> Num True 0"

definition f64_one :: f64 where "f64_one = Num False (1023 * 2 ^ 52)"
definition f64_half :: f64 where "f64_half = Num False (1022 * 2 ^ 52)"
definition f64_two :: f64 where "f64_two = Num False (1024 * 2 ^ 52)"
definition f64_inf :: f64 where "f64_inf = Num False inf_mag"
definition f64_neg_inf :: f64 where "f64_neg_inf = Num True inf_mag"

fun f64_neg :: "f64 \<Rightarrow> f64" where
  "f64_neg NaN = NaN"
| "f64_neg (Num s m) = Num (\<not> s) m"

fun f64_abs :: "f64 \<Rightarrow> f64" where
  "f64_abs NaN = NaN"
| "f64_abs (Num s m) = Num False m"

definition f64_min :: "f64 \<Rightarrow> f64 \<Rightarrow> f64" where
  "f64_min x y = (if f64_is_nan x then y else if f64_is_nan y then x else
     if f64_lt y x then y else x)"

definition f64_max :: "f64 \<Rightarrow> f64 \<Rightarrow> f64" where
  "f64_max x y = (if f64_is_nan x then y else if f64_is_nan y then x else
     if f64_lt x y then y else x)"

subsection \<open>Arithmetic\<close>

definition signed :: "bool \<Rightarrow> nat \<Rightarrow> int" where
  "signed s n = (if s then - int n else int n)"

text \<open>A number as a signed integer at exponent \<open>e\<close>, and an integer at exponent \<open>e\<close> rounded; an exact
  zero takes the sign \<open>u\<close>.\<close>

definition align :: "bool \<Rightarrow> nat \<Rightarrow> nat \<Rightarrow> int" where
  "align s a e = signed s (sig_of a * 2 ^ (exp_of a - e))"

definition round_int :: "bool \<Rightarrow> int \<Rightarrow> nat \<Rightarrow> f64" where
  "round_int u z e = (if z = 0 then Num u 0 else Num (z < 0) (rnd_mag (nat \<bar>z\<bar>) 1 (int e)))"

definition add_at :: "bool \<Rightarrow> nat \<Rightarrow> bool \<Rightarrow> nat \<Rightarrow> nat \<Rightarrow> f64" where
  "add_at s a t b e = round_int (s \<and> t) (align s a e + align t b e) e"

fun f64_add :: "f64 \<Rightarrow> f64 \<Rightarrow> f64" where
  "f64_add (Num s a) (Num t b) =
     (if inf_mag \<le> a then (if inf_mag \<le> b \<and> s \<noteq> t then NaN else Num s inf_mag)
      else if inf_mag \<le> b then Num t inf_mag
      else if b = 0 then (if a = 0 then Num (s \<and> t) 0 else Num s a)
      else if a = 0 then Num t b
      else add_at s a t b (min (exp_of a) (exp_of b)))"
| "f64_add _ _ = NaN"

definition f64_sub :: "f64 \<Rightarrow> f64 \<Rightarrow> f64" where
  "f64_sub x y = f64_add x (f64_neg y)"

fun f64_mul :: "f64 \<Rightarrow> f64 \<Rightarrow> f64" where
  "f64_mul (Num s a) (Num t b) =
     (if inf_mag \<le> a then (if b = 0 then NaN else Num (s \<noteq> t) inf_mag)
      else if inf_mag \<le> b then (if a = 0 then NaN else Num (s \<noteq> t) inf_mag)
      else Num (s \<noteq> t) (rnd_mag (sig_of a * sig_of b) 1 (int (exp_of a) + int (exp_of b) - 1074)))"
| "f64_mul _ _ = NaN"

fun f64_div :: "f64 \<Rightarrow> f64 \<Rightarrow> f64" where
  "f64_div (Num s a) (Num t b) =
     (if inf_mag \<le> a then (if inf_mag \<le> b then NaN else Num (s \<noteq> t) inf_mag)
      else if inf_mag \<le> b then Num (s \<noteq> t) 0
      else if b = 0 then (if a = 0 then NaN else Num (s \<noteq> t) inf_mag)
      else Num (s \<noteq> t) (rnd_mag (sig_of a) (sig_of b) (int (exp_of a) - int (exp_of b) + 1074)))"
| "f64_div _ _ = NaN"

text \<open>Integer square root, two bits per step.\<close>

definition isqrt_step :: "nat \<Rightarrow> nat \<Rightarrow> nat" where
  "isqrt_step n s = (if (s + 1) * (s + 1) \<le> n then s + 1 else s)"

fun isqrt :: "nat \<Rightarrow> nat" where
  "isqrt n = (if n = 0 then 0 else isqrt_step n (2 * isqrt (n div 4)))"

declare isqrt.simps [simp del]

text \<open>The square root is taken of the significand scaled to more than 108 bits at an even exponent,
  and whether there was a remainder is kept as one more low bit, so that the rounding sees on which
  side of a tie the root lies.\<close>

definition sqrt_scale :: "nat \<Rightarrow> nat" where
  "sqrt_scale m = (if m < 2 ^ 52 then 110 else 56) + exp_of m mod 2"

definition sqrt_arg :: "nat \<Rightarrow> nat" where
  "sqrt_arg m = sig_of m * 2 ^ sqrt_scale m"

definition sqrt_sticky :: "nat \<Rightarrow> nat \<Rightarrow> nat" where
  "sqrt_sticky n r = 2 * r + (if r * r = n then 0 else 1)"

fun f64_sqrt :: "f64 \<Rightarrow> f64" where
  "f64_sqrt NaN = NaN"
| "f64_sqrt (Num s m) =
     (if m = 0 then Num s m else if s then NaN else if inf_mag \<le> m then Num s inf_mag
      else Num False (rnd_mag (sqrt_sticky (sqrt_arg m) (isqrt (sqrt_arg m))) 1
             ((int (exp_of m) - int (sqrt_scale m)) div 2 + 536)))"

definition f64_of_nat :: "nat \<Rightarrow> f64" where
  "f64_of_nat n = Num False (rnd_mag n 1 1074)"

text \<open>\<open>f64_of_dec n k\<close> is the literal \<open>n / 10 ^ k\<close>.\<close>

definition f64_of_dec :: "nat \<Rightarrow> nat \<Rightarrow> f64" where
  "f64_of_dec n k = Num False (rnd_mag n (10 ^ k) 1074)"

text \<open>The integer part of a magnitude, and whether anything was cut off.\<close>

definition int_part :: "nat \<Rightarrow> nat" where
  "int_part m = (if 1074 \<le> exp_of m then sig_of m * 2 ^ (exp_of m - 1074)
     else sig_of m div 2 ^ (1074 - exp_of m))"

definition has_frac :: "nat \<Rightarrow> bool" where
  "has_frac m \<longleftrightarrow> exp_of m < 1074 \<and> sig_of m mod 2 ^ (1074 - exp_of m) \<noteq> 0"

definition mag_of_int :: "nat \<Rightarrow> nat" where
  "mag_of_int n = rnd_mag n 1 1074"

fun f64_floor :: "f64 \<Rightarrow> f64" where
  "f64_floor NaN = NaN"
| "f64_floor (Num s m) = (if \<not> has_frac m then Num s m
     else Num s (mag_of_int (if s then int_part m + 1 else int_part m)))"

fun f64_ceil :: "f64 \<Rightarrow> f64" where
  "f64_ceil NaN = NaN"
| "f64_ceil (Num s m) = (if \<not> has_frac m then Num s m
     else Num s (mag_of_int (if s then int_part m else int_part m + 1)))"

text \<open>\<open>x as usize\<close>: truncate towards zero, saturate at both ends, NaN to 0.\<close>

fun f64_to_usize :: "f64 \<Rightarrow> nat" where
  "f64_to_usize NaN = 0"
| "f64_to_usize (Num s m) = (if s then 0 else if inf_mag \<le> m then 2 ^ 64 - 1
     else min (2 ^ 64 - 1) (int_part m))"

text \<open>\<open>iter().sum::<f64>()\<close> adds from the left, starting at \<open>-0.0\<close>.\<close>

definition f64_sum :: "f64 list \<Rightarrow> f64" where
  "f64_sum xs = foldl f64_add f64_neg_zero xs"

definition f64_powi2 :: "f64 \<Rightarrow> f64" where
  "f64_powi2 x = f64_mul x x"

end
