(* ===== verification/Rounded_Cone.thy ===== *)
theory Rounded_Cone
  imports Main
begin

text \<open>
  The interface between the VPIN arithmetic and the floating-point format: on numbers \<open>\<ge> 0\<close>
  rounding never reverses an order between exact results, and a result that is itself representable
  is not moved. The consequences proved here are those the engine's range guarantees need: an
  imbalance \<open>|buy - sell|\<close> never exceeds the volume it splits, and a ratio of two sums whose terms
  are ordered pairwise stays between zero and one.
\<close>

locale rounded_cone =
  fixes le lt :: "'f \<Rightarrow> 'f \<Rightarrow> bool"
    and fin :: "'f \<Rightarrow> bool"
    and zero one :: 'f
    and add sub mul quot :: "'f \<Rightarrow> 'f \<Rightarrow> 'f"
    and absv :: "'f \<Rightarrow> 'f"
  assumes zero_refl: "le zero zero"
    and pos_refl: "le zero x \<Longrightarrow> le x x"
    and trans: "le x y \<Longrightarrow> le y z \<Longrightarrow> le x z"
    and lt_le: "lt x y \<Longrightarrow> le y z \<Longrightarrow> lt x z"
    and fin_between: "fin b \<Longrightarrow> le zero a \<Longrightarrow> le a b \<Longrightarrow> fin a"
    and add_mono: "le zero a \<Longrightarrow> le a b \<Longrightarrow> le zero c \<Longrightarrow> le c d \<Longrightarrow> le (add a c) (add b d)"
    and le_add_left: "le zero a \<Longrightarrow> le zero b \<Longrightarrow> le a (add a b)"
    and le_add_right: "le zero a \<Longrightarrow> le zero b \<Longrightarrow> le b (add a b)"
    and mul_unit: "fin v \<Longrightarrow> le zero v \<Longrightarrow> le zero p \<Longrightarrow> le p one \<Longrightarrow>
      le zero (mul v p) \<and> le (mul v p) v"
    and sub_below: "fin v \<Longrightarrow> le zero b \<Longrightarrow> le b v \<Longrightarrow> le zero (sub v b) \<and> le (sub v b) v"
    and abs_sub: "fin v \<Longrightarrow> le zero b \<Longrightarrow> le b v \<Longrightarrow> le zero c \<Longrightarrow> le c v \<Longrightarrow>
      le zero (absv (sub b c)) \<and> le (absv (sub b c)) v"
    and div_unit: "fin b \<Longrightarrow> lt zero b \<Longrightarrow> le zero a \<Longrightarrow> le a b \<Longrightarrow>
      le zero (quot a b) \<and> le (quot a b) one"
begin

text \<open>Splitting a volume by a fraction of it.\<close>

lemma split_bounds:
  assumes "fin v" "le zero v" "le zero p" "le p one"
  shows "le zero (mul v p)" "le (mul v p) v"
    and "le zero (sub v (mul v p))" "le (sub v (mul v p)) v"
  using mul_unit [OF assms] sub_below [OF assms(1)] by blast+

lemma imbalance_bounds:
  assumes "fin v" "le zero v" "le zero p" "le p one"
  shows "le zero (absv (sub (mul v p) (sub v (mul v p))))"
    and "le (absv (sub (mul v p) (sub v (mul v p)))) v"
  using abs_sub [OF assms(1) split_bounds [OF assms]] by blast+

text \<open>The two running sums of a list of (imbalance, volume) pairs.\<close>

definition sums :: "'f \<times> 'f \<Rightarrow> ('f \<times> 'f) list \<Rightarrow> 'f \<times> 'f" where
  "sums = foldl (\<lambda>(i, v) (bi, bv). (add i bi, add v bv))"

lemma sums_simps [simp]:
  "sums a [] = a" "sums (i, v) (b # bs) = sums (add i (fst b), add v (snd b)) bs"
  by (simp_all add: sums_def split_beta)

lemma sums_ge_start:
  "le zero v \<Longrightarrow> \<forall>b \<in> set bs. le zero (snd b) \<Longrightarrow> le v (snd (sums (i, v) bs))"
proof (induction bs arbitrary: i v)
  case Nil
  then show ?case by (simp add: pos_refl)
next
  case (Cons b bs)
  then have v: "le v (add v (snd b))" by (simp add: le_add_left)
  with Cons.prems(1) have "le zero (add v (snd b))" by (rule trans)
  then have "le (add v (snd b)) (snd (sums (i, v) (b # bs)))" using Cons by simp
  with v show ?case by (rule trans)
qed

text \<open>\<open>weighted bs\<close>: each volume is \<open>\<ge> 0\<close>, and bounds its imbalance where it is finite.\<close>

definition weighted :: "('f \<times> 'f) list \<Rightarrow> bool" where
  "weighted bs \<longleftrightarrow> (\<forall>(i, v) \<in> set bs. le zero v \<and> (fin v \<longrightarrow> le zero i \<and> le i v))"

lemma sums_ordered:
  "weighted bs \<Longrightarrow> fin (snd (sums (i, v) bs)) \<Longrightarrow> le zero i \<Longrightarrow> le i v \<Longrightarrow>
    le zero (fst (sums (i, v) bs)) \<and> le (fst (sums (i, v) bs)) (snd (sums (i, v) bs))"
proof (induction bs arbitrary: i v)
  case (Cons b bs)
  obtain bi bv where b: "b = (bi, bv)" by (cases b)
  have bv: "le zero bv" "fin bv \<longrightarrow> le zero bi \<and> le bi bv"
    using Cons.prems(1) unfolding weighted_def b by auto
  have v: "le zero v" using Cons.prems(3,4) by (rule trans)
  have s: "le bv (add v bv)" using v bv(1) by (rule le_add_right)
  with bv(1) have s0: "le zero (add v bv)" by (rule trans)
  have "\<forall>b \<in> set bs. le zero (snd b)" using Cons.prems(1) unfolding weighted_def by auto
  with s0 have "le (add v bv) (snd (sums (add i bi, add v bv) bs))" by (rule sums_ge_start)
  with s have "le bv (snd (sums (add i bi, add v bv) bs))" by (rule trans)
  then have "fin bv" using Cons.prems(2) bv(1) fin_between unfolding b by simp
  then have bi: "le zero bi" "le bi bv" using bv by simp_all
  have "le i (add i bi)" using Cons.prems(3) bi(1) by (rule le_add_left)
  with Cons.prems(3) have "le zero (add i bi)" by (rule trans)
  moreover have "le (add i bi) (add v bv)" using Cons.prems(3,4) bi by (rule add_mono)
  ultimately show ?case using Cons.IH Cons.prems(1,2) unfolding b weighted_def by simp
qed simp

lemma sums_positive:
  assumes "weighted bs" "bs \<noteq> []" "\<forall>b \<in> set bs. lt zero (snd b)"
  shows "lt zero (snd (sums (zero, zero) bs))"
proof -
  obtain b cs where bs: "bs = b # cs" using assms(2) by (cases bs) auto
  have b: "le zero (snd b)" "lt zero (snd b)" and cs: "\<forall>c \<in> set cs. le zero (snd c)"
    using assms unfolding bs weighted_def by auto
  have s: "le (snd b) (add zero (snd b))" using zero_refl b(1) by (rule le_add_right)
  with b(1) have "le zero (add zero (snd b))" by (rule trans)
  from this cs have "le (add zero (snd b)) (snd (sums (zero, zero) bs))"
    unfolding bs by (simp add: sums_ge_start)
  with s have "le (snd b) (snd (sums (zero, zero) bs))" by (rule trans)
  with b(2) show ?thesis by (rule lt_le)
qed

lemma ratio_bounds:
  assumes "weighted bs" "bs \<noteq> []" "\<forall>b \<in> set bs. lt zero (snd b)" "sums (zero, zero) bs = (I, V)" "fin V"
  shows "le zero (quot I V)" "le (quot I V) one"
  using div_unit [of V I] sums_positive [OF assms(1-3)] sums_ordered [OF assms(1) _ zero_refl zero_refl]
    assms(4,5) by simp_all

end

end
