(* ===== verification/F64_Laws.thy ===== *)
theory F64_Laws
  imports F64 Rounded_Cone
begin

text \<open>
  What the other theories use of \<open>f64\<close>: each arithmetic operation on finite numbers rounds the
  exact result (\<open>rounded\<close>), rounding is monotone and leaves an \<open>f64\<close> as it is, and so the
  operations are monotone on the cone of numbers \<open>\<ge> 0\<close>. The locale \<open>rounded_cone\<close> names the laws
  that the VPIN arithmetic relies on and derives the bounds of a bucket's imbalance and of a ratio
  of sums from them; it is interpreted on the operations of \<open>F64\<close>.
\<close>

subsection \<open>Exact values and rounded results\<close>

text \<open>The exact value of a finite number, in units of \<open>2 ^ (-1074)\<close>.\<close>

fun uval :: "f64 \<Rightarrow> int" where
  "uval NaN = 0"
| "uval (Num s m) = signed s (munits m)"

definition one_units :: real where
  "one_units = 2 ^ 1074"

definition f64_val :: "f64 \<Rightarrow> real" where
  "f64_val x = uval x / one_units"

definition rounded :: "real \<Rightarrow> f64 \<Rightarrow> bool" where
  "rounded x r \<longleftrightarrow> (\<exists>s k. r = Num s (min inf_mag k) \<and> rounds_to \<bar>x\<bar> k \<and>
     (x < 0 \<longrightarrow> s) \<and> (0 < x \<longrightarrow> \<not> s))"

lemma inf_mag_pos [simp]: "0 < inf_mag" "inf_mag \<noteq> 0" by (simp_all add: inf_mag_def)

lemma signed_simps [simp]: "signed False n = int n" "signed True n = - int n" "signed s 0 = 0"
  by (simp_all add: signed_def)

lemma rounds_to_0: "rounds_to 0 k \<longleftrightarrow> k = 0"
  using rounds_to_munits [of 0 k] by simp

lemma rounded_not_nan [simp]: "rounded x r \<Longrightarrow> \<not> f64_is_nan r"
  by (auto simp: rounded_def)

lemma rounded_self:
  assumes "f64_is_finite a" shows "rounded (uval a) a"
proof (cases a)
  case (Num s m)
  have m: "min inf_mag m = m" using assms Num by simp
  have "rounds_to \<bar>real_of_int (uval a)\<bar> m"
    using rounds_to_munits [of m m] by (simp add: Num signed_def)
  moreover have "0 < munits m" if "0 < m" using that munits_less [of 0 m] by simp
  ultimately show ?thesis
    unfolding rounded_def Num using m
    by (intro exI [of _ s] exI [of _ m]) (auto simp: signed_def)
qed (use assms in simp)

lemma rounded_key_pos:
  assumes "rounded x r" "0 \<le> x"
  shows "\<exists>k. rounds_to x k \<and> f64_key r = int (min inf_mag k)"
proof -
  obtain s k where r: "r = Num s (min inf_mag k)" "rounds_to \<bar>x\<bar> k" "0 < x \<longrightarrow> \<not> s"
    using assms(1) unfolding rounded_def by blast
  have "k = 0" if "x = 0" using r(2) that by (simp add: rounds_to_0)
  then show ?thesis using r assms(2) by (cases "x = 0") (auto intro!: exI [of _ k] simp: min_def)
qed

lemma rounded_key_neg:
  assumes "rounded x r" "x \<le> 0"
  shows "\<exists>k. rounds_to (- x) k \<and> f64_key r = - int (min inf_mag k)"
proof -
  obtain s k where r: "r = Num s (min inf_mag k)" "rounds_to \<bar>x\<bar> k" "x < 0 \<longrightarrow> s"
    using assms(1) unfolding rounded_def by blast
  have "k = 0" if "x = 0" using r(2) that by (simp add: rounds_to_0)
  then show ?thesis using r assms(2) by (cases "x = 0") (auto intro!: exI [of _ k] simp: min_def)
qed

lemma rounded_mono:
  assumes r: "rounded x r" and t: "rounded y t" and le: "x \<le> y"
  shows "f64_le r t"
proof -
  have "f64_key r \<le> f64_key t"
  proof (cases "0 \<le> x")
    case True
    with le have "0 \<le> y" by simp
    with rounded_key_pos [OF r True] rounded_key_pos [OF t] obtain j k where
      "rounds_to x k" "f64_key r = int (min inf_mag k)"
      "rounds_to y j" "f64_key t = int (min inf_mag j)" by blast
    then show ?thesis using rounds_to_mono [of x k y j] le by simp
  next
    case x: False
    then obtain k where k: "rounds_to (- x) k" "f64_key r = - int (min inf_mag k)"
      using rounded_key_neg [OF r] by fastforce
    show ?thesis
    proof (cases "0 \<le> y")
      case True
      then show ?thesis using rounded_key_pos [OF t] k by fastforce
    next
      case False
      then obtain j where "rounds_to (- y) j" "f64_key t = - int (min inf_mag j)"
        using rounded_key_neg [OF t] by fastforce
      then show ?thesis using rounds_to_mono [of "- y" j "- x" k] le k by simp
    qed
  qed
  then show ?thesis using r t by (simp add: f64_le_def)
qed

lemma f64_le_uval:
  assumes "f64_is_finite a" "f64_is_finite b"
  shows "f64_le a b \<longleftrightarrow> uval a \<le> uval b"
proof -
  have z: "int (munits m) \<le> - int (munits n) \<longleftrightarrow> m = 0 \<and> n = 0" for m n
  proof -
    have "int (munits m) \<le> - int (munits n) \<longleftrightarrow> munits m = munits 0 \<and> munits n = munits 0"
      by simp linarith
    then show ?thesis by (simp only: munits_eq_iff)
  qed
  have n: "- int (munits m) \<le> int (munits n)" for m n by simp
  show ?thesis using assms z n
    by (cases a; cases b) (auto simp: f64_le_def signed_def min_def)
qed

lemma qval_int: "qval n 1 (int e) = real (n * 2 ^ e)"
  by (simp add: qval_def)

lemma rnd_mag_rounded:
  assumes "0 < d" "\<bar>x\<bar> = qval n d e" "x < 0 \<longrightarrow> s" "0 < x \<longrightarrow> \<not> s"
  shows "rounded x (Num s (rnd_mag n d e))"
  unfolding rounded_def rnd_mag_def
  using rnd_index_rounds [OF assms(1), of n e] assms(2-4)
  by (intro exI [of _ s] exI [of _ "rnd_index n d e"]) simp

lemma rnd_mag_signed:
  assumes "0 < d" "y = qval n d e"
  shows "rounded (if s then - y else y) (Num s (rnd_mag n d e))"
proof -
  have "0 \<le> y" unfolding assms(2) qval_def by simp
  then show ?thesis using assms by (intro rnd_mag_rounded) auto
qed

lemma uval_Num: "uval (Num s m) = signed s (sig_of m * 2 ^ exp_of m)"
  by (simp add: munits_def)

lemma signed_scale: "signed s (n * 2 ^ k) = signed s n * 2 ^ k"
  by (simp add: signed_def)

lemma f64_add_zeros:
  assumes "f64_is_finite (Num s m)" "f64_is_finite (Num t n)" "m = 0 \<or> n = 0"
  shows "rounded (real_of_int (uval (Num s m) + uval (Num t n))) (f64_add (Num s m) (Num t n))"
proof -
  have "rounded 0 (Num u 0)" for u by (auto simp: rounded_def rounds_to_0 intro!: exI [of _ 0])
  then show ?thesis using assms rounded_self [OF assms(1)] rounded_self [OF assms(2)] by auto
qed

lemma f64_add_rounded:
  assumes "f64_is_finite a" "f64_is_finite b"
  shows "rounded (real_of_int (uval a + uval b)) (f64_add a b)"
proof (cases "\<exists>s m t n. a = Num s m \<and> b = Num t n \<and> (m = 0 \<or> n = 0)")
  case True
  then show ?thesis using assms f64_add_zeros by metis
next
  case nz: False
  obtain s m where Num: "a = Num s m" using assms by (cases a) auto
  show ?thesis
  proof (cases b)
    case b: (Num t n)
    define e where "e = min (exp_of m) (exp_of n)"
    define z where "z = signed s (sig_of m * 2 ^ (exp_of m - e)) + signed t (sig_of n * 2 ^ (exp_of n - e))"
    have sc: "signed u (sig_of k * 2 ^ (exp_of k - e)) * 2 ^ e = uval (Num u k)"
      if "e \<le> exp_of k" for u k
      using that unfolding uval_Num
      by (simp add: signed_def mult.assoc flip: power_add)
    have z: "uval a + uval b = z * 2 ^ e"
      unfolding z_def Num b distrib_right by (subst sc, simp add: e_def)+ simp
    have fin: "\<not> inf_mag \<le> m" "\<not> inf_mag \<le> n" "m \<noteq> 0" "n \<noteq> 0"
      using assms nz by (simp_all add: Num b)
    have eq: "f64_add a b = (if z = 0 then Num (s \<and> t) 0 else Num (z < 0) (rnd_mag (nat \<bar>z\<bar>) 1 (int e)))"
      using fin by (simp add: Num b add_at_def round_int_def align_def e_def z_def)
    have x: "real_of_int (uval a + uval b) = real_of_int z * 2 ^ e" unfolding z by simp
    show ?thesis
    proof (cases "z = 0")
      case True
      then show ?thesis unfolding eq x
        by (auto simp: rounded_def rounds_to_0 intro!: exI [of _ 0])
    next
      case False
      have "rounded (if z < 0 then - (real (nat \<bar>z\<bar>) * 2 ^ e) else real (nat \<bar>z\<bar>) * 2 ^ e)
          (Num (z < 0) (rnd_mag (nat \<bar>z\<bar>) 1 (int e)))"
        by (rule rnd_mag_signed) (simp_all add: qval_def)
      then show ?thesis unfolding eq x using False by (auto split: if_splits)
    qed
  qed (use assms in simp)
qed

lemma uval_neg [simp]: "uval (f64_neg a) = - uval a"
  by (cases a) (auto simp: signed_def)

lemma finite_neg [simp]: "f64_is_finite (f64_neg a) \<longleftrightarrow> f64_is_finite a"
  by (cases a) auto

lemma f64_sub_rounded:
  assumes "f64_is_finite a" "f64_is_finite b"
  shows "rounded (real_of_int (uval a - uval b)) (f64_sub a b)"
  using f64_add_rounded [of a "f64_neg b"] assms by (simp add: f64_sub_def)

lemma munits_pos: "0 < munits m \<longleftrightarrow> 0 < m"
  using munits_less_iff [of 0 m] by simp

lemma sig_of_pos: "0 < m \<Longrightarrow> 0 < sig_of m"
  by (simp add: sig_of_def)

lemma one_units_pos [simp]: "0 < one_units" "one_units \<noteq> 0" "0 \<le> one_units" "\<not> one_units < 0"
  by (simp_all add: one_units_def)

lemma f64_mul_rounded:
  assumes "f64_is_finite a" "f64_is_finite b"
  shows "rounded (real_of_int (uval a) * uval b / one_units) (f64_mul a b)"
proof (cases a)
  case (Num s m)
  show ?thesis
  proof (cases b)
    case b: (Num t n)
    define y where "y = real (munits m) * munits n / one_units"
    have fin: "\<not> inf_mag \<le> m" "\<not> inf_mag \<le> n" using assms by (simp_all add: Num b)
    have "y = qval (sig_of m * sig_of n) 1 (int (exp_of m) + int (exp_of n) - 1074)"
      unfolding y_def one_units_def qval_def munits_def by (simp add: power_int_add power_int_diff)
    then have "rounded (if s \<noteq> t then - y else y) (Num (s \<noteq> t)
        (rnd_mag (sig_of m * sig_of n) 1 (int (exp_of m) + int (exp_of n) - 1074)))"
      by (intro rnd_mag_signed) simp_all
    moreover have "real_of_int (uval a) * uval b / one_units = (if s \<noteq> t then - y else y)"
      by (simp add: Num b y_def signed_def)
    ultimately show ?thesis using fin by (simp add: Num b)
  qed (use assms in simp)
qed (use assms in simp)

lemma f64_div_rounded:
  assumes "f64_is_finite a" "f64_is_finite b" "uval b \<noteq> 0"
  shows "rounded (real_of_int (uval a) / uval b * one_units) (f64_div a b)"
proof (cases a)
  case (Num s m)
  show ?thesis
  proof (cases b)
    case b: (Num t n)
    define y where "y = real (munits m) / munits n * one_units"
    have fin: "\<not> inf_mag \<le> m" "\<not> inf_mag \<le> n" using assms by (simp_all add: Num b)
    have n: "n \<noteq> 0" using assms(3) by (cases "n = 0") (simp_all add: b signed_def split: if_splits)
    then have d: "0 < sig_of n" by (intro sig_of_pos) simp
    have "y = qval (sig_of m) (sig_of n) (int (exp_of m) - int (exp_of n) + 1074)"
      using d unfolding y_def one_units_def qval_def munits_def
      by (simp add: power_int_add power_int_diff)
    then have "rounded (if s \<noteq> t then - y else y) (Num (s \<noteq> t)
        (rnd_mag (sig_of m) (sig_of n) (int (exp_of m) - int (exp_of n) + 1074)))"
      using d by (intro rnd_mag_signed) simp_all
    moreover have "real_of_int (uval a) / uval b * one_units = (if s \<noteq> t then - y else y)"
      by (simp add: Num b y_def signed_def)
    ultimately show ?thesis using fin n by (simp add: Num b)
  qed (use assms in simp)
qed (use assms in simp)

lemma f64_of_nat_rounded: "rounded (real n * one_units) (f64_of_nat n)"
proof -
  have "real n * one_units = qval n 1 1074" by (simp add: qval_def one_units_def)
  then show ?thesis unfolding f64_of_nat_def
    using rnd_mag_signed [of 1 "real n * one_units" n 1074 False] by simp
qed


subsection \<open>Order laws\<close>

named_theorems f64_order \<open>order facts of \<open>f64\<close> used by simp and auto\<close>

lemma f64_le_trans [trans]: "f64_le x y \<Longrightarrow> f64_le y z \<Longrightarrow> f64_le x z"
  by (auto simp: f64_le_def)

lemma f64_le_refl [simp]: "\<not> f64_is_nan x \<Longrightarrow> f64_le x x"
  by (simp add: f64_le_def)

lemma f64_le_nan: "f64_le x y \<Longrightarrow> \<not> f64_is_nan x \<and> \<not> f64_is_nan y"
  by (simp add: f64_le_def)

lemma f64_lt_le: "f64_lt x y \<Longrightarrow> f64_le x y"
  by (simp add: f64_lt_def f64_le_def)

lemma f64_le_lt_trans: "f64_le x y \<Longrightarrow> f64_lt y z \<Longrightarrow> f64_lt x z"
  by (auto simp: f64_le_def f64_lt_def)

lemma f64_lt_le_trans: "f64_lt x y \<Longrightarrow> f64_le y z \<Longrightarrow> f64_lt x z"
  by (auto simp: f64_le_def f64_lt_def)

lemma f64_not_lt: "\<not> f64_is_nan x \<Longrightarrow> \<not> f64_is_nan y \<Longrightarrow> \<not> f64_lt x y \<longleftrightarrow> f64_le y x"
  by (auto simp: f64_le_def f64_lt_def)

lemma finite_not_nan [simp]: "f64_is_finite x \<Longrightarrow> \<not> f64_is_nan x"
  by (cases x) auto

lemma finite_between:
  "f64_is_finite b \<Longrightarrow> f64_le f64_zero a \<Longrightarrow> f64_le a b \<Longrightarrow> f64_is_finite a"
  by (cases a; cases b) (auto simp: f64_le_def min_def split: if_splits)

lemma uval_zero [simp]: "uval f64_zero = 0" by (simp add: signed_def)

lemma finite_zero [simp]: "f64_is_finite f64_zero" by simp

lemma f64_le_zero_uval: "f64_is_finite a \<Longrightarrow> f64_le f64_zero a \<longleftrightarrow> 0 \<le> uval a"
  using f64_le_uval [of f64_zero a] by simp

lemma f64_lt_zero_uval: "f64_is_finite a \<Longrightarrow> f64_lt f64_zero a \<longleftrightarrow> 0 < uval a"
  using f64_le_uval [of a f64_zero] f64_not_lt [of f64_zero a] by auto

text \<open>Comparing a rounded result with a number that is already an \<open>f64\<close>.\<close>

lemma le_rounded: "f64_is_finite a \<Longrightarrow> real_of_int (uval a) \<le> x \<Longrightarrow> rounded x r \<Longrightarrow> f64_le a r"
  using rounded_mono [OF rounded_self] by blast

lemma rounded_le: "f64_is_finite a \<Longrightarrow> x \<le> real_of_int (uval a) \<Longrightarrow> rounded x r \<Longrightarrow> f64_le r a"
  using rounded_mono [OF _ rounded_self] by blast

lemma infinite_top: "\<not> f64_is_finite y \<Longrightarrow> f64_le f64_zero y \<Longrightarrow> \<not> f64_is_nan x \<Longrightarrow> f64_le x y"
  by (cases x; cases y) (auto simp: f64_le_def min_def split: if_splits)

lemma f64_add_inf:
  assumes "f64_le f64_zero a" "f64_le f64_zero b" "\<not> f64_is_finite a \<or> \<not> f64_is_finite b"
  shows "f64_add a b = Num False inf_mag"
proof -
  have "0 < m" if "\<not> m < inf_mag" for m using that inf_mag_pos by (meson less_le_trans not_le)
  with assms show ?thesis by (cases a; cases b) (auto simp: f64_le_def min_def split: if_splits)
qed

lemma f64_le_inf_mag: "\<not> f64_is_nan x \<Longrightarrow> f64_le x (Num False inf_mag)"
  by (cases x) (auto simp: f64_le_def)

lemma f64_add_nonneg:
  assumes "f64_le f64_zero a" "f64_le f64_zero b" shows "f64_le f64_zero (f64_add a b)"
proof (cases "f64_is_finite a \<and> f64_is_finite b")
  case True
  then show ?thesis using f64_add_rounded [of a b] assms
    by (intro le_rounded [of f64_zero "real_of_int (uval a + uval b)"]) (auto simp: f64_le_zero_uval)
qed (use f64_add_inf [OF assms] in \<open>auto simp: f64_le_inf_mag\<close>)

lemma f64_add_mono:
  assumes "f64_le f64_zero a" "f64_le a b" "f64_le f64_zero c" "f64_le c d"
  shows "f64_le (f64_add a c) (f64_add b d)"
proof (cases "f64_is_finite b \<and> f64_is_finite d")
  case True
  then have f: "f64_is_finite a" "f64_is_finite c" "f64_is_finite b" "f64_is_finite d"
    using assms finite_between by blast+
  then have "uval a \<le> uval b" "uval c \<le> uval d" using assms f64_le_uval by blast+
  then show ?thesis
    by (intro rounded_mono [OF f64_add_rounded [OF f(1,2)] f64_add_rounded [OF f(3,4)]]) simp
next
  case False
  have "f64_le f64_zero b" "f64_le f64_zero d" using assms f64_le_trans by blast+
  then show ?thesis using False f64_add_nonneg [OF assms(1,3)] f64_add_inf
    by (auto intro: f64_le_inf_mag dest: f64_le_nan)
qed

lemma f64_le_add_left:
  assumes "f64_le f64_zero a" "f64_le f64_zero b" shows "f64_le a (f64_add a b)"
proof (cases "f64_is_finite a \<and> f64_is_finite b")
  case True
  then show ?thesis using f64_add_rounded [of a b] assms
    by (intro le_rounded [of a "real_of_int (uval a + uval b)"]) (auto simp: f64_le_zero_uval)
next
  case False
  then show ?thesis using f64_add_inf [OF assms] assms(1) by (auto intro: f64_le_inf_mag dest: f64_le_nan)
qed

lemma f64_le_add_right:
  assumes "f64_le f64_zero a" "f64_le f64_zero b" shows "f64_le b (f64_add a b)"
proof (cases "f64_is_finite a \<and> f64_is_finite b")
  case True
  then show ?thesis using f64_add_rounded [of a b] assms
    by (intro le_rounded [of b "real_of_int (uval a + uval b)"]) (auto simp: f64_le_zero_uval)
next
  case False
  then show ?thesis using f64_add_inf [OF assms] assms(2) by (auto intro: f64_le_inf_mag dest: f64_le_nan)
qed

lemma uval_one: "uval f64_one = one_units" "f64_is_finite f64_one"
  by (simp_all add: f64_one_def signed_def munits_def sig_of_def exp_of_def one_units_def inf_mag_def)

lemma f64_mul_unit:
  assumes v: "f64_is_finite v" "f64_le f64_zero v" and f: "f64_le f64_zero f" "f64_le f f64_one"
  shows "f64_le f64_zero (f64_mul v f)" "f64_le (f64_mul v f) v"
proof -
  have ff: "f64_is_finite f" using f uval_one finite_between by blast
  have u: "0 \<le> uval v" "0 \<le> uval f" using v f ff by (simp_all add: f64_le_zero_uval)
  have "uval f \<le> uval f64_one" using f(2) f64_le_uval [OF ff uval_one(2)] by simp
  then have "real_of_int (uval f) \<le> one_units" using uval_one(1) by (metis of_int_le_iff)
  then have "real_of_int (uval v) * uval f / one_units \<le> uval v"
    using u by (simp add: pos_divide_le_eq mult_left_mono)
  then show "f64_le (f64_mul v f) v"
    by (rule rounded_le [OF v(1) _ f64_mul_rounded [OF v(1) ff]])
  show "f64_le f64_zero (f64_mul v f)"
    using u by (intro le_rounded [OF finite_zero _ f64_mul_rounded [OF v(1) ff]]) simp
qed

lemma f64_sub_below:
  assumes "f64_is_finite v" "f64_le f64_zero b" "f64_le b v"
  shows "f64_le f64_zero (f64_sub v b)" "f64_le (f64_sub v b) v"
proof -
  have b: "f64_is_finite b" using assms finite_between by blast
  then have u: "0 \<le> uval b" "uval b \<le> uval v" using assms by (simp_all add: f64_le_zero_uval f64_le_uval)
  show "f64_le f64_zero (f64_sub v b)"
    using u by (intro le_rounded [OF finite_zero _ f64_sub_rounded [OF assms(1) b]]) simp
  show "f64_le (f64_sub v b) v"
    using u by (intro rounded_le [OF assms(1) _ f64_sub_rounded [OF assms(1) b]]) simp
qed

lemma f64_abs_bounds:
  "f64_le (f64_neg v) x \<Longrightarrow> f64_le x v \<Longrightarrow> f64_le f64_zero (f64_abs x) \<and> f64_le (f64_abs x) v"
  by (cases x; cases v) (auto simp: f64_le_def split: if_splits)

lemma f64_abs_sub_le:
  assumes v: "f64_is_finite v" and b: "f64_le f64_zero b" "f64_le b v"
    and c: "f64_le f64_zero c" "f64_le c v"
  shows "f64_le f64_zero (f64_abs (f64_sub b c))" "f64_le (f64_abs (f64_sub b c)) v"
proof -
  have f: "f64_is_finite b" "f64_is_finite c" using assms finite_between by blast+
  have u: "0 \<le> uval b" "uval b \<le> uval v" "0 \<le> uval c" "uval c \<le> uval v"
    using assms f by (simp_all add: f64_le_zero_uval f64_le_uval)
  note r = f64_sub_rounded [OF f]
  have "f64_le (f64_neg v) (f64_sub b c)" using u v by (intro le_rounded [OF _ _ r]) simp_all
  moreover have "f64_le (f64_sub b c) v" using u v by (intro rounded_le [OF _ _ r]) simp_all
  ultimately show "f64_le f64_zero (f64_abs (f64_sub b c))" "f64_le (f64_abs (f64_sub b c)) v"
    using f64_abs_bounds by blast+
qed

lemma f64_div_unit:
  assumes "f64_is_finite b" "f64_lt f64_zero b" "f64_le f64_zero a" "f64_le a b"
  shows "f64_le f64_zero (f64_div a b)" "f64_le (f64_div a b) f64_one"
proof -
  have a: "f64_is_finite a" using assms finite_between by blast
  have u: "0 < uval b" "0 \<le> uval a" "uval a \<le> uval b"
    using assms a by (simp_all add: f64_lt_zero_uval f64_le_zero_uval f64_le_uval)
  have r: "rounded (real_of_int (uval a) / uval b * one_units) (f64_div a b)"
    using u by (intro f64_div_rounded a assms) simp
  show "f64_le f64_zero (f64_div a b)"
    using u by (intro le_rounded [OF finite_zero _ r]) (simp add: less_imp_le)
  have "real_of_int (uval a) / uval b * one_units \<le> uval f64_one"
    unfolding uval_one using u by (simp add: pos_divide_le_eq mult.commute mult_left_mono)
  then show "f64_le (f64_div a b) f64_one" by (rule rounded_le [OF uval_one(2) _ r])
qed


lemma f64_zero_not_lt: "f64_lt x y \<Longrightarrow> f64_le y f64_zero \<Longrightarrow> \<not> f64_le f64_zero x"
  by (auto simp: f64_le_def f64_lt_def)

interpretation f64c: rounded_cone f64_le f64_lt f64_is_finite f64_zero f64_one
    f64_add f64_sub f64_mul f64_div f64_abs
proof unfold_locales
  show "f64_le f64_zero f64_zero" by simp
  show "f64_le x x" if "f64_le f64_zero x" for x
    using that by (simp add: f64_le_def)
  show "f64_le x z" if "f64_le x y" "f64_le y z" for x y z
    using that by (rule f64_le_trans)
  show "f64_lt x z" if "f64_lt x y" "f64_le y z" for x y z
    using that by (rule f64_lt_le_trans)
  show "f64_is_finite a" if "f64_is_finite b" "f64_le f64_zero a" "f64_le a b" for a b
    using that by (rule finite_between)
  show "f64_le (f64_add a c) (f64_add b d)"
    if "f64_le f64_zero a" "f64_le a b" "f64_le f64_zero c" "f64_le c d" for a b c d
    using that by (rule f64_add_mono)
  show "f64_le a (f64_add a b)" "f64_le b (f64_add a b)"
    if "f64_le f64_zero a" "f64_le f64_zero b" for a b
    using that by (rule f64_le_add_left, rule f64_le_add_right)
  show "f64_le f64_zero (f64_mul v f) \<and> f64_le (f64_mul v f) v"
    if "f64_is_finite v" "f64_le f64_zero v" "f64_le f64_zero f" "f64_le f f64_one" for v f
    using f64_mul_unit [OF that] by blast
  show "f64_le f64_zero (f64_sub v b) \<and> f64_le (f64_sub v b) v"
    if "f64_is_finite v" "f64_le f64_zero b" "f64_le b v" for v b
    using f64_sub_below [OF that] by blast
  show "f64_le f64_zero (f64_abs (f64_sub b c)) \<and> f64_le (f64_abs (f64_sub b c)) v"
    if "f64_is_finite v" "f64_le f64_zero b" "f64_le b v" "f64_le f64_zero c" "f64_le c v" for v b c
    using f64_abs_sub_le [OF that] by blast
  show "f64_le f64_zero (f64_div a b) \<and> f64_le (f64_div a b) f64_one"
    if "f64_is_finite b" "f64_lt f64_zero b" "f64_le f64_zero a" "f64_le a b" for a b
    using f64_div_unit [OF that] by blast
qed

subsection \<open>Evaluating closed terms with \<open>simp\<close>\<close>

text \<open>Casts of machine integers and quotients of counts.\<close>

lemma f64_of_nat_mono: "m \<le> n \<Longrightarrow> f64_le (f64_of_nat m) (f64_of_nat n)"
  by (rule rounded_mono [OF f64_of_nat_rounded f64_of_nat_rounded]) simp

lemma f64_of_nat_nonneg [simp]: "f64_le f64_zero (f64_of_nat n)"
  by (rule le_rounded [OF finite_zero _ f64_of_nat_rounded]) simp

lemma f64_of_nat_1: "f64_of_nat (Suc 0) = f64_one"
  by (simp add: f64_of_nat_def f64_one_def rnd_mag_def rnd_index_def rnd_at_def fit_exp_def rne_def
      round_quotient_def compute_floorlog exp_of_def sig_of_def inf_mag_def)

lemma f64_of_nat_ge_one: "0 < n \<Longrightarrow> f64_le f64_one (f64_of_nat n)"
  using f64_of_nat_mono [of 1 n] by (simp add: f64_of_nat_1)

lemma f64_of_nat_finite: assumes "n < 2 ^ 64" shows "f64_is_finite (f64_of_nat n)"
proof -
  have b: "f64_is_finite (Num False (1087 * 2 ^ 52))" "uval (Num False (1087 * 2 ^ 52)) = 2 ^ 1138"
    by (simp_all add: inf_mag_def munits_def sig_of_def exp_of_def signed_def)
  have "real n * one_units \<le> 2 ^ 64 * 2 ^ 1074"
    unfolding one_units_def using assms by (intro mult_right_mono) simp_all
  then have "f64_le (f64_of_nat n) (Num False (1087 * 2 ^ 52))"
    by (intro rounded_le [OF b(1) _ f64_of_nat_rounded])
      (simp only: b(2) of_int_power of_int_numeral power_add [symmetric]; simp)
  with b(1) f64_of_nat_nonneg show ?thesis by (rule finite_between)
qed

lemma f64_one_pos [simp]: "f64_lt f64_zero f64_one"
  by (simp add: f64_lt_def f64_one_def inf_mag_def)

lemma f64_of_nat_pos: "0 < n \<Longrightarrow> f64_lt f64_zero (f64_of_nat n)"
  using f64_lt_le_trans [OF f64_one_pos f64_of_nat_ge_one] .

text \<open>The rank \<open>m / w\<close> of a count.\<close>

definition count_ratio :: "nat \<Rightarrow> nat \<Rightarrow> f64" where
  "count_ratio m w = f64_div (f64_of_nat m) (f64_of_nat w)"

lemma f64_div_mono:
  assumes "f64_is_finite a" "f64_is_finite b" "f64_is_finite d" "f64_lt f64_zero d" "f64_le a b"
  shows "f64_le (f64_div a d) (f64_div b d)"
proof -
  have d: "0 < uval d" using assms(3,4) by (simp add: f64_lt_zero_uval)
  have "real_of_int (uval a) \<le> real_of_int (uval b)" using assms(1,2,5) f64_le_uval by simp
  then have "real_of_int (uval a) / uval d * one_units \<le> real_of_int (uval b) / uval d * one_units"
    using d by (intro mult_right_mono divide_right_mono) simp_all
  from rounded_mono [OF f64_div_rounded f64_div_rounded this] show ?thesis using assms d by simp
qed

lemma count_ratio_mono:
  assumes "m \<le> n" "n \<le> w" "0 < w" "w < 2 ^ 64"
  shows "f64_le (count_ratio m w) (count_ratio n w)"
  unfolding count_ratio_def
  using assms by (intro f64_div_mono f64_of_nat_finite f64_of_nat_mono f64_of_nat_pos) simp_all

lemma count_ratio_unit:
  assumes "m \<le> w" "0 < w" "w < 2 ^ 64"
  shows "f64_le f64_zero (count_ratio m w)" "f64_le (count_ratio m w) f64_one"
  unfolding count_ratio_def
  using f64_div_unit [OF f64_of_nat_finite f64_of_nat_pos f64_of_nat_nonneg f64_of_nat_mono] assms
  by simp_all

lemmas f64_eval = rnd_mag_def rnd_index_def rnd_at_def fit_exp_def rne_def
  round_quotient_def align_def round_int_def add_at_def compute_floorlog exp_of_def sig_of_def
  inf_mag_def signed_def f64_of_nat_def f64_of_dec_def isqrt.simps isqrt_step_def f64_one_def
  f64_half_def f64_two_def sqrt_arg_def sqrt_scale_def sqrt_sticky_def f64_sub_def f64_le_def f64_lt_def f64_eq_def
  f64_powi2_def f64_sum_def int_part_def has_frac_def mag_of_int_def f64_inf_def f64_neg_inf_def
  f64_total_le_def f64_min_def f64_max_def

end
