(* ===== verification/Bucket.thy ===== *)
theory Bucket
  imports F64_Laws
begin

text \<open>
  \<open>crates/vpin-engine/src/bucket.rs\<close> and \<open>error.rs\<close>: the volume clock. A trade is the argument
  tuple \<open>(price, volume, ts_ns)\<close> of \<open>push\<close>. Counters are the machine words of the code and wrap as
  in a release build; the two \<open>debug_assert!\<close>s are \<open>push_asserts\<close>, and \<open>VolumeBucketer_push_debug\<close> is
  the debug build, where a failed assertion (or a counter overflow) panics, shown as \<open>None\<close>.
\<close>

subsection \<open>Errors, state, operations\<close>

datatype vpin_error =
    InvalidBucketVolume f64
  | InvalidWindow usize usize
  | InvalidConfidenceLevel f64
  | InvalidBootstrapSamples usize usize

record closed_bucket =
  cb_bucket_id :: u64
  cb_delta_p :: f64
  cb_volume :: f64
  cb_last_price :: f64
  cb_trade_count :: u32
  cb_ts_close_ns :: u64

record volume_bucketer =
  vb_target_volume :: f64
  vb_bucket_id :: u64
  vb_acc_volume :: f64
  vb_last_price :: f64
  vb_prev_close :: "f64 option"
  vb_trade_count :: u32
  vb_started :: bool

type_synonym trade_in = "f64 \<times> f64 \<times> u64"

definition VolumeBucketer_new :: "f64 \<Rightarrow> vpin_error + volume_bucketer" where
  "VolumeBucketer_new target_volume =
     (if \<not> (f64_is_finite target_volume \<and> f64_lt f64_zero target_volume)
      then Inl (InvalidBucketVolume target_volume)
      else Inr \<lparr>vb_target_volume = target_volume, vb_bucket_id = 0, vb_acc_volume = f64_zero,
        vb_last_price = f64_zero, vb_prev_close = None, vb_trade_count = 0, vb_started = False\<rparr>)"

definition push_asserts :: "f64 \<Rightarrow> f64 \<Rightarrow> bool" where
  "push_asserts price volume \<longleftrightarrow> f64_is_finite price \<and> f64_lt f64_zero price \<and>
     f64_is_finite volume \<and> f64_lt f64_zero volume"

definition VolumeBucketer_push ::
  "volume_bucketer \<Rightarrow> f64 \<Rightarrow> f64 \<Rightarrow> u64 \<Rightarrow> volume_bucketer \<times> closed_bucket option" where
  "VolumeBucketer_push b price volume ts_ns =
     (let b1 = (if \<not> vb_started b then b\<lparr>vb_prev_close := Some price, vb_started := True\<rparr> else b);
          b2 = b1\<lparr>vb_acc_volume := f64_add (vb_acc_volume b1) volume,
                  vb_last_price := price,
                  vb_trade_count := vb_trade_count b1 + 1\<rparr>
      in if f64_lt (vb_acc_volume b2) (vb_target_volume b2) then (b2, None)
         else (b2\<lparr>vb_bucket_id := vb_bucket_id b2 + 1, vb_acc_volume := f64_zero,
                  vb_trade_count := 0, vb_prev_close := Some price\<rparr>,
               Some \<lparr>cb_bucket_id = vb_bucket_id b2,
                     cb_delta_p = f64_sub price (case vb_prev_close b2 of Some p \<Rightarrow> p | None \<Rightarrow> price),
                     cb_volume = vb_acc_volume b2, cb_last_price = price,
                     cb_trade_count = vb_trade_count b2, cb_ts_close_ns = ts_ns\<rparr>))"

definition VolumeBucketer_push_debug ::
  "volume_bucketer \<Rightarrow> f64 \<Rightarrow> f64 \<Rightarrow> u64 \<Rightarrow> (volume_bucketer \<times> closed_bucket option) option" where
  "VolumeBucketer_push_debug b price volume ts_ns =
     (if \<not> push_asserts price volume \<or> vb_trade_count b = - 1 then None
      else let r = VolumeBucketer_push b price volume ts_ns
           in if snd r \<noteq> None \<and> vb_bucket_id b = - 1 then None else Some r)"

definition partial_volume :: "volume_bucketer \<Rightarrow> f64" where
  "partial_volume b = vb_acc_volume b"

definition current_bucket_id :: "volume_bucketer \<Rightarrow> u64" where
  "current_bucket_id b = vb_bucket_id b"

text \<open>Pushing a tape, the closed buckets in order.\<close>

fun bucketer_run :: "volume_bucketer \<Rightarrow> trade_in list \<Rightarrow> volume_bucketer \<times> closed_bucket list" where
  "bucketer_run b [] = (b, [])"
| "bucketer_run b ((p, v, t) # ts) =
     (case VolumeBucketer_push b p v t of (b', out) \<Rightarrow>
      case bucketer_run b' ts of (b'', outs) \<Rightarrow>
        (b'', (case out of None \<Rightarrow> outs | Some c \<Rightarrow> c # outs)))"

subsection \<open>Specification: cut the tape, then read each piece\<close>

text \<open>\<open>segments V cur acc ts\<close> cuts the tape greedily, \<open>cur\<close> being the open piece and \<open>acc\<close> its volume.\<close>

fun segments :: "f64 \<Rightarrow> trade_in list \<Rightarrow> f64 \<Rightarrow> trade_in list \<Rightarrow> trade_in list list \<times> trade_in list" where
  "segments V cur acc [] = ([], cur)"
| "segments V cur acc (t # ts) =
     (let acc' = f64_add acc (fst (snd t)) in
      if f64_lt acc' V then segments V (cur @ [t]) acc' ts
      else case segments V [] f64_zero ts of (segs, rest) \<Rightarrow> ((cur @ [t]) # segs, rest))"

definition volume_of :: "trade_in list \<Rightarrow> f64" where
  "volume_of ts = foldl f64_add f64_zero (map (fst \<circ> snd) ts)"

definition bucket_of :: "nat \<Rightarrow> f64 \<Rightarrow> trade_in list \<Rightarrow> closed_bucket" where
  "bucket_of i prev seg = \<lparr>cb_bucket_id = of_nat i, cb_delta_p = f64_sub (fst (last seg)) prev,
     cb_volume = volume_of seg, cb_last_price = fst (last seg),
     cb_trade_count = of_nat (length seg), cb_ts_close_ns = snd (snd (last seg))\<rparr>"

fun buckets_of :: "nat \<Rightarrow> f64 \<Rightarrow> trade_in list list \<Rightarrow> closed_bucket list" where
  "buckets_of i prev [] = []"
| "buckets_of i prev (seg # segs) = bucket_of i prev seg # buckets_of (Suc i) (fst (last seg)) segs"

lemma volume_of_Nil [simp]: "volume_of [] = f64_zero"
  by (simp add: volume_of_def)

lemma volume_of_snoc [simp]: "volume_of (ts @ [t]) = f64_add (volume_of ts) (fst (snd t))"
  by (simp add: volume_of_def)

text \<open>The bucketer's state while piece \<open>cur\<close> is open and \<open>i\<close> buckets have closed.\<close>

definition open_state :: "f64 \<Rightarrow> nat \<Rightarrow> f64 \<Rightarrow> trade_in list \<Rightarrow> volume_bucketer \<Rightarrow> bool" where
  "open_state V i prev cur b \<longleftrightarrow> vb_target_volume b = V \<and> vb_bucket_id b = of_nat i \<and>
     vb_acc_volume b = volume_of cur \<and> vb_trade_count b = of_nat (length cur) \<and>
     vb_started b \<and> vb_prev_close b = Some prev"

lemma push_open:
  assumes "open_state V i prev cur b" "f64_lt (volume_of (cur @ [(p, v, t)])) V"
  shows "\<exists>b'. VolumeBucketer_push b p v t = (b', None) \<and> open_state V i prev (cur @ [(p, v, t)]) b'"
  using assms by (simp add: VolumeBucketer_push_def open_state_def Let_def)

lemma push_close:
  assumes "open_state V i prev cur b" "\<not> f64_lt (volume_of (cur @ [(p, v, t)])) V"
  shows "\<exists>b'. VolumeBucketer_push b p v t = (b', Some (bucket_of i prev (cur @ [(p, v, t)]))) \<and>
    open_state V (Suc i) p [] b'"
  using assms by (simp add: VolumeBucketer_push_def open_state_def bucket_of_def Let_def)

lemma push_not_started:
  "\<not> vb_started b \<Longrightarrow> VolumeBucketer_push b p v t =
    VolumeBucketer_push (b\<lparr>vb_prev_close := Some p, vb_started := True\<rparr>) p v t"
  by (simp add: VolumeBucketer_push_def Let_def)

lemma run_open_state:
  "open_state V i prev cur b \<Longrightarrow> segments V cur (volume_of cur) ts = (segs, rest) \<Longrightarrow>
    snd (bucketer_run b ts) = buckets_of i prev segs \<and>
    open_state V (i + length segs) (if segs = [] then prev else fst (last (last segs))) rest
      (fst (bucketer_run b ts))"
proof (induction ts arbitrary: i prev cur b segs rest)
  case (Cons x ts)
  obtain p v t where x: "x = (p, v, t)" by (cases x)
  show ?case
  proof (cases "f64_lt (volume_of (cur @ [(p, v, t)])) V")
    case True
    obtain b' where b': "VolumeBucketer_push b p v t = (b', None)" "open_state V i prev (cur @ [(p, v, t)]) b'"
      using push_open [OF Cons.prems(1) True] by blast
    have "segments V (cur @ [(p, v, t)]) (volume_of (cur @ [(p, v, t)])) ts = (segs, rest)"
      using Cons.prems(2) True by (simp add: x Let_def)
    from Cons.IH [OF b'(2) this] show ?thesis by (simp add: x b'(1) split: prod.splits)
  next
    case False
    obtain b' where b': "VolumeBucketer_push b p v t = (b', Some (bucket_of i prev (cur @ [(p, v, t)])))"
      "open_state V (Suc i) p [] b'"
      using push_close [OF Cons.prems(1) False] by blast
    obtain segs' where s: "segments V [] (volume_of []) ts = (segs', rest)"
      "segs = (cur @ [(p, v, t)]) # segs'"
      using Cons.prems(2) False by (auto simp: x Let_def split: prod.splits)
    from Cons.IH [OF b'(2) s(1)] show ?thesis
      by (auto simp: x b'(1) s(2) split: prod.splits)
  qed
qed (auto simp: open_state_def)

subsection \<open>Properties of the cut\<close>

lemma segments_concat: "segments V cur acc ts = (segs, rest) \<Longrightarrow> concat segs @ rest = cur @ ts"
  by (induction V cur acc ts arbitrary: segs rest rule: segments.induct)
    (auto simp: Let_def split: if_splits prod.splits)

text \<open>Each piece ends with the trade that reaches \<open>V\<close>, and not before.\<close>

definition tips :: "f64 \<Rightarrow> trade_in list \<Rightarrow> bool" where
  "tips V seg \<longleftrightarrow> seg \<noteq> [] \<and> \<not> f64_lt (volume_of seg) V \<and>
     (\<forall>k < length seg. 0 < k \<longrightarrow> f64_lt (volume_of (take k seg)) V)"

definition below :: "f64 \<Rightarrow> trade_in list \<Rightarrow> bool" where
  "below V cur \<longleftrightarrow> (\<forall>k \<le> length cur. 0 < k \<longrightarrow> f64_lt (volume_of (take k cur)) V)"

lemma below_Nil [simp]: "below V []" by (simp add: below_def)

lemma below_snoc: "below V cur \<Longrightarrow> f64_lt (volume_of (cur @ [t])) V \<Longrightarrow> below V (cur @ [t])"
  by (auto simp: below_def le_Suc_eq)

lemma tips_snoc: "below V cur \<Longrightarrow> \<not> f64_lt (volume_of (cur @ [t])) V \<Longrightarrow> tips V (cur @ [t])"
  by (auto simp: below_def tips_def less_Suc_eq_le)

lemma segments_tip:
  "segments V cur (volume_of cur) ts = (segs, rest) \<Longrightarrow> below V cur \<Longrightarrow>
    (\<forall>seg \<in> set segs. tips V seg) \<and> below V rest"
proof (induction ts arbitrary: cur segs rest)
  case (Cons t ts)
  show ?case
  proof (cases "f64_lt (volume_of (cur @ [t])) V")
    case True
    then have "segments V (cur @ [t]) (volume_of (cur @ [t])) ts = (segs, rest)"
      using Cons.prems(1) by (simp add: Let_def)
    then show ?thesis using Cons.prems(2) True by (rule Cons.IH [OF _ below_snoc])
  next
    case False
    then obtain segs' where s: "segments V [] (volume_of []) ts = (segs', rest)"
      "segs = (cur @ [t]) # segs'"
      using Cons.prems by (auto simp: Let_def split: prod.splits)
    show ?thesis using Cons.IH [OF s(1)] tips_snoc [OF Cons.prems(2) False] by (simp add: s(2))
  qed
qed simp

lemma length_buckets_of [simp]: "length (buckets_of i prev segs) = length segs"
  by (induction segs arbitrary: i prev) auto


lemma new_push_open:
  assumes "VolumeBucketer_new V = Inr b"
  shows "open_state V 0 p [] (b\<lparr>vb_prev_close := Some p, vb_started := True\<rparr>)" "\<not> vb_started b"
  using assms by (auto simp: VolumeBucketer_new_def open_state_def split: if_splits)

lemma run_first_price:
  assumes "\<not> vb_started b"
  shows "bucketer_run b ((p, v, t) # ts) =
    bucketer_run (b\<lparr>vb_prev_close := Some p, vb_started := True\<rparr>) ((p, v, t) # ts)"
  using push_not_started [OF assms] by simp

definition tape3 :: "trade_in list" where
  "tape3 = [(f64_of_nat 50, f64_of_nat 90, 1), (f64_of_nat 51, f64_of_nat 500, 2),
     (f64_of_nat 53, f64_of_nat 7, 3)]"

lemma tape3_segments:
  "segments (f64_of_nat 100) [] f64_zero tape3 = ([take 2 tape3], drop 2 tape3)"
  by (simp add: tape3_def f64_eval)

lemma tape3_buckets: "buckets_of 0 (fst (hd tape3)) [take 2 tape3] = [\<lparr>cb_bucket_id = 0, cb_delta_p = f64_one,
      cb_volume = f64_of_nat 590, cb_last_price = f64_of_nat 51, cb_trade_count = 2, cb_ts_close_ns = 2\<rparr>]"
  by (simp add: tape3_def bucket_of_def volume_of_def f64_eval)

definition bucketer_100 :: volume_bucketer where
  "bucketer_100 = \<lparr>vb_target_volume = f64_of_nat 100, vb_bucket_id = 0, vb_acc_volume = f64_zero,
     vb_last_price = f64_zero, vb_prev_close = None, vb_trade_count = 0, vb_started = False\<rparr>"

lemma new_100: "VolumeBucketer_new (f64_of_nat 100) = Inr bucketer_100"
  by (simp add: VolumeBucketer_new_def bucketer_100_def f64_eval)

lemma tape3_run_open:
  "snd (bucketer_run bucketer_100 tape3) = buckets_of 0 (fst (hd tape3)) [take 2 tape3]"
proof -
  have "\<not> vb_started bucketer_100" by (simp add: bucketer_100_def)
  note o = new_push_open(1) [OF new_100, of "f64_of_nat 50"]
  have "segments (f64_of_nat 100) [] (volume_of []) tape3 = ([take 2 tape3], drop 2 tape3)"
    using tape3_segments by simp
  from run_open_state [OF o this] show ?thesis
    unfolding tape3_def run_first_price [OF \<open>\<not> vb_started bucketer_100\<close>] by simp
qed

lemmas tape3_run = tape3_run_open [unfolded tape3_buckets]

text \<open>C15: pushing a tape through a fresh bucketer cuts it into pieces, losing and splitting no trade:
  every piece ends exactly at the trade that brings its volume to the target, and the open piece has
  not reached it. One bucket is emitted per piece, with consecutive ids from 0, the piece's summed
  volume, its last price and timestamp, its number of trades, and a price change from close to
  close, the first bucket's reference being the price of the very first trade; the open piece is the
  bucketer's partial volume.\<close>

theorem bucketer_run_spec:
  assumes "VolumeBucketer_new V = Inr b" "ts \<noteq> []"
  shows "\<exists>segs rest. concat segs @ rest = ts \<and> (\<forall>seg \<in> set segs. tips V seg) \<and> below V rest \<and>
    snd (bucketer_run b ts) = buckets_of 0 (fst (hd ts)) segs \<and>
    partial_volume (fst (bucketer_run b ts)) = volume_of rest \<and>
    current_bucket_id (fst (bucketer_run b ts)) = of_nat (length segs)"
proof -
  obtain p v t us where ts: "ts = (p, v, t) # us" using assms(2) by (cases ts) auto
  obtain segs rest where s: "segments V [] f64_zero ts = (segs, rest)" by force
  note o = new_push_open(1) [OF assms(1), of p] new_push_open(2) [OF assms(1)]
  have "segments V [] (volume_of []) ((p, v, t) # us) = (segs, rest)" using s by (simp add: ts)
  from run_open_state [OF o(1) this]
  have "snd (bucketer_run b ts) = buckets_of 0 (fst (hd ts)) segs \<and>
      partial_volume (fst (bucketer_run b ts)) = volume_of rest \<and>
      current_bucket_id (fst (bucketer_run b ts)) = of_nat (length segs)"
    unfolding ts run_first_price [OF o(2)]
    by (simp add: open_state_def partial_volume_def current_bucket_id_def)
  moreover have "concat segs @ rest = ts" using segments_concat [OF s] by simp
  moreover have "(\<forall>seg \<in> set segs. tips V seg) \<and> below V rest"
    using segments_tip [of V "[]" ts segs rest] s by simp
  ultimately show ?thesis by blast
qed

theorem bucketer_run_spec_witness:
  "\<exists>segs rest. concat segs @ rest = tape3 \<and> (\<forall>seg \<in> set segs. tips (f64_of_nat 100) seg) \<and>
    snd (bucketer_run bucketer_100 tape3) = buckets_of 0 (f64_of_nat 50) segs"
proof -
  have "tape3 \<noteq> []" "fst (hd tape3) = f64_of_nat 50" by (simp_all add: tape3_def)
  with bucketer_run_spec [OF new_100, of tape3] show ?thesis by auto
qed

text \<open>a bucketer is built exactly for finite, strictly positive target volumes; every other
  value, the NaN and the infinities included, is an error that carries it.\<close>

theorem VolumeBucketer_new_iff:
  "VolumeBucketer_new V = Inl e \<longleftrightarrow>
    e = InvalidBucketVolume V \<and> \<not> (f64_is_finite V \<and> 0 < f64_val V)"
  using f64_lt_zero_uval [of V]
  by (auto simp: VolumeBucketer_new_def f64_val_def zero_less_divide_iff)

subsection \<open>Volumes of closed buckets\<close>

text \<open>What the engine needs of a bucket: its volume is positive, whatever the trades were, as long
  as no volume is a NaN or negative.\<close>

lemma push_closed_volume:
  assumes "VolumeBucketer_push b p v t = (b', Some c)" "f64_lt f64_zero (vb_target_volume b)"
    "f64_le f64_zero (vb_acc_volume b)" "f64_le f64_zero v"
  shows "f64_lt f64_zero (cb_volume c)"
proof -
  have "f64_le f64_zero (f64_add (vb_acc_volume b) v)" using assms(3,4) by (rule f64_add_nonneg)
  moreover have "\<not> f64_lt (f64_add (vb_acc_volume b) v) (vb_target_volume b)"
    "cb_volume c = f64_add (vb_acc_volume b) v"
    using assms(1) by (auto simp: VolumeBucketer_push_def Let_def split: if_splits)
  ultimately show ?thesis using assms(2)
    by (metis f64_le_nan f64_lt_le f64_lt_le_trans f64_not_lt)
qed

lemma push_keeps_volume:
  assumes "VolumeBucketer_push b p v t = (b', out)" "f64_le f64_zero (vb_acc_volume b)" "f64_le f64_zero v"
  shows "f64_le f64_zero (vb_acc_volume b')" "vb_target_volume b' = vb_target_volume b"
  using assms f64_add_nonneg [of "vb_acc_volume b" v]
  by (auto simp: VolumeBucketer_push_def Let_def split: if_splits)

text \<open>The debug build of a run; \<open>None\<close> is a panic.\<close>

fun bucketer_run_debug ::
  "volume_bucketer \<Rightarrow> trade_in list \<Rightarrow> (volume_bucketer \<times> closed_bucket list) option" where
  "bucketer_run_debug b [] = Some (b, [])"
| "bucketer_run_debug b ((p, v, t) # ts) =
     (case VolumeBucketer_push_debug b p v t of None \<Rightarrow> None
      | Some (b', out) \<Rightarrow> (case bucketer_run_debug b' ts of None \<Rightarrow> None
        | Some (b'', outs) \<Rightarrow> Some (b'', (case out of None \<Rightarrow> outs | Some c \<Rightarrow> c # outs))))"

text \<open>Room left in the two counters.\<close>

definition counters_room :: "nat \<Rightarrow> volume_bucketer \<Rightarrow> bool" where
  "counters_room n b \<longleftrightarrow> unat (vb_trade_count b) + n < 2 ^ 32 \<and> unat (vb_bucket_id b) + n < 2 ^ 64"

lemma unat_Suc_bound:
  fixes a :: "'a::len word"
  assumes "unat a + Suc n < 2 ^ LENGTH('a)"
  shows "a \<noteq> - 1 \<and> unat (a + 1) + n < 2 ^ LENGTH('a)"
proof -
  have "unat (a + 1) = unat a + 1" using assms by (simp add: unat_word_ariths)
  then show ?thesis using assms by (auto simp: unsigned_minus_1_eq_mask mask_eq_exp_minus_1)
qed

lemma push_debug_Some:
  assumes "push_asserts p v" "counters_room (Suc n) b"
  shows "VolumeBucketer_push_debug b p v t = Some (VolumeBucketer_push b p v t)"
    and "counters_room n (fst (VolumeBucketer_push b p v t))"
proof -
  note r = unat_Suc_bound [of "vb_trade_count b" n] unat_Suc_bound [of "vb_bucket_id b" n]
  show "VolumeBucketer_push_debug b p v t = Some (VolumeBucketer_push b p v t)"
    using assms r by (auto simp: VolumeBucketer_push_debug_def counters_room_def Let_def)
  show "counters_room n (fst (VolumeBucketer_push b p v t))"
    using assms(2) r by (auto simp: VolumeBucketer_push_def counters_room_def Let_def)
qed

text \<open>on a tape of fewer than \<open>2 ^ 32\<close> trades whose prices and volumes are finite and positive
  no debug assertion fails and no counter overflows: the debug build runs to the end and returns
  what the release build returns.\<close>

theorem debug_run_agrees:
  assumes "VolumeBucketer_new V = Inr b" "\<forall>(p, v, t) \<in> set ts. push_asserts p v" "length ts < 2 ^ 32"
  shows "bucketer_run_debug b ts = Some (bucketer_run b ts)"
proof -
  have "counters_room (length ts) b \<Longrightarrow> ?thesis"
    using assms(2)
  proof (induction ts arbitrary: b)
    case (Cons x ts)
    obtain p v t where x: "x = (p, v, t)" by (cases x)
    obtain b' out where r: "VolumeBucketer_push b p v t = (b', out)" by force
    have a: "push_asserts p v" "counters_room (Suc (length ts)) b" using Cons.prems by (simp_all add: x)
    note d = push_debug_Some [OF a, of t, unfolded r]
    have "bucketer_run_debug b' ts = Some (bucketer_run b' ts)" using Cons d(2) by simp
    then show ?case by (simp add: x r d(1) split: prod.splits)
  qed simp
  moreover have "counters_room (length ts) b"
    using assms(1,3) by (auto simp: VolumeBucketer_new_def counters_room_def split: if_splits)
  ultimately show ?thesis by blast
qed

theorem debug_run_agrees_witness:
  "\<exists>b. VolumeBucketer_new (f64_of_nat 100) = Inr b \<and>
    bucketer_run_debug b tape3 = Some (bucketer_run b tape3)"
proof -
  have "\<forall>(p, v, t) \<in> set tape3. push_asserts p v" "length tape3 < 2 ^ 32"
    by (simp_all add: tape3_def push_asserts_def f64_eval)
  from debug_run_agrees [OF new_100 this] new_100 show ?thesis by blast
qed

end
