(* ===== verification/Bvc.thy ===== *)
theory Bvc
  imports Bucket
begin

text \<open>
  \<open>crates/vpin-engine/src/bvc.rs\<close>: bulk volume classification. \<open>libm::erf\<close> is a crate outside the
  repository; it is the parameter \<open>erf\<close>, and \<open>erf_range\<close> is what the code relies on: a value in
  \<open>[-1, 1]\<close> for every argument that is not a NaN.
\<close>

definition erf_range :: "(f64 \<Rightarrow> f64) \<Rightarrow> bool" where
  "erf_range erf \<longleftrightarrow> (\<forall>x. \<not> f64_is_nan x \<longrightarrow> f64_le (f64_neg f64_one) (erf x) \<and> f64_le (erf x) f64_one)"

text \<open>\<open>std::f64::consts::FRAC_1_SQRT_2\<close>, the \<open>f64\<close> with bits \<open>0x3FE6A09E667F3BCD\<close>.\<close>

definition frac_1_sqrt_2 :: f64 where
  "frac_1_sqrt_2 = Num False 0x3FE6A09E667F3BCD"

definition standard_normal_cdf :: "(f64 \<Rightarrow> f64) \<Rightarrow> f64 \<Rightarrow> f64" where
  "standard_normal_cdf erf x = f64_mul f64_half (f64_add f64_one (erf (f64_mul x frac_1_sqrt_2)))"

definition buy_fraction :: "(f64 \<Rightarrow> f64) \<Rightarrow> f64 \<Rightarrow> f64 \<Rightarrow> f64 option" where
  "buy_fraction erf delta_p sigma =
     (if \<not> (f64_is_finite sigma \<and> f64_lt f64_zero sigma \<and> f64_is_finite delta_p) then None
      else Some (standard_normal_cdf erf (f64_div delta_p sigma)))"

definition classify :: "(f64 \<Rightarrow> f64) \<Rightarrow> f64 \<Rightarrow> f64 \<Rightarrow> f64 \<Rightarrow> (f64 \<times> f64) option" where
  "classify erf delta_p sigma volume =
     (case buy_fraction erf delta_p sigma of
        None \<Rightarrow> None
      | Some fract \<Rightarrow> (let buy = f64_mul volume fract in Some (buy, f64_sub volume buy)))"

definition bucket_imbalance :: "(f64 \<Rightarrow> f64) \<Rightarrow> closed_bucket \<Rightarrow> f64 \<Rightarrow> f64 option" where
  "bucket_imbalance erf bucket sigma =
     (case classify erf (cb_delta_p bucket) sigma (cb_volume bucket) of
        None \<Rightarrow> None
      | Some (buy, sell) \<Rightarrow> Some (f64_abs (f64_sub buy sell)))"

subsection \<open>The normal distribution function stays in \<open>[0, 1]\<close>\<close>

lemma uval_consts:
  "uval f64_two = 2 * 2 ^ 1074" "f64_is_finite f64_two"
  "uval f64_half = 2 ^ 1073" "f64_is_finite f64_half"
  by (simp_all add: f64_two_def f64_half_def munits_def sig_of_def exp_of_def inf_mag_def)

lemma int_one_units: "uval f64_one = 2 ^ 1074"
proof -
  have "real_of_int (uval f64_one) = real_of_int (2 ^ 1074)" unfolding uval_one(1) one_units_def by simp
  then show ?thesis by (simp only: of_int_eq_iff)
qed

lemma standard_normal_cdf_unit:
  assumes "erf_range erf" "\<not> f64_is_nan x"
  shows "f64_le f64_zero (standard_normal_cdf erf x)" "f64_le (standard_normal_cdf erf x) f64_one"
proof -
  have "\<not> f64_is_nan (f64_mul x frac_1_sqrt_2)"
    using assms(2) by (cases x) (simp_all add: frac_1_sqrt_2_def inf_mag_def)
  then obtain y where y: "erf (f64_mul x frac_1_sqrt_2) = y"
    "f64_le (f64_neg f64_one) y" "f64_le y f64_one"
    using assms(1) unfolding erf_range_def by blast
  have fy: "f64_is_finite y" using y(2,3) by (cases y) (auto simp: f64_le_def f64_one_def inf_mag_def min_def split: if_splits)
  have u: "- uval f64_one \<le> uval y" "uval y \<le> uval f64_one"
    using y(2,3) f64_le_uval [OF _ fy, of "f64_neg f64_one"] f64_le_uval [OF fy uval_one(2)] uval_one(2)
    by simp_all
  define s where "s = f64_add f64_one y"
  have r: "rounded (real_of_int (uval f64_one + uval y)) s"
    unfolding s_def using uval_one(2) fy by (rule f64_add_rounded)
  have two: "uval f64_two = 2 * uval f64_one" unfolding int_one_units uval_consts ..
  have s: "f64_le f64_zero s" "f64_le s f64_two"
    using u two by (intro le_rounded [OF finite_zero _ r] rounded_le [OF uval_consts(2) _ r], simp)+
  then have fs: "f64_is_finite s" using uval_consts(2) finite_between by blast
  have us: "0 \<le> uval s" "uval s \<le> 2 * uval f64_one"
    using s two fs uval_consts(2) by (simp_all add: f64_le_zero_uval f64_le_uval)
  have m: "rounded (real_of_int (uval f64_half) * uval s / one_units) (standard_normal_cdf erf x)"
    unfolding standard_normal_cdf_def y(1) s_def [symmetric]
    using uval_consts(4) fs by (rule f64_mul_rounded)
  have h: "real_of_int (uval f64_half) = one_units / 2"
    unfolding uval_consts one_units_def by simp
  show "f64_le f64_zero (standard_normal_cdf erf x)"
    using us(1) by (intro le_rounded [OF finite_zero _ m]) (simp add: h one_units_def)
  have "real_of_int (uval s) \<le> 2 * real_of_int (uval f64_one)"
    using us(2) by (metis of_int_le_iff of_int_mult of_int_numeral)
  then show "f64_le (standard_normal_cdf erf x) f64_one"
    unfolding uval_one(1) using uval_one
    by (intro rounded_le [OF uval_one(2) _ m]) (simp add: h one_units_def)
qed

lemma div_not_nan:
  assumes "f64_is_finite a" "f64_is_finite b" "f64_lt f64_zero b" shows "\<not> f64_is_nan (f64_div a b)"
  using f64_div_rounded [OF assms(1,2)] assms by (auto simp: f64_lt_zero_uval intro: rounded_not_nan)

lemma buy_fraction_unit:
  assumes "erf_range erf" "buy_fraction erf d s = Some p"
  shows "f64_le f64_zero p" "f64_le p f64_one"
  using assms standard_normal_cdf_unit [OF assms(1) div_not_nan]
  by (auto simp: buy_fraction_def split: if_splits)

lemma classify_Some:
  "classify erf d s v = Some (b, c) \<longleftrightarrow>
    (\<exists>p. buy_fraction erf d s = Some p \<and> b = f64_mul v p \<and> c = f64_sub v b)"
  by (auto simp: classify_def Let_def split: option.splits)

text \<open>C27: for a finite volume \<open>\<ge> 0\<close>, \<open>classify\<close> splits it into a buy and a sell side that both lie
  between zero and the volume, and their absolute difference does too, with every operation
  rounded.\<close>

theorem classify_bounds:
  assumes "erf_range erf" "classify erf d s v = Some (b, c)" "f64_is_finite v" "f64_le f64_zero v"
  shows "f64_le f64_zero b \<and> f64_le b v \<and> f64_le f64_zero c \<and> f64_le c v \<and>
    f64_le f64_zero (f64_abs (f64_sub b c)) \<and> f64_le (f64_abs (f64_sub b c)) v"
proof -
  obtain p where p: "buy_fraction erf d s = Some p" "b = f64_mul v p" "c = f64_sub v b"
    using assms(2) classify_Some by blast
  note u = buy_fraction_unit [OF assms(1) p(1)]
  show ?thesis using f64c.split_bounds [OF assms(3,4) u] f64c.imbalance_bounds [OF assms(3,4) u]
    unfolding p(2,3) by blast
qed

text \<open>A concrete \<open>erf\<close>, its sign: the crudest function with the range the code relies on.\<close>

definition erf_sign :: "f64 \<Rightarrow> f64" where
  "erf_sign x = (if f64_lt x f64_zero then f64_neg f64_one
     else if f64_lt f64_zero x then f64_one else f64_zero)"

lemma erf_sign_range: "erf_range erf_sign"
  by (simp add: erf_range_def erf_sign_def f64_one_def f64_le_def)

theorem classify_bounds_witness:
  "classify erf_sign f64_one f64_two (f64_of_nat 7) = Some (f64_of_nat 7, f64_zero) \<and>
    f64_le (f64_abs (f64_sub (f64_of_nat 7) f64_zero)) (f64_of_nat 7)"
proof -
  have c: "classify erf_sign f64_one f64_two (f64_of_nat 7) = Some (f64_of_nat 7, f64_zero)"
    by (simp add: classify_def buy_fraction_def standard_normal_cdf_def erf_sign_def
        frac_1_sqrt_2_def f64_eval)
  have "f64_is_finite (f64_of_nat 7)" "f64_le f64_zero (f64_of_nat 7)" by (simp_all add: f64_eval)
  from classify_bounds [OF erf_sign_range c this] c show ?thesis by blast
qed

text \<open>\<open>classify\<close> refuses exactly the buckets it cannot standardize: a sigma that is not finite
  and positive, or a price change that is not finite.\<close>

theorem classify_None_iff:
  "classify erf d s v = None \<longleftrightarrow> \<not> (f64_is_finite s \<and> 0 < f64_val s \<and> f64_is_finite d)"
  using f64_lt_zero_uval [of s]
  by (auto simp: classify_def buy_fraction_def f64_val_def Let_def zero_less_divide_iff)

lemma bucket_imbalance_bounds:
  assumes "erf_range erf" "bucket_imbalance erf c s = Some i"
    "f64_is_finite (cb_volume c)" "f64_le f64_zero (cb_volume c)"
  shows "f64_le f64_zero i" "f64_le i (cb_volume c)"
proof -
  obtain p where p: "buy_fraction erf (cb_delta_p c) s = Some p"
    "i = f64_abs (f64_sub (f64_mul (cb_volume c) p) (f64_sub (cb_volume c) (f64_mul (cb_volume c) p)))"
    using assms(2) by (auto simp: bucket_imbalance_def classify_def Let_def split: option.splits)
  show "f64_le f64_zero i" "f64_le i (cb_volume c)"
    using f64c.imbalance_bounds [OF assms(3,4) buy_fraction_unit [OF assms(1) p(1)]] unfolding p(2) by blast+
qed

end
