(* ===== verification/Rolling.thy ===== *)
theory Rolling
  imports Bvc "HOL-Library.Multiset"
begin

text \<open>
  The fixed-window statistics of \<open>crates/vpin-engine/src/vpin.rs\<close> (\<open>RollingSigma\<close>, \<open>EmpiricalCdf\<close>) and
  \<open>intensity.rs\<close> (\<open>IntensityAdjustedCdf\<close>). All three keep the last \<open>window\<close> samples and answer
  \<open>None\<close> until the window is full; the locale \<open>rolling_window\<close> states that contract once.
\<close>

subsection \<open>The contract of a rolling window\<close>

locale rolling_window =
  fixes push :: "'s \<Rightarrow> 'a \<Rightarrow> 's \<times> 'r option"
    and size_of :: "'s \<Rightarrow> nat"
    and samples :: "'s \<Rightarrow> 'a list"
  assumes samples_push: "samples (fst (push s x)) = window_push (size_of s) (samples s) x"
    and size_push: "size_of (fst (push s x)) = size_of s"
    and answer_iff: "snd (push s x) = None \<longleftrightarrow> length (samples (fst (push s x))) < size_of s"
begin

lemma size_feed [simp]: "size_of (feed push s xs) = size_of s"
  by (induction xs arbitrary: s) (simp_all add: size_push)

text \<open>The window holds the last samples, as many as fit.\<close>

lemma samples_feed:
  assumes "samples s = []" "0 < size_of s"
  shows "samples (feed push s xs) = last_n (size_of s) xs"
proof (induction xs rule: rev_induct)
  case (snoc x xs)
  then show ?case using assms(2) by (simp add: feed_snoc samples_push window_push_last_n)
qed (simp add: assms last_n_def)

text \<open>Warm-up: the answer to the \<open>n\<close>-th sample exists exactly from \<open>n = window\<close> on.\<close>

lemma answers_after_warmup:
  assumes "samples s = []" "0 < size_of s"
  shows "snd (push (feed push s xs) x) = None \<longleftrightarrow> Suc (length xs) < size_of s"
  using samples_feed [OF assms, of "xs @ [x]"] answer_iff [of "feed push s xs" x]
  by (auto simp: feed_snoc)

end

subsection \<open>\<open>RollingSigma\<close>\<close>

record rolling_sigma =
  rs_window :: usize
  rs_buf :: "f64 list"
  rs_current :: "f64 option"

definition RollingSigma_new :: "usize \<Rightarrow> vpin_error + rolling_sigma" where
  "RollingSigma_new window = (if window < 2 then Inl (InvalidWindow window 2)
     else Inr \<lparr>rs_window = window, rs_buf = [], rs_current = None\<rparr>)"

definition RollingSigma_current :: "rolling_sigma \<Rightarrow> f64 option" where
  "RollingSigma_current s = rs_current s"

definition sample_mean :: "f64 list \<Rightarrow> nat \<Rightarrow> f64" where
  "sample_mean buf n = f64_div (f64_sum buf) (f64_of_nat n)"

definition sample_std :: "f64 list \<Rightarrow> nat \<Rightarrow> f64 \<Rightarrow> f64" where
  "sample_std buf n mean = f64_sqrt (f64_div (f64_sum (map (\<lambda>x. f64_powi2 (f64_sub x mean)) buf))
     (f64_of_nat (n - 1)))"

definition RollingSigma_push :: "rolling_sigma \<Rightarrow> f64 \<Rightarrow> rolling_sigma \<times> f64 option" where
  "RollingSigma_push s delta_p =
     (let buf = window_push (rs_window s) (rs_buf s) delta_p;
          current = (if length buf < rs_window s then None
                     else Some (sample_std buf (rs_window s) (sample_mean buf (rs_window s))))
      in (s\<lparr>rs_buf := buf, rs_current := current\<rparr>, current))"

interpretation sigma_w: rolling_window RollingSigma_push rs_window rs_buf
  by unfold_locales (auto simp: RollingSigma_push_def Let_def)

subsection \<open>\<open>EmpiricalCdf\<close>\<close>

record empirical_cdf =
  ec_window :: usize
  ec_buf :: "f64 list"

definition EmpiricalCdf_new :: "usize \<Rightarrow> vpin_error + empirical_cdf" where
  "EmpiricalCdf_new window = (if window < 2 then Inl (InvalidWindow window 2)
     else Inr \<lparr>ec_window = window, ec_buf = []\<rparr>)"

definition le_count :: "f64 list \<Rightarrow> f64 \<Rightarrow> nat" where
  "le_count buf value = length (filter (\<lambda>v. f64_le v value) buf)"

definition EmpiricalCdf_push :: "empirical_cdf \<Rightarrow> f64 \<Rightarrow> empirical_cdf \<times> f64 option" where
  "EmpiricalCdf_push c value =
     (let buf = window_push (ec_window c) (ec_buf c) value in
      (c\<lparr>ec_buf := buf\<rparr>,
       if length buf < ec_window c then None
       else Some (count_ratio (le_count buf value) (ec_window c))))"

interpretation cdf_w: rolling_window EmpiricalCdf_push ec_window ec_buf
  by unfold_locales (auto simp: EmpiricalCdf_push_def Let_def)

subsection \<open>\<open>IntensityAdjustedCdf\<close>\<close>

record intensity_cdf =
  ic_window :: usize
  ic_history :: "(f64 \<times> u32) list"

definition IntensityAdjustedCdf_new :: "usize \<Rightarrow> vpin_error + intensity_cdf" where
  "IntensityAdjustedCdf_new window = (if window < 4 then Inl (InvalidWindow window 4)
     else Inr \<lparr>ic_window = window, ic_history = []\<rparr>)"

text \<open>\<open>v[v.len() / 2]\<close> of the sorted values; indexing an empty vector panics, shown as \<open>None\<close>.\<close>

definition median_u32 :: "u32 list \<Rightarrow> u32 option" where
  "median_u32 values = (if values = [] then None else Some (sort values ! (length values div 2)))"

definition cohort :: "(f64 \<times> u32) list \<Rightarrow> u32 \<Rightarrow> bool \<Rightarrow> f64 list" where
  "cohort history median busy = map fst (filter (\<lambda>(v, t). (median \<le> t) = busy) history)"

definition IntensityAdjustedCdf_push ::
  "intensity_cdf \<Rightarrow> f64 \<Rightarrow> u32 \<Rightarrow> intensity_cdf \<times> f64 option" where
  "IntensityAdjustedCdf_push c vpin trades_in_bucket =
     (let history = window_push (ic_window c) (ic_history c) (vpin, trades_in_bucket) in
      (c\<lparr>ic_history := history\<rparr>,
       if length history < ic_window c then None
       else case median_u32 (map snd history) of
         None \<Rightarrow> None
       | Some median_intensity \<Rightarrow>
           (let this_cohort_is_busy = (median_intensity \<le> trades_in_bucket);
                co = cohort history median_intensity this_cohort_is_busy
            in Some (count_ratio (le_count co vpin) (length co)))))"

definition intensity_push2 :: "intensity_cdf \<Rightarrow> f64 \<times> u32 \<Rightarrow> intensity_cdf \<times> f64 option" where
  "intensity_push2 c x = IntensityAdjustedCdf_push c (fst x) (snd x)"

lemma median_u32_None [simp]: "median_u32 xs = None \<longleftrightarrow> xs = []"
  by (simp add: median_u32_def)

interpretation intensity_w: rolling_window intensity_push2 ic_window ic_history
  by unfold_locales (simp_all add: intensity_push2_def IntensityAdjustedCdf_push_def Let_def
      split: option.splits)

subsection \<open>Properties of \<open>RollingSigma\<close>\<close>

lemma RollingSigma_new_Inr: "RollingSigma_new w = Inr s \<longleftrightarrow>
    2 \<le> w \<and> s = \<lparr>rs_window = w, rs_buf = [], rs_current = None\<rparr>"
  by (auto simp: RollingSigma_new_def)

lemma RollingSigma_push_parts:
  "snd (RollingSigma_push s x) = (let buf = window_push (rs_window s) (rs_buf s) x in
     if length buf < rs_window s then None
     else Some (sample_std buf (rs_window s) (sample_mean buf (rs_window s))))"
  "RollingSigma_current (fst (RollingSigma_push s x)) = snd (RollingSigma_push s x)"
  by (simp_all add: RollingSigma_push_def RollingSigma_current_def Let_def)

lemma RollingSigma_answer:
  assumes "RollingSigma_new w = Inr s"
  shows "snd (RollingSigma_push (feed RollingSigma_push s xs) x) =
      (if Suc (length xs) < w then None
       else Some (sample_std (last_n w (xs @ [x])) w (sample_mean (last_n w (xs @ [x])) w)))"
proof -
  have w: "0 < w" and s: "rs_buf s = []" "rs_window s = w" using assms by (auto simp: RollingSigma_new_Inr)
  have b: "rs_buf (feed RollingSigma_push s xs) = last_n w xs"
    using sigma_w.samples_feed [of s xs] s w by simp
  show ?thesis
    using w by (simp add: RollingSigma_push_parts b s window_push_last_n Let_def)
qed

text \<open>after any samples the answer to the next one is \<open>None\<close> exactly while fewer than \<open>window\<close>
  samples have been pushed; then it is the sample standard deviation of the last \<open>window\<close> samples,
  the new one included, and \<open>current\<close> keeps the same answer.\<close>

theorem rolling_sigma_spec:
  assumes "RollingSigma_new w = Inr s"
  shows "snd (RollingSigma_push (feed RollingSigma_push s xs) x) =
      (if Suc (length xs) < w then None
       else Some (sample_std (last_n w (xs @ [x])) w (sample_mean (last_n w (xs @ [x])) w))) \<and>
    RollingSigma_current (feed RollingSigma_push s (xs @ [x])) =
      snd (RollingSigma_push (feed RollingSigma_push s xs) x)"
  using RollingSigma_answer [OF assms, of xs x] by (simp add: feed_snoc RollingSigma_push_parts(2))

theorem rolling_sigma_spec_witness:
  "\<exists>s. RollingSigma_new 2 = Inr s \<and>
    snd (RollingSigma_push (feed RollingSigma_push s [f64_of_nat 9, f64_zero]) f64_two) =
      Some (f64_sqrt f64_two)"
proof -
  obtain s where s: "RollingSigma_new 2 = Inr s" by (simp add: RollingSigma_new_def)
  have m: "sample_mean [f64_zero, f64_two] 2 = f64_one"
    by (simp add: sample_mean_def f64_eval)
  have "snd (RollingSigma_push (feed RollingSigma_push s [f64_of_nat 9, f64_zero]) f64_two) =
      Some (sample_std [f64_zero, f64_two] 2 f64_one)"
    using rolling_sigma_spec [OF s, of "[f64_of_nat 9, f64_zero]" f64_two, THEN conjunct1]
    by (simp add: last_n_def m)
  also have "sample_std [f64_zero, f64_two] 2 f64_one = f64_sqrt f64_two"
    unfolding sample_std_def by (rule arg_cong [of _ _ f64_sqrt]) (simp add: f64_eval)
  finally show ?thesis using s by blast
qed

text \<open>A flat market: the standard deviation of a window of zero price changes is zero, for which
  \<open>classify\<close> has no answer.\<close>

lemma f64_sum_zeros: "0 < n \<Longrightarrow> f64_sum (replicate n f64_zero) = f64_zero"
proof -
  have "foldl f64_add f64_zero (replicate n f64_zero) = f64_zero" for n
    by (induction n) simp_all
  then show "0 < n \<Longrightarrow> f64_sum (replicate n f64_zero) = f64_zero"
    by (cases n) (simp_all add: f64_sum_def)
qed

lemma f64_zero_div_nat: assumes "0 < n" "n < 2 ^ 64" shows "f64_div f64_zero (f64_of_nat n) = f64_zero"
proof -
  obtain m where m: "f64_of_nat n = Num False m" by (simp add: f64_of_nat_def)
  have "m < inf_mag" "0 < m"
    using f64_of_nat_finite [OF assms(2)] f64_of_nat_pos [OF assms(1)] by (auto simp: m f64_lt_def)
  then show ?thesis by (simp add: m sig_of_def rnd_mag_def rnd_index_def rnd_at_def rne_def
        round_quotient_def fit_exp_def exp_of_def inf_mag_def)
qed

lemma flat_std_zero:
  assumes "2 \<le> w" "w < 2 ^ 64"
  shows "sample_std (replicate w f64_zero) w (sample_mean (replicate w f64_zero) w) = f64_zero"
proof -
  have m: "sample_mean (replicate w f64_zero) w = f64_zero"
    using assms by (simp add: sample_mean_def f64_sum_zeros f64_zero_div_nat)
  have "f64_powi2 (f64_sub f64_zero f64_zero) = f64_zero"
    by (simp add: f64_eval)
  then show ?thesis using assms
    by (simp add: sample_std_def m map_replicate f64_sum_zeros f64_zero_div_nat)
qed

subsection \<open>Properties of \<open>EmpiricalCdf\<close>\<close>

lemma EmpiricalCdf_new_Inr:
  "EmpiricalCdf_new w = Inr c \<longleftrightarrow> 2 \<le> w \<and> c = \<lparr>ec_window = w, ec_buf = []\<rparr>"
  by (auto simp: EmpiricalCdf_new_def)

lemma le_count_bounds:
  "le_count buf x \<le> length buf" "\<not> f64_is_nan x \<Longrightarrow> x \<in> set buf \<Longrightarrow> 0 < le_count buf x"
  by (auto simp: le_count_def filter_empty_conv intro!: bexI [of _ x])

lemma le_count_mono:
  "f64_le x y \<Longrightarrow> le_count buf x \<le> le_count buf y"
  unfolding le_count_def by (induction buf) (auto intro: f64_le_trans)

lemma cdf_buf_feed:
  assumes "EmpiricalCdf_new w = Inr c"
  shows "ec_buf (feed EmpiricalCdf_push c xs) = last_n w xs" "ec_window (feed EmpiricalCdf_push c xs) = w"
  using cdf_w.samples_feed [of c xs] assms by (auto simp: EmpiricalCdf_new_Inr)

lemma EmpiricalCdf_answer:
  assumes "EmpiricalCdf_new w = Inr c"
  shows "snd (EmpiricalCdf_push (feed EmpiricalCdf_push c xs) x) = (if Suc (length xs) < w then None
     else Some (count_ratio (le_count (last_n w (xs @ [x])) x) w))"
proof -
  have w: "0 < w" "ec_window c = w" using assms by (auto simp: EmpiricalCdf_new_Inr)
  then show ?thesis
    by (auto simp: EmpiricalCdf_push_def Let_def cdf_buf_feed [OF assms] window_push_last_n min_def)
qed

text \<open>the percentile rank. After any samples, the rank of a value \<open>x\<close> that is not a NaN is \<open>None\<close>
  exactly during warm-up; otherwise it is the share of the last \<open>window\<close> samples (\<open>x\<close> included) that
  are \<open>\<le> x\<close>, and it lies in \<open>[1 / window, 1]\<close>.\<close>

theorem empirical_cdf_rank:
  assumes "EmpiricalCdf_new w = Inr c" "w < 2 ^ 64" "\<not> f64_is_nan x"
  shows "case snd (EmpiricalCdf_push (feed EmpiricalCdf_push c xs) x) of
      None \<Rightarrow> Suc (length xs) < w
    | Some r \<Rightarrow> w \<le> Suc (length xs) \<and> r = count_ratio (le_count (last_n w (xs @ [x])) x) w \<and>
        f64_le (count_ratio 1 w) r \<and> f64_le r f64_one"
proof -
  let ?b = "last_n w (xs @ [x])"
  have w: "2 \<le> w" using assms(1) by (simp add: EmpiricalCdf_new_Inr)
  have "x \<in> set ?b" using w by (auto simp: last_n_def Suc_diff_le split: nat_diff_split)
  then have c: "0 < le_count ?b x" "le_count ?b x \<le> w"
    using le_count_bounds(1) [of ?b x] le_count_bounds(2) [OF assms(3)] by auto
  have "f64_le (count_ratio 1 w) (count_ratio (le_count ?b x) w)" "f64_le (count_ratio (le_count ?b x) w) f64_one"
    using c w assms(2) count_ratio_mono [of 1 "le_count ?b x" w] count_ratio_unit(2) [of "le_count ?b x" w]
    by simp_all
  then show ?thesis unfolding EmpiricalCdf_answer [OF assms(1)] by simp
qed

theorem empirical_cdf_rank_witness:
  "\<exists>c r. EmpiricalCdf_new 2 = Inr c \<and>
    snd (EmpiricalCdf_push (feed EmpiricalCdf_push c [f64_zero]) f64_one) = Some r \<and>
    f64_le (count_ratio 1 2) r \<and> f64_le r f64_one"
proof -
  obtain c where c: "EmpiricalCdf_new 2 = Inr c" by (simp add: EmpiricalCdf_new_def)
  have "\<not> f64_is_nan f64_one" by (rule finite_not_nan [OF uval_one(2)])
  from empirical_cdf_rank [OF c _ this, of "[f64_zero]"] EmpiricalCdf_answer [OF c, of "[f64_zero]" f64_one] c
  show ?thesis by (auto simp: f64_one_def split: option.splits)
qed

text \<open>ranks are monotone: of two values pushed in the same state the larger never gets the
  smaller rank.\<close>

theorem empirical_cdf_mono:
  assumes "EmpiricalCdf_new w = Inr c" "w < 2 ^ 64" "f64_le x y"
    "snd (EmpiricalCdf_push (feed EmpiricalCdf_push c xs) x) = Some r"
    "snd (EmpiricalCdf_push (feed EmpiricalCdf_push c xs) y) = Some q"
  shows "f64_le r q"
proof -
  have w: "2 \<le> w" "w \<le> Suc (length xs)" using assms(4) assms(1) [unfolded EmpiricalCdf_new_Inr]
    unfolding EmpiricalCdf_answer [OF assms(1)] by (auto split: if_splits)
  define t where "t = last_n (w - 1) xs"
  have t: "last_n w (xs @ [z]) = t @ [z]" for z
    using w by (simp add: t_def last_n_def Suc_diff_le)
  have "le_count (t @ [x]) x \<le> le_count (t @ [y]) y"
    using le_count_mono [OF assms(3), of t] assms(3) by (auto simp: le_count_def dest: f64_le_nan)
  moreover have "le_count (t @ [y]) y \<le> w"
    using le_count_bounds(1) [of "t @ [y]" y] w by (simp add: t_def)
  ultimately have "f64_le (count_ratio (le_count (t @ [x]) x) w) (count_ratio (le_count (t @ [y]) y) w)"
    using w(1) assms(2) by (intro count_ratio_mono) simp_all
  moreover have "r = count_ratio (le_count (t @ [x]) x) w" "q = count_ratio (le_count (t @ [y]) y) w"
    using assms(4,5) w by (auto simp: EmpiricalCdf_answer [OF assms(1)] t)
  ultimately show ?thesis by simp
qed

subsection \<open>Properties of \<open>IntensityAdjustedCdf\<close>\<close>

lemma IntensityAdjustedCdf_new_Inr:
  "IntensityAdjustedCdf_new w = Inr c \<longleftrightarrow> 4 \<le> w \<and> c = \<lparr>ic_window = w, ic_history = []\<rparr>"
  by (auto simp: IntensityAdjustedCdf_new_def)

lemma intensity_history_feed:
  assumes "IntensityAdjustedCdf_new w = Inr c"
  shows "ic_history (feed intensity_push2 c xs) = last_n w xs"
  using intensity_w.samples_feed [of c xs] assms by (auto simp: IntensityAdjustedCdf_new_Inr)

lemma intensity_answer:
  assumes "IntensityAdjustedCdf_new w = Inr c"
  shows "snd (intensity_push2 (feed intensity_push2 c xs) (x, t)) =
     (let history = last_n w (xs @ [(x, t)]);
          median = the (median_u32 (map snd history));
          co = cohort history median (median \<le> t)
      in if Suc (length xs) < w then None else Some (count_ratio (le_count co x) (length co)))"
proof -
  have w: "0 < w" "ic_window c = w" using assms by (auto simp: IntensityAdjustedCdf_new_Inr)
  have "last_n w (xs @ [(x, t)]) \<noteq> []" using w by (simp add: last_n_def)
  then obtain m where m: "median_u32 (map snd (last_n w (xs @ [(x, t)]))) = Some m"
    by (metis median_u32_None map_is_Nil_conv option.exhaust)
  show ?thesis using w(1)
    by (simp add: intensity_push2_def IntensityAdjustedCdf_push_def Let_def w(2) m
        intensity_history_feed [OF assms] window_push_last_n)
qed

text \<open>The median is the upper one: it is a value of the list, at least half of the values are
  \<open>\<ge>\<close> it and at most half are below it.\<close>

lemma median_u32_mem: "median_u32 xs = Some m \<Longrightarrow> m \<in> set xs"
  unfolding median_u32_def by (auto split: if_splits)
    (metis div_less_dividend length_greater_0_conv length_sort less_2_cases_iff nth_mem one_less_numeral_iff
      set_sort semiring_norm(76))

lemma sorted_nth_below:
  fixes xs :: "'a::linorder list"
  assumes "sorted xs" "k < length xs"
  shows "length (filter (\<lambda>x. x < xs ! k) xs) \<le> k"
proof -
  have "filter (\<lambda>x. x < xs ! k) (drop k xs) = []"
    using assms by (auto simp: filter_empty_conv in_set_conv_nth not_less sorted_nth_mono)
  then have "filter (\<lambda>x. x < xs ! k) xs = filter (\<lambda>x. x < xs ! k) (take k xs)"
    by (metis append.right_neutral append_take_drop_id filter_append)
  then show ?thesis using assms(2) length_filter_le [of "\<lambda>x. x < xs ! k" "take k xs"] by simp
qed

lemma median_u32_below:
  assumes "median_u32 xs = Some m"
  shows "2 * length (filter (\<lambda>x. x < m) xs) \<le> length xs"
proof -
  have ne: "xs \<noteq> []" and m: "m = sort xs ! (length xs div 2)"
    using assms by (auto simp: median_u32_def split: if_splits)
  have "length (filter (\<lambda>x. x < m) xs) = length (filter (\<lambda>x. x < m) (sort xs))"
    by (simp add: filter_sort)
  also have "\<dots> \<le> length xs div 2"
    using sorted_nth_below [of "sort xs" "length xs div 2"] ne unfolding m by simp
  finally show ?thesis by simp
qed

text \<open>the intensity cohorts: with the window full, the split puts the pushed sample itself into
  the cohort it is ranked in (so the code never divides by zero), the busy cohort has at least half
  of the window, and the rank lies in \<open>[1 / size of the cohort, 1]\<close>.\<close>

theorem intensity_rank:
  assumes "IntensityAdjustedCdf_new w = Inr c" "w < 2 ^ 64" "\<not> f64_is_nan x" "w \<le> Suc (length xs)"
  shows "\<exists>m co. median_u32 (map snd (last_n w (xs @ [(x, t)]))) = Some m \<and>
    co = cohort (last_n w (xs @ [(x, t)])) m (m \<le> t) \<and> x \<in> set co \<and> (m \<le> t \<longrightarrow> w \<le> 2 * length co) \<and>
    snd (intensity_push2 (feed intensity_push2 c xs) (x, t)) = Some (count_ratio (le_count co x) (length co)) \<and>
    f64_le (count_ratio 1 (length co)) (count_ratio (le_count co x) (length co)) \<and>
    f64_le (count_ratio (le_count co x) (length co)) f64_one"
proof -
  let ?h = "last_n w (xs @ [(x, t)])"
  have w: "4 \<le> w" using assms(1) by (simp add: IntensityAdjustedCdf_new_Inr)
  have mem: "(x, t) \<in> set ?h" using w by (auto simp: last_n_def Suc_diff_le split: nat_diff_split)
  then have "?h \<noteq> []" by auto
  then obtain m where m: "median_u32 (map snd ?h) = Some m"
    by (metis median_u32_None map_is_Nil_conv option.exhaust)
  define co where "co = cohort ?h m (m \<le> t)"
  have x: "x \<in> set co" using mem by (force simp: co_def cohort_def)
  have len: "length co \<le> w" using assms(4)
    by (auto simp: co_def cohort_def intro: order_trans [OF length_filter_le])
  have c: "0 < le_count co x" "le_count co x \<le> length co"
    using le_count_bounds(1) [of co x] le_count_bounds(2) [OF assms(3) x] by auto
  have half: "w \<le> 2 * length co" if "m \<le> t"
  proof -
    have "length (filter (\<lambda>y. y < m) (map snd ?h)) + length co = length ?h"
      using sum_length_filter_compl [of "\<lambda>y. y < m" "map snd ?h"] that
      by (simp add: co_def cohort_def not_less filter_map comp_def case_prod_unfold)
    then show ?thesis using median_u32_below [OF m] assms(4) by simp
  qed
  have r: "f64_le (count_ratio 1 (length co)) (count_ratio (le_count co x) (length co))"
    "f64_le (count_ratio (le_count co x) (length co)) f64_one"
    using c len assms(2) length_pos_if_in_set [OF x]
    by (intro count_ratio_mono count_ratio_unit(2); linarith)+
  have "snd (intensity_push2 (feed intensity_push2 c xs) (x, t)) = Some (count_ratio (le_count co x) (length co))"
    using assms(4) by (simp add: intensity_answer [OF assms(1)] Let_def m co_def [symmetric])
  with m x half r co_def show ?thesis by blast
qed

theorem intensity_rank_witness:
  "\<exists>c r. IntensityAdjustedCdf_new 4 = Inr c \<and>
    snd (intensity_push2 (feed intensity_push2 c (replicate 3 (f64_zero, 7))) (f64_one, 9)) = Some r \<and>
    f64_le r f64_one"
proof -
  obtain c where c: "IntensityAdjustedCdf_new 4 = Inr c" by (simp add: IntensityAdjustedCdf_new_def)
  have "\<not> f64_is_nan f64_one" by (rule finite_not_nan [OF uval_one(2)])
  from intensity_rank [OF c _ this, of "replicate 3 (f64_zero, 7)" 9] c show ?thesis by auto
qed

text \<open>when every bucket has the same number of trades the split has one cohort, and the adjusted
  rank is the plain percentile rank of \<open>EmpiricalCdf\<close>, warm-up included.\<close>

theorem intensity_uniform:
  assumes "IntensityAdjustedCdf_new w = Inr i" "EmpiricalCdf_new w = Inr c"
  shows "snd (intensity_push2 (feed intensity_push2 i (map (\<lambda>v. (v, t)) xs)) (x, t)) =
    snd (EmpiricalCdf_push (feed EmpiricalCdf_push c xs) x)"
proof -
  let ?xs = "map (\<lambda>v. (v, t)) xs"
  have w: "0 < w" using assms(2) by (auto simp: EmpiricalCdf_new_Inr)
  have h: "last_n w (?xs @ [(x, t)]) = map (\<lambda>v. (v, t)) (last_n w (xs @ [x]))"
    using drop_map [of "length (xs @ [x]) - w" "\<lambda>v. (v, t)" "xs @ [x]"]
    by (simp only: last_n_def map_append list.map length_append length_map list.size)
  have "map snd (last_n w (?xs @ [(x, t)])) \<noteq> []" using w by (simp add: last_n_def)
  then obtain m where m': "median_u32 (map snd (last_n w (?xs @ [(x, t)]))) = Some m"
    by (metis median_u32_None option.exhaust)
  have "m = t" using median_u32_mem [OF m'] unfolding h by auto
  with m' have m: "the (median_u32 (map snd (last_n w (?xs @ [(x, t)])))) = t" by simp
  have co: "cohort (last_n w (?xs @ [(x, t)])) t True = last_n w (xs @ [x])"
    unfolding h by (simp add: cohort_def filter_map comp_def)
  have "length (last_n w (xs @ [x])) = w" if "w \<le> Suc (length xs)" using that by simp
  then show ?thesis
    by (auto simp: intensity_answer [OF assms(1)] EmpiricalCdf_answer [OF assms(2)] Let_def m co)
qed

theorem intensity_uniform_witness:
  "\<exists>i c. IntensityAdjustedCdf_new 4 = Inr i \<and> EmpiricalCdf_new 4 = Inr c \<and>
    snd (intensity_push2 (feed intensity_push2 i (map (\<lambda>v. (v, 7)) (replicate 3 f64_zero))) (f64_one, 7)) =
      Some (count_ratio 4 4)"
proof -
  obtain i c where n: "IntensityAdjustedCdf_new 4 = Inr i" "EmpiricalCdf_new 4 = Inr c"
    by (simp add: IntensityAdjustedCdf_new_def EmpiricalCdf_new_def)
  have "le_count (last_n 4 (replicate 3 f64_zero @ [f64_one])) f64_one = 4"
    by (simp add: le_count_def last_n_def f64_le_def f64_one_def numeral_3_eq_3)
  then show ?thesis using intensity_uniform [OF n, of 7 "replicate 3 f64_zero" f64_one]
      EmpiricalCdf_answer [OF n(2), of "replicate 3 f64_zero" f64_one] n by simp
qed

end
