(* ===== verification/F64_Exact.thy ===== *)
theory F64_Exact
  imports F64_Laws
begin

text \<open>
  Where \<open>f64\<close> arithmetic is exact: integers up to \<open>2 ^ 53\<close> times a power of two are represented,
  \<open>floor\<close>, \<open>ceil\<close> and the cast to \<open>usize\<close> read the integer part, and a sum of few terms bounded by a
  power of two stays finite.
\<close>

subsection \<open>Representable numbers\<close>

lemma munits_scaled_exists:
  "k < 2 ^ 53 \<Longrightarrow> \<exists>m. munits m = k * 2 ^ e"
proof (induction e arbitrary: k)
  case 0
  then show ?case using munits_scaled [of k 0] by (intro exI [of _ k]) simp
next
  case (Suc e)
  show ?case
  proof (cases "k < 2 ^ 52")
    case True
    then show ?thesis using Suc.IH [of "2 * k"] by (simp add: ac_simps)
  next
    case False
    then show ?thesis using munits_scaled [of k "Suc e"] Suc.prems
      by (intro exI [of _ "Suc e * 2 ^ 52 + k"]) simp
  qed
qed

lemma munits_scaled_exists_le:
  assumes "k \<le> 2 ^ 53" shows "\<exists>m. munits m = k * 2 ^ e"
proof (cases "k = 2 ^ 53")
  case True
  then show ?thesis using munits_scaled_exists [of "2 ^ 52" "Suc e"] by simp
qed (use assms munits_scaled_exists in simp)

lemma munits_inf_mag: "munits inf_mag = 2 ^ 2098"
  by (simp add: munits_def sig_of_def exp_of_def inf_mag_def)

lemma finite_scaled:
  assumes "k \<le> 2 ^ 53" "k * 2 ^ e < 2 ^ 2098"
  shows "\<exists>m < inf_mag. munits m = k * 2 ^ e"
  using munits_scaled_exists_le [OF assms(1), of e] assms(2) munits_less_iff [of _ inf_mag]
  unfolding munits_inf_mag by metis

lemma rounded_exact:
  assumes "rounded (real (munits m)) r" "0 < munits m" "m < inf_mag"
  shows "r = Num False m"
  using assms by (auto simp: rounded_def rounds_to_munits)

lemma f64_of_nat_exact:
  assumes "k \<le> 2 ^ 53"
  shows "\<exists>m < inf_mag. f64_of_nat k = Num False m \<and> munits m = k * 2 ^ 1074"
proof -
  have "k * 2 ^ 1074 \<le> 2 ^ 53 * 2 ^ 1074" using assms by (intro mult_right_mono) simp_all
  also have "\<dots> < (2::nat) ^ 2098" by simp
  finally obtain m where m: "m < inf_mag" "munits m = k * 2 ^ 1074"
    using finite_scaled [OF assms] by blast
  have r: "rounded (real (munits m)) (f64_of_nat k)"
    using f64_of_nat_rounded [of k] by (simp add: m(2) one_units_def)
  show ?thesis
  proof (cases "k = 0")
    case True
    then show ?thesis by (intro exI [of _ 0]) (simp add: f64_of_nat_def rnd_mag_def rnd_index_def)
  next
    case False
    then show ?thesis using rounded_exact [OF r] m by auto
  qed
qed

lemma uval_f64_of_nat: "k \<le> 2 ^ 53 \<Longrightarrow> uval (f64_of_nat k) = int k * 2 ^ 1074"
  using f64_of_nat_exact [of k] by auto

subsection \<open>Integer parts\<close>

lemma munits_parts: "munits m = int_part m * 2 ^ 1074 + munits m mod 2 ^ 1074"
  and has_frac_munits: "has_frac m \<longleftrightarrow> munits m mod 2 ^ 1074 \<noteq> 0"
  and int_part_munits: "int_part m = munits m div 2 ^ 1074"
proof -
  have "int_part m = munits m div 2 ^ 1074 \<and> (has_frac m \<longleftrightarrow> munits m mod 2 ^ 1074 \<noteq> 0)"
  proof (cases "1074 \<le> exp_of m")
    case True
    then have "(2::nat) ^ exp_of m = 2 ^ (exp_of m - 1074) * 2 ^ 1074"
      by (simp only: power_add [symmetric] le_add_diff_inverse2)
    then have "munits m = sig_of m * 2 ^ (exp_of m - 1074) * 2 ^ 1074"
      unfolding munits_def by (simp only: mult.assoc)
    then show ?thesis using True by (simp add: int_part_def has_frac_def)
  next
    case False
    then have p: "(2::nat) ^ 1074 = 2 ^ (1074 - exp_of m) * 2 ^ exp_of m"
      by (simp only: power_add [symmetric] le_add_diff_inverse2 nat_le_linear)
    show ?thesis using False
      unfolding munits_def int_part_def has_frac_def p by (simp add: mod_mult_mult2)
  qed
  then show "has_frac m \<longleftrightarrow> munits m mod 2 ^ 1074 \<noteq> 0" "int_part m = munits m div 2 ^ 1074" by blast+
  then show "munits m = int_part m * 2 ^ 1074 + munits m mod 2 ^ 1074" by presburger
qed

lemma int_part_mag_of_int:
  assumes "k \<le> 2 ^ 53" shows "int_part (mag_of_int k) = k" "mag_of_int k < inf_mag"
proof -
  obtain m where m: "m < inf_mag" "f64_of_nat k = Num False m" "munits m = k * 2 ^ 1074"
    using f64_of_nat_exact [OF assms] by blast
  then have "mag_of_int k = m" by (simp add: mag_of_int_def f64_of_nat_def)
  then show "int_part (mag_of_int k) = k" "mag_of_int k < inf_mag"
    using m by (simp_all add: int_part_munits)
qed

lemma has_frac_small: assumes "has_frac m" shows "int_part m < 2 ^ 53"
proof -
  have "sig_of m < 2 ^ 53" by (auto simp: sig_of_def intro: less_trans [OF add_strict_left_mono [OF mod_less_divisor]])
  then show ?thesis using assms
    by (simp add: has_frac_def int_part_def) (meson div_le_dividend le_less_trans)
qed

text \<open>\<open>x.floor() as usize\<close> and \<open>x.ceil() as usize\<close>.\<close>

lemma floor_ceil_usize:
  assumes "m < inf_mag" "int_part m < 2 ^ 53"
  shows "f64_to_usize (f64_floor (Num False m)) = int_part m"
    and "f64_to_usize (f64_ceil (Num False m)) = (if has_frac m then int_part m + 1 else int_part m)"
  using assms int_part_mag_of_int [of "int_part m"] int_part_mag_of_int [of "int_part m + 1"]
  by auto

lemma int_part_le:
  assumes "munits m \<le> n * 2 ^ 1074"
  shows "int_part m \<le> n" "has_frac m \<Longrightarrow> int_part m < n"
proof -
  show "int_part m \<le> n" using div_le_mono [OF assms, of "2 ^ 1074"] by (simp add: int_part_munits)
  assume f: "has_frac m"
  show "int_part m < n"
  proof (rule ccontr)
    assume "\<not> int_part m < n"
    then have "n * 2 ^ 1074 \<le> int_part m * 2 ^ 1074" by (intro mult_right_mono) simp_all
    then show False using munits_parts [of m] assms f has_frac_munits [of m] by linarith
  qed
qed

text \<open>A number between zero and an integer \<open>n < 2 ^ 53\<close>: its floor and its ceiling are indices
  \<open>\<le> n\<close>, the ceiling at most one above the floor, and the distance from the floor is in \<open>[0, 1]\<close>.\<close>

lemma floor_ceil_bounds:
  assumes "f64_le f64_zero x" "f64_le x (f64_of_nat n)" "n < 2 ^ 53"
  defines "lo \<equiv> f64_to_usize (f64_floor x)" and "hi \<equiv> f64_to_usize (f64_ceil x)"
  shows "lo \<le> hi" "hi \<le> lo + 1" "hi \<le> n"
    and "f64_le f64_zero (f64_sub x (f64_of_nat lo))" "f64_le (f64_sub x (f64_of_nat lo)) f64_one"
proof -
  have fn: "f64_is_finite (f64_of_nat n)" using f64_of_nat_exact [of n] assms(3) by auto
  then have fx: "f64_is_finite x" using assms(1,2) finite_between by blast
  obtain s m where x: "x = Num s m" "m < inf_mag" using fx by (cases x) auto
  have s: "m = 0" if s using that assms(1) x by (auto simp: f64_le_def)
  have "lo = f64_to_usize (f64_floor (Num False m))" "hi = f64_to_usize (f64_ceil (Num False m))"
    unfolding lo_def hi_def x using s by (cases s; simp add: has_frac_def sig_of_def exp_of_def int_part_def)+
  moreover have u: "uval x = int (munits m)" unfolding x using s by (cases s) simp_all
  have "int (munits m) \<le> int n * 2 ^ 1074"
    using f64_le_uval [OF fx fn] assms(2,3) uval_f64_of_nat [of n] u by simp
  then have mn: "munits m \<le> n * 2 ^ 1074"
    by (metis of_nat_le_iff of_nat_mult of_nat_numeral of_nat_power)
  note ip = int_part_le [OF mn]
  ultimately have lo: "lo = int_part m" and hi: "hi = (if has_frac m then int_part m + 1 else int_part m)"
    using floor_ceil_usize [OF x(2)] assms(3) by simp_all
  show "lo \<le> hi" "hi \<le> lo + 1" "hi \<le> n" using ip by (auto simp: lo hi)
  obtain f where f: "f64_is_finite (f64_of_nat lo)" "uval (f64_of_nat lo) = int (int_part m) * 2 ^ 1074"
    using f64_of_nat_exact [of lo] uval_f64_of_nat [of lo] ip(1) assms(3) unfolding lo by auto
  have d: "uval x - uval (f64_of_nat lo) = int (munits m mod 2 ^ 1074)"
    unfolding u f using munits_parts [of m] by (metis add_diff_cancel_left' of_nat_add of_nat_mult of_nat_numeral of_nat_power)
  have r: "rounded (real (munits m mod 2 ^ 1074)) (f64_sub x (f64_of_nat lo))"
    using f64_sub_rounded [OF fx f(1)] unfolding d by simp
  show "f64_le f64_zero (f64_sub x (f64_of_nat lo))" by (rule le_rounded [OF finite_zero _ r]) simp
  have "munits m mod 2 ^ 1074 \<le> 2 ^ 1074" by (rule less_imp_le) simp
  then have "real (munits m mod 2 ^ 1074) \<le> one_units" unfolding one_units_def
    by (metis of_nat_le_iff of_nat_numeral of_nat_power)
  then show "f64_le (f64_sub x (f64_of_nat lo)) f64_one"
    using uval_one by (intro rounded_le [OF uval_one(2) _ r]) simp
qed

subsection \<open>Sums that stay finite\<close>

text \<open>\<open>capped k x\<close>: \<open>x\<close> is finite and between zero and \<open>k * 2 ^ 900\<close>; the bound is far above any
  traded volume and leaves room for \<open>2 ^ 53\<close> terms below the largest \<open>f64\<close>.\<close>

definition capped :: "nat \<Rightarrow> f64 \<Rightarrow> bool" where
  "capped k x \<longleftrightarrow> f64_is_finite x \<and> f64_le f64_zero x \<and> uval x \<le> int (k * 2 ^ 1974)"

lemma capped_parts: "capped k x \<Longrightarrow> f64_is_finite x" "capped k x \<Longrightarrow> f64_le f64_zero x"
  by (simp_all add: capped_def)

lemma capped_zero [simp]: "capped k f64_zero"
  by (simp add: capped_def)

lemma capped_mono: assumes "capped j x" "j \<le> k" shows "capped k x"
proof -
  have "j * 2 ^ 1974 \<le> k * 2 ^ 1974" using assms(2) by (rule mult_right_mono) simp
  then show ?thesis using assms(1) unfolding capped_def by (meson of_nat_le_iff order_trans)
qed

lemma capped_le: assumes "capped k y" "f64_le f64_zero x" "f64_le x y" shows "capped k x"
  using assms finite_between [OF _ assms(2,3)] f64_le_uval [of x y] by (auto simp: capped_def)

lemma capped_add:
  assumes a: "capped j a" and b: "capped k b" and n: "j + k \<le> 2 ^ 53"
  shows "capped (j + k) (f64_add a b)"
proof -
  have "(j + k) * 2 ^ 1974 \<le> 2 ^ 53 * 2 ^ 1974" using n by (rule mult_right_mono) simp
  also have "\<dots> < (2::nat) ^ 2098" by simp
  finally obtain m where m: "m < inf_mag" "munits m = (j + k) * 2 ^ 1974"
    using finite_scaled [OF n] by blast
  have r: "rounded (real_of_int (uval a + uval b)) (f64_add a b)"
    using a b by (intro f64_add_rounded) (simp_all add: capped_def)
  have fm: "f64_is_finite (Num False m)" "uval (Num False m) = int ((j + k) * 2 ^ 1974)"
    using m by simp_all
  have "uval a + uval b \<le> int ((j + k) * 2 ^ 1974)"
    using a b by (simp add: capped_def distrib_right)
  then have le: "f64_le (f64_add a b) (Num False m)"
    using fm by (intro rounded_le [OF fm(1) _ r]) (simp only: of_int_le_iff)
  moreover have "f64_le f64_zero (f64_add a b)" using a b by (intro f64_add_nonneg) (simp_all add: capped_def)
  ultimately show ?thesis using fm finite_between [OF fm(1)] f64_le_uval [OF _ fm(1)]
    unfolding capped_def by metis
qed

subsection \<open>A fraction and its rounded complement\<close>

text \<open>\<open>1 - f\<close> is off by at most \<open>2 ^ (-54)\<close> for \<open>f\<close> in \<open>[0, 1]\<close>, half of what \<open>1\<close> needs to round up, so
  that adding \<open>f\<close> back never exceeds \<open>1\<close>.\<close>

lemma near_multiple:
  fixes y :: nat assumes "y \<le> 2 ^ 1074"
  shows "\<exists>q \<le> 2 ^ 53. \<bar>real y - real (q * 2 ^ 1021)\<bar> \<le> 2 ^ 1020"
proof -
  define q r where "q = (y + 2 ^ 1020) div 2 ^ 1021" and "r = (y + 2 ^ 1020) mod (2 ^ 1021)"
  have "y + 2 ^ 1020 \<le> 2 ^ 1074 + 2 ^ 1020" using assms by simp
  then have "q \<le> (2 ^ 1074 + 2 ^ 1020) div 2 ^ 1021" unfolding q_def by (rule div_le_mono)
  also have "\<dots> = 2 ^ 53" by simp
  finally have q: "q \<le> 2 ^ 53" .
  have "y + 2 ^ 1020 = q * 2 ^ 1021 + r" "r < 2 ^ 1021"
    unfolding q_def r_def by (simp_all only: div_mult_mod_eq mod_less_divisor zero_less_power zero_less_numeral)
  then have "real (y + 2 ^ 1020) = real (q * 2 ^ 1021) + real r" "real r < real (2 ^ 1021)"
    by (simp_all only: of_nat_add of_nat_less_iff)
  then have "real y + 2 ^ 1020 = real (q * 2 ^ 1021) + real r" "real r < 2 * 2 ^ 1020"
    by simp_all
  then have "\<bar>real y - real (q * 2 ^ 1021)\<bar> \<le> 2 ^ 1020" by (simp only: abs_le_iff; linarith)
  with q show ?thesis by blast
qed

lemma complement_error:
  assumes f: "f64_le f64_zero f" "f64_le f f64_one"
  shows "uval (f64_sub f64_one f) + uval f \<le> uval f64_one + 2 ^ 1020"
proof -
  have ff: "f64_is_finite f" using f uval_one(2) finite_between by blast
  have one: "uval f64_one = 2 ^ 1074" by (simp add: f64_one_def munits_def sig_of_def exp_of_def)
  have u: "0 \<le> uval f" "uval f \<le> 2 ^ 1074"
    using f ff f64_le_uval [OF ff uval_one(2)] by (simp_all add: f64_le_zero_uval one)
  define y where "y = nat (2 ^ 1074 - uval f)"
  have y: "int y = 2 ^ 1074 - uval f" "y \<le> 2 ^ 1074" using u by (simp_all add: y_def)
  obtain q where q: "q \<le> 2 ^ 53" "\<bar>real y - real (q * 2 ^ 1021)\<bar> \<le> 2 ^ 1020"
    using near_multiple [OF y(2)] by blast
  obtain j where j: "munits j = q * 2 ^ 1021" using munits_scaled_exists_le [OF q(1)] by blast
  have "rounded (real_of_int (uval f64_one - uval f)) (f64_sub f64_one f)"
    using uval_one(2) ff by (rule f64_sub_rounded)
  then have r: "rounded (real y) (f64_sub f64_one f)"
    unfolding one y(1) [symmetric] by simp
  then obtain s k where k: "f64_sub f64_one f = Num s (min inf_mag k)" "rounds_to (real y) k"
    unfolding rounded_def by auto
  have "f64_is_finite (f64_sub f64_one f)"
    using f64_sub_below [OF uval_one(2) f] uval_one(2) finite_between by blast
  then have km: "min inf_mag k = k" using k(1) by auto
  have "\<bar>real y - munits k\<bar> \<le> \<bar>real y - munits j\<bar>" using k(2) unfolding rounds_to_def by blast
  also have "\<dots> \<le> 2 ^ 1020" using q(2) unfolding j .
  finally have "real (munits k) \<le> real y + 2 ^ 1020" by linarith
  then have "real (munits k) \<le> real (y + 2 ^ 1020)" by simp
  then have "munits k \<le> y + 2 ^ 1020" by (simp only: of_nat_le_iff)
  then have "int (munits k) \<le> int y + 2 ^ 1020" by (metis of_nat_add of_nat_le_iff of_nat_numeral of_nat_power)
  moreover have "uval (f64_sub f64_one f) \<le> int (munits k)" unfolding k(1) km by (cases s) simp_all
  ultimately show ?thesis unfolding one y(1) by linarith
qed

lemma complement_sum:
  assumes f: "f64_le f64_zero f" "f64_le f f64_one"
  shows "f64_le (f64_add (f64_sub f64_one f) f) f64_one"
proof -
  have ff: "f64_is_finite f" "f64_is_finite (f64_sub f64_one f)"
    using f f64_sub_below [OF uval_one(2) f] uval_one(2) finite_between by blast+
  let ?s = "uval (f64_sub f64_one f) + uval f" and ?k1 = "1023 * 2 ^ 52"
  have r: "rounded (real_of_int ?s) (f64_add (f64_sub f64_one f) f)" using ff(2,1) by (rule f64_add_rounded)
  have k1: "munits ?k1 = 2 ^ 1074" "munits (Suc ?k1) = 2 ^ 1074 + 2 ^ 1022" "uval f64_one = 2 ^ 1074"
    unfolding munits_Suc by (simp_all add: f64_one_def munits_def sig_of_def exp_of_def)
  show ?thesis
  proof (cases "?s \<le> uval f64_one")
    case True
    then show ?thesis by (intro rounded_le [OF uval_one(2) _ r]) (simp only: of_int_le_iff)
  next
    case False
    then have s: "2 ^ 1074 < ?s" "?s \<le> 2 ^ 1074 + 2 ^ 1020" using complement_error [OF f] k1(3) by simp_all
    have "real_of_int (2 ^ 1074) < real_of_int ?s" "real_of_int ?s \<le> real_of_int (2 ^ 1074 + 2 ^ 1020)"
      using s by (simp_all only: of_int_less_iff of_int_le_iff)
    then have rs: "2 ^ 1074 < real_of_int ?s" "real_of_int ?s \<le> 2 ^ 1074 + 2 ^ 1020"
      by (simp_all only: of_int_add of_int_power of_int_numeral)
    obtain t k where k: "f64_add (f64_sub f64_one f) f = Num t (min inf_mag k)" "rounds_to (real_of_int ?s) k" "\<not> t"
      using r rs(1) unfolding rounded_def by (auto simp: abs_of_pos)
    have "k \<le> ?k1"
    proof (rule ccontr)
      assume "\<not> k \<le> ?k1"
      then have "munits (Suc ?k1) \<le> munits k" by simp
      then have "real (munits (Suc ?k1)) \<le> real (munits k)" by (simp only: of_nat_le_iff)
      then have "2 ^ 1074 + 2 ^ 1022 \<le> real (munits k)" unfolding k1 by simp
      moreover have "\<bar>real_of_int ?s - munits k\<bar> \<le> \<bar>real_of_int ?s - munits ?k1\<bar>"
        using k(2) unfolding rounds_to_def by blast
      then have "\<bar>real_of_int ?s - munits k\<bar> \<le> \<bar>real_of_int ?s - 2 ^ 1074\<bar>" unfolding k1 by simp
      ultimately show False using rs by simp
    qed
    then show ?thesis unfolding k(1) using k(3) by (simp add: f64_le_def f64_one_def inf_mag_def)
  qed
qed

end
