(* ===== verification/Bootstrap.thy ===== *)
theory Bootstrap
  imports F64_Exact Bvc
begin

text \<open>
  The bootstrap confidence interval of \<open>crates/vpin-engine/src/vpin.rs\<close>: the SplitMix64 generator,
  the resampling of (imbalance, volume) pairs, and the interpolated percentile. Indexing outside a
  vector panics in the code and is \<open>None\<close> here; the properties show that it does not happen.
\<close>

unbundle bit_operations_syntax

subsection \<open>\<open>SplitMix64\<close>\<close>

record split_mix64 =
  sm_state :: u64

definition SplitMix64_new :: "u64 \<Rightarrow> split_mix64" where
  "SplitMix64_new seed = \<lparr>sm_state = seed\<rparr>"

definition golden_gamma :: u64 where
  "golden_gamma = 0x9E3779B97F4A7C15"

definition mix64 :: "u64 \<Rightarrow> u64" where
  "mix64 z0 = (let z1 = (z0 XOR drop_bit 30 z0) * 0xBF58476D1CE4E5B9;
                   z2 = (z1 XOR drop_bit 27 z1) * 0x94D049BB133111EB
               in z2 XOR drop_bit 31 z2)"

definition next_u64 :: "split_mix64 \<Rightarrow> u64 \<times> split_mix64" where
  "next_u64 rng = (let state = sm_state rng + golden_gamma in (mix64 state, rng\<lparr>sm_state := state\<rparr>))"

text \<open>\<open>(next_u64() % n as u64) as usize\<close>; \<open>n = 0\<close> is a division by zero.\<close>

definition next_index :: "split_mix64 \<Rightarrow> usize \<Rightarrow> (usize \<times> split_mix64) option" where
  "next_index rng n = (if n = 0 then None else
     (case next_u64 rng of (z, rng') \<Rightarrow> Some (unat (z mod of_nat n), rng')))"

subsection \<open>Resampling and percentiles\<close>

record confidence_interval_config =
  ci_confidence_level :: f64
  ci_bootstrap_samples :: usize
  ci_seed :: u64

definition index_of :: "'a list \<Rightarrow> nat \<Rightarrow> 'a option" where
  "index_of xs i = (if i < length xs then Some (xs ! i) else None)"

fun resample_sums :: "(f64 \<times> f64) list \<Rightarrow> nat \<Rightarrow> split_mix64 \<Rightarrow> f64 \<times> f64 \<Rightarrow>
    ((f64 \<times> f64) \<times> split_mix64) option" where
  "resample_sums pairs 0 rng (imb_sum, vol_sum) = Some ((imb_sum, vol_sum), rng)"
| "resample_sums pairs (Suc k) rng (imb_sum, vol_sum) =
     (case next_index rng (length pairs) of None \<Rightarrow> None
      | Some (i, rng') \<Rightarrow> (case index_of pairs i of None \<Rightarrow> None
        | Some (imb, vol) \<Rightarrow>
            resample_sums pairs k rng' (f64_add imb_sum imb, f64_add vol_sum vol)))"

fun draw_samples :: "(f64 \<times> f64) list \<Rightarrow> nat \<Rightarrow> split_mix64 \<Rightarrow> (f64 list \<times> split_mix64) option" where
  "draw_samples pairs 0 rng = Some ([], rng)"
| "draw_samples pairs (Suc k) rng =
     (case resample_sums pairs (length pairs) rng (f64_zero, f64_zero) of None \<Rightarrow> None
      | Some ((imb_sum, vol_sum), rng') \<Rightarrow> (case draw_samples pairs k rng' of None \<Rightarrow> None
        | Some (samples, rng'') \<Rightarrow> Some (f64_div imb_sum vol_sum # samples, rng'')))"

definition interpolate :: "f64 \<Rightarrow> f64 \<Rightarrow> f64 \<Rightarrow> f64" where
  "interpolate a b fract = f64_add (f64_mul a (f64_sub f64_one fract)) (f64_mul b fract)"

definition percentile_at :: "f64 list \<Rightarrow> f64 \<Rightarrow> usize \<Rightarrow> usize \<Rightarrow> f64 option" where
  "percentile_at samples rank lo hi =
     (if lo = hi then index_of samples lo
      else case (index_of samples lo, index_of samples hi) of
        (Some a, Some b) \<Rightarrow> Some (interpolate a b (f64_sub rank (f64_of_nat lo)))
      | _ \<Rightarrow> None)"

definition percentile_rank :: "f64 \<Rightarrow> nat \<Rightarrow> f64" where
  "percentile_rank p n = f64_mul p (f64_of_nat (n - 1))"

definition percentile :: "f64 list \<Rightarrow> f64 \<Rightarrow> f64 option" where
  "percentile samples p =
     (if length samples = 1 then index_of samples 0
      else if samples = [] then None
      else percentile_at samples (percentile_rank p (length samples))
        (f64_to_usize (f64_floor (percentile_rank p (length samples))))
        (f64_to_usize (f64_ceil (percentile_rank p (length samples)))))"

definition bootstrap_ci :: "(f64 \<times> f64) list \<Rightarrow> confidence_interval_config \<Rightarrow> split_mix64 \<Rightarrow>
    ((f64 \<times> f64) \<times> split_mix64) option" where
  "bootstrap_ci window cfg rng =
     (case draw_samples window (ci_bootstrap_samples cfg) rng of None \<Rightarrow> None
      | Some (samples, rng') \<Rightarrow>
          (let ordered = sort_key f64_total_key samples;
               alpha = f64_sub f64_one (ci_confidence_level cfg)
           in case (percentile ordered (f64_div alpha f64_two),
                    percentile ordered (f64_sub f64_one (f64_div alpha f64_two))) of
                (Some low, Some high) \<Rightarrow> Some ((low, high), rng')
              | _ \<Rightarrow> None))"

subsection \<open>The generator is a permutation of the seeds and has full period\<close>

lemma drop_bit_fixed: fixes x :: "'a::len word" assumes "x = drop_bit k x" "0 < k" shows "x = 0"
proof (rule ccontr)
  assume "x \<noteq> 0"
  then have "0 < unat x" by (simp add: unat_gt_0)
  moreover have "unat x = unat x div 2 ^ k" using assms(1) by (metis unat_drop_bit_eq drop_bit_eq_div)
  ultimately show False using assms(2)
    by (metis div_less_dividend less_irrefl one_less_numeral_iff one_less_power semiring_norm(76))
qed

lemma xorshift_inj:
  fixes x y :: "'a::len word"
  assumes "x XOR drop_bit k x = y XOR drop_bit k y" "0 < k" shows "x = y"
proof -
  have "x XOR y = drop_bit k x XOR drop_bit k y"
    using arg_cong [OF assms(1), of "\<lambda>z. z XOR drop_bit k x XOR y"]
    by (simp add: ac_simps bit_eq_iff bit_simps)
  then have "x XOR y = drop_bit k (x XOR y)" by (subst drop_bit_xor)
  then have "x XOR y = 0" using assms(2) by (rule drop_bit_fixed)
  then show ?thesis by (metis xor.assoc xor.left_neutral xor.right_neutral xor_self_eq)
qed

lemma odd_mult_inj:
  fixes a b c i :: u64 assumes "a * c = b * c" "c * i = 1" shows "a = b"
proof -
  have "a * (c * i) = b * (c * i)" using assms(1) by (simp only: mult.assoc [symmetric])
  then show ?thesis by (simp only: assms(2) mult_1_right)
qed

lemma mix64_inj: "mix64 x = mix64 y \<Longrightarrow> x = y"
proof -
  assume h: "mix64 x = mix64 y"
  have i1: "(0xBF58476D1CE4E5B9::u64) * 0x96DE1B173F119089 = 1"
    and i2: "(0x94D049BB133111EB::u64) * 0x319642B2D24D8EC3 = 1" by simp_all
  show "x = y"
    by (rule xorshift_inj [OF odd_mult_inj [OF xorshift_inj [OF odd_mult_inj [OF
      xorshift_inj [OF h [unfolded mix64_def Let_def]] i2]] i1]]) simp_all
qed

fun rng_after :: "nat \<Rightarrow> split_mix64 \<Rightarrow> split_mix64" where
  "rng_after 0 rng = rng"
| "rng_after (Suc k) rng = rng_after k (snd (next_u64 rng))"

definition nth_output :: "u64 \<Rightarrow> nat \<Rightarrow> u64" where
  "nth_output seed k = fst (next_u64 (rng_after k (SplitMix64_new seed)))"

lemma sm_state_after: "sm_state (rng_after k rng) = sm_state rng + of_nat k * golden_gamma"
  by (induction k arbitrary: rng) (simp_all add: next_u64_def Let_def algebra_simps)

lemma nth_output_state: "nth_output seed k = mix64 (seed + of_nat (Suc k) * golden_gamma)"
  by (simp add: nth_output_def next_u64_def Let_def sm_state_after SplitMix64_new_def algebra_simps)

text \<open>SplitMix64 has full period for every seed: the first \<open>2 ^ 64\<close> outputs are pairwise
  different, and two seeds never give the same first output.\<close>

theorem splitmix_full_period:
  "inj_on (nth_output seed) {..< 2 ^ 64} \<and> inj (\<lambda>seed. nth_output seed 0)"
proof
  have g: "golden_gamma * 0xF1DE83E19937733D = 1" by (simp add: golden_gamma_def)
  show "inj_on (nth_output seed) {..< 2 ^ 64}"
  proof (rule inj_onI)
    fix j k :: nat
    assume r: "j \<in> {..< 2 ^ 64}" "k \<in> {..< 2 ^ 64}" and e: "nth_output seed j = nth_output seed k"
    have "seed + of_nat (Suc j) * golden_gamma = seed + of_nat (Suc k) * golden_gamma"
      using mix64_inj e unfolding nth_output_state .
    then have "of_nat (Suc j) * golden_gamma = of_nat (Suc k) * golden_gamma" by simp
    from odd_mult_inj [OF this g] have "of_nat j = (of_nat k :: u64)" by simp
    then have "take_bit 64 j = take_bit 64 k" by (simp add: word_of_nat_eq_iff)
    then show "j = k" using r by (simp add: take_bit_nat_eq_self)
  qed
  show "inj (\<lambda>seed. nth_output seed 0)"
    by (rule injI) (auto simp: nth_output_state dest: mix64_inj)
qed

subsection \<open>What is drawn\<close>

definition window_sums :: "(f64 \<times> f64) list \<Rightarrow> f64 \<times> f64" where
  "window_sums bs = foldl (\<lambda>(i, v) (bi, bv). (f64_add i bi, f64_add v bv)) (f64_zero, f64_zero) bs"

lemma window_sums_cone: "window_sums bs = f64c.sums (f64_zero, f64_zero) bs"
  by (simp add: window_sums_def f64c.sums_def)

text \<open>The pairs one resample takes: \<open>k\<close> outputs of the generator, reduced modulo the window length.\<close>

definition drawn :: "(f64 \<times> f64) list \<Rightarrow> nat \<Rightarrow> split_mix64 \<Rightarrow> (f64 \<times> f64) list" where
  "drawn pairs k rng = map (\<lambda>i. pairs ! (unat (fst (next_u64 (rng_after i rng))) mod length pairs)) [0..<k]"

lemma rng_after_add: "rng_after j (rng_after k rng) = rng_after (k + j) rng"
  by (induction k arbitrary: rng) simp_all

lemma drawn_Suc: "drawn pairs (Suc k) rng =
    pairs ! (unat (fst (next_u64 rng)) mod length pairs) # drawn pairs k (snd (next_u64 rng))"
  unfolding drawn_def upt_conv_Cons [OF zero_less_Suc] map_Suc_upt [symmetric] by simp

lemma next_index_Some:
  assumes "0 < n" "n < 2 ^ 64"
  shows "next_index rng n = Some (unat (fst (next_u64 rng)) mod n, snd (next_u64 rng))"
  using assms by (simp add: next_index_def unat_mod_distrib unat_of_nat split_beta take_bit_nat_eq_self)

lemma drawn_set: "pairs \<noteq> [] \<Longrightarrow> set (drawn pairs k rng) \<subseteq> set pairs"
  by (auto simp: drawn_def)

lemma length_drawn [simp]: "length (drawn pairs k rng) = k"
  by (simp add: drawn_def)

lemma resample_sums_drawn:
  assumes "pairs \<noteq> []" "length pairs < 2 ^ 64"
  shows "resample_sums pairs k rng a = Some (f64c.sums a (drawn pairs k rng), rng_after k rng)"
proof (induction k arbitrary: rng a)
  case 0
  then show ?case by (cases a) (simp add: drawn_def)
next
  case (Suc k)
  have n: "0 < length pairs" using assms(1) by simp
  show ?case
    by (cases a) (simp add: next_index_Some [OF n assms(2)] index_of_def assms(1) Suc drawn_Suc
        split_beta)
qed

lemma draw_samples_drawn:
  assumes "pairs \<noteq> []" "length pairs < 2 ^ 64"
  defines "n \<equiv> length pairs"
  shows "draw_samples pairs k rng = Some (map (\<lambda>b. case window_sums (drawn pairs n (rng_after (b * n) rng))
      of (i, v) \<Rightarrow> f64_div i v) [0..<k], rng_after (k * n) rng)"
proof (induction k arbitrary: rng)
  case (Suc k)
  let ?f = "\<lambda>rng. case window_sums (drawn pairs n rng) of (i, v) \<Rightarrow> f64_div i v"
  have m: "map (\<lambda>b. ?f (rng_after (b * n) rng)) [0..<Suc k] =
      ?f rng # map (\<lambda>b. ?f (rng_after (b * n) (rng_after n rng))) [0..<k]"
    unfolding upt_conv_Cons [OF zero_less_Suc] map_Suc_upt [symmetric]
    by (simp add: rng_after_add)
  show ?case unfolding m
    by (simp add: resample_sums_drawn [OF assms(1,2)] n_def [symmetric] Suc.IH rng_after_add
        window_sums_cone split_beta)
qed simp

subsection \<open>Every resampled ratio is in \<open>[0, 1]\<close>\<close>

text \<open>A pair the engine keeps: a positive volume of at most \<open>2 ^ 901\<close> and an imbalance it bounds.\<close>

definition fair_pair :: "f64 \<times> f64 \<Rightarrow> bool" where
  "fair_pair b \<longleftrightarrow> f64_le f64_zero (fst b) \<and> f64_le (fst b) (snd b) \<and> f64_lt f64_zero (snd b) \<and>
     capped 2 (snd b)"

lemma sums_capped:
  "\<forall>b \<in> set bs. fair_pair b \<Longrightarrow> capped j v \<Longrightarrow> j + 2 * length bs \<le> 2 ^ 53 \<Longrightarrow>
    capped (j + 2 * length bs) (snd (f64c.sums (i, v) bs))"
proof (induction bs arbitrary: i j v)
  case (Cons b bs)
  have "capped (j + 2) (f64_add v (snd b))"
    using Cons.prems by (intro capped_add) (simp_all add: fair_pair_def)
  then have "capped (j + 2 + 2 * length bs) (snd (f64c.sums (f64_add i (fst b), f64_add v (snd b)) bs))"
    using Cons.prems by (intro Cons.IH) simp_all
  then show ?case by simp
qed simp

lemma fair_ratio:
  assumes "\<forall>b \<in> set bs. fair_pair b" "bs \<noteq> []" "length bs \<le> 2 ^ 52" "window_sums bs = (I, V)"
  shows "f64_le f64_zero (f64_div I V)" "f64_le (f64_div I V) f64_one"
proof -
  have "capped (0 + 2 * length bs) V"
    using sums_capped [OF assms(1) capped_zero, of 0 f64_zero] assms(3,4) by (simp add: window_sums_cone)
  then have "f64_is_finite V" by (rule capped_parts)
  moreover have "f64c.weighted bs" "\<forall>b \<in> set bs. f64_lt f64_zero (snd b)"
    using assms(1) by (auto simp: f64c.weighted_def fair_pair_def f64_lt_le)
  ultimately show "f64_le f64_zero (f64_div I V)" "f64_le (f64_div I V) f64_one"
    using f64c.ratio_bounds assms(2,4) unfolding window_sums_cone by blast+
qed

subsection \<open>Percentiles of numbers in \<open>[0, 1]\<close>\<close>

definition in_unit :: "f64 \<Rightarrow> bool" where
  "in_unit x \<longleftrightarrow> f64_le f64_zero x \<and> f64_le x f64_one"

lemma in_unit_finite: "in_unit x \<Longrightarrow> f64_is_finite x"
  using uval_one(2) finite_between by (auto simp: in_unit_def)

lemma f64_mul_comm: "f64_mul x y = f64_mul y x"
  by (cases x; cases y) (auto simp: ac_simps)

lemma interpolate_unit:
  assumes "in_unit a" "in_unit b" "in_unit f" shows "in_unit (interpolate a b f)"
proof -
  have f: "f64_le f64_zero f" "f64_le f f64_one" using assms(3) by (simp_all add: in_unit_def)
  note g = f64_sub_below [OF uval_one(2) f]
  have "f64_is_finite (f64_sub f64_one f)" using g uval_one(2) finite_between by blast
  from f64_mul_unit [OF this g(1), of a] f64_mul_unit [OF in_unit_finite [OF assms(3)] f(1), of b] assms(1,2)
  have m: "f64_le f64_zero (f64_mul (f64_sub f64_one f) a)" "f64_le (f64_mul (f64_sub f64_one f) a) (f64_sub f64_one f)"
    "f64_le f64_zero (f64_mul f b)" "f64_le (f64_mul f b) f"
    by (simp_all add: in_unit_def)
  have "f64_le (f64_add (f64_mul (f64_sub f64_one f) a) (f64_mul f b)) f64_one"
    using f64_add_mono [OF m] complement_sum [OF f] by (rule f64_le_trans)
  moreover have "f64_le f64_zero (f64_add (f64_mul (f64_sub f64_one f) a) (f64_mul f b))"
    using m(1,3) by (rule f64_add_nonneg)
  ultimately show ?thesis by (simp add: interpolate_def in_unit_def f64_mul_comm)
qed

lemma percentile_unit:
  assumes "\<forall>x \<in> set xs. in_unit x" "xs \<noteq> []" "length xs \<le> 2 ^ 53" "in_unit p"
  shows "\<exists>r. percentile xs p = Some r \<and> in_unit r"
proof (cases "length xs = 1")
  case True
  then show ?thesis using assms(1) by (auto simp: percentile_def index_of_def)
next
  case False
  define n where "n = length xs - 1"
  have n: "n < 2 ^ 53" "n < length xs" "0 < n" using assms(2,3) False by (cases xs; cases "tl xs"; auto simp: n_def)+
  have nf: "f64_is_finite (f64_of_nat n)" using f64_of_nat_exact [of n] n(1) by auto
  define rank where "rank = percentile_rank p (length xs)"
  have "rank = f64_mul (f64_of_nat n) p"
    unfolding rank_def percentile_rank_def n_def by (rule f64_mul_comm)
  with f64_mul_unit [OF nf f64_of_nat_nonneg, of p] assms(4)
  have r: "f64_le f64_zero rank" "f64_le rank (f64_of_nat n)" by (simp_all add: in_unit_def)
  define lo hi where "lo = f64_to_usize (f64_floor rank)" and "hi = f64_to_usize (f64_ceil rank)"
  note b = floor_ceil_bounds [OF r n(1), folded lo_def hi_def]
  have i: "lo < length xs" "hi < length xs" using b(1,3) n(2) by simp_all
  then have u: "in_unit (xs ! lo)" "in_unit (xs ! hi)" using assms(1) by simp_all
  have "in_unit (f64_sub rank (f64_of_nat lo))" using b(4,5) by (simp add: in_unit_def)
  then have "in_unit (interpolate (xs ! lo) (xs ! hi) (f64_sub rank (f64_of_nat lo)))"
    using u by (intro interpolate_unit)
  moreover have "percentile xs p = percentile_at xs rank lo hi"
    using False assms(2) by (simp add: percentile_def rank_def lo_def hi_def)
  ultimately show ?thesis using i u by (simp add: percentile_at_def index_of_def)
qed

lemma tail_levels:
  assumes "f64_lt f64_zero c" "f64_lt c f64_one"
  shows "in_unit (f64_div (f64_sub f64_one c) f64_two)"
    and "in_unit (f64_sub f64_one (f64_div (f64_sub f64_one c) f64_two))"
proof -
  note a = f64_sub_below [OF uval_one(2) f64_lt_le [OF assms(1)] f64_lt_le [OF assms(2)]]
  have two: "f64_lt f64_zero f64_two" "f64_le f64_one f64_two"
    by (simp_all add: f64_lt_def f64_le_def f64_one_def f64_two_def inf_mag_def)
  note h = f64_div_unit [OF uval_consts(2) two(1) a(1) f64_le_trans [OF a(2) two(2)]]
  show "in_unit (f64_div (f64_sub f64_one c) f64_two)" using h by (simp add: in_unit_def)
  show "in_unit (f64_sub f64_one (f64_div (f64_sub f64_one c) f64_two))"
    using f64_sub_below [OF uval_one(2) h] by (simp add: in_unit_def)
qed

lemma draw_samples_unit:
  assumes "\<forall>b \<in> set window. fair_pair b" "window \<noteq> []" "length window \<le> 2 ^ 52"
  shows "\<exists>samples. draw_samples window k rng = Some (samples, rng_after (k * length window) rng) \<and>
    length samples = k \<and> (\<forall>x \<in> set samples. in_unit x)"
proof -
  have w: "length window < 2 ^ 64" using assms(3) by simp
  have "in_unit (case window_sums (drawn window (length window) r) of (i, v) \<Rightarrow> f64_div i v)" for r
  proof -
    obtain i v where s: "window_sums (drawn window (length window) r) = (i, v)" by force
    have "\<forall>b \<in> set (drawn window (length window) r). fair_pair b"
      using drawn_set [OF assms(2)] assms(1) by blast
    moreover have "drawn window (length window) r \<noteq> []"
      using length_drawn [of window "length window" r] assms(2) by force
    ultimately show ?thesis using fair_ratio [OF _ _ _ s] assms(3) s by (simp add: in_unit_def)
  qed
  then show ?thesis unfolding draw_samples_drawn [OF assms(2) w] by auto
qed

lemma bootstrap_ci_in_unit:
  assumes "\<forall>b \<in> set window. fair_pair b" "window \<noteq> []" "length window \<le> 2 ^ 52"
    and "f64_lt f64_zero (ci_confidence_level cfg)" "f64_lt (ci_confidence_level cfg) f64_one"
    and "2 \<le> ci_bootstrap_samples cfg" "ci_bootstrap_samples cfg \<le> 2 ^ 53"
  shows "\<exists>low high. bootstrap_ci window cfg rng =
      Some ((low, high), rng_after (ci_bootstrap_samples cfg * length window) rng) \<and>
    in_unit low \<and> in_unit high"
proof -
  obtain xs where d: "draw_samples window (ci_bootstrap_samples cfg) rng =
      Some (xs, rng_after (ci_bootstrap_samples cfg * length window) rng)"
    "length xs = ci_bootstrap_samples cfg" "\<forall>x \<in> set xs. in_unit x"
    using draw_samples_unit [OF assms(1-3)] by blast
  let ?ys = "sort_key f64_total_key xs"
  have ys: "\<forall>x \<in> set ?ys. in_unit x" "?ys \<noteq> []" "length ?ys \<le> 2 ^ 53"
    using d(2,3) assms(6,7) by (auto simp flip: length_0_conv)
  from percentile_unit [OF ys tail_levels(1) [OF assms(4,5)]] percentile_unit [OF ys tail_levels(2) [OF assms(4,5)]]
  show ?thesis by (auto simp: bootstrap_ci_def d(1) Let_def)
qed

text \<open>C26: for every window of at most \<open>2 ^ 52\<close> pairs with positive volumes up to \<open>2 ^ 901\<close> and
  imbalances they bound, and every configuration \<open>VpinEngine::new\<close> accepts, the bootstrap indexes no
  vector out of range, divides by no zero, consumes exactly one generator output per drawn pair, and
  returns two bounds that lie in \<open>[0, 1]\<close> in spite of every rounding on the way.\<close>

theorem bootstrap_ci_unit:
  assumes "\<forall>b \<in> set window. fair_pair b" "window \<noteq> []" "length window \<le> 2 ^ 52"
    and "f64_lt f64_zero (ci_confidence_level cfg)" "f64_lt (ci_confidence_level cfg) f64_one"
    and "2 \<le> ci_bootstrap_samples cfg" "ci_bootstrap_samples cfg \<le> 2 ^ 53"
  shows "\<exists>low high. bootstrap_ci window cfg rng =
      Some ((low, high), rng_after (ci_bootstrap_samples cfg * length window) rng) \<and>
    in_unit low \<and> in_unit high"
  using assms by (rule bootstrap_ci_in_unit)

lemma fair_pair_1_5: "fair_pair (f64_of_nat 1, f64_of_nat 5)"
  by (simp add: fair_pair_def capped_def f64_of_nat_finite f64_of_nat_pos f64_of_nat_mono uval_f64_of_nat)

theorem bootstrap_ci_unit_witness:
  "\<exists>low high rng'. bootstrap_ci [(f64_of_nat 1, f64_of_nat 5)]
      \<lparr>ci_confidence_level = f64_half, ci_bootstrap_samples = 2, ci_seed = 42\<rparr> (SplitMix64_new 42) =
      Some ((low, high), rng') \<and> in_unit low \<and> in_unit high"
proof -
  let ?cfg = "\<lparr>ci_confidence_level = f64_half, ci_bootstrap_samples = 2, ci_seed = 42\<rparr>"
  have "f64_lt f64_zero (ci_confidence_level ?cfg)" "f64_lt (ci_confidence_level ?cfg) f64_one"
    by (simp_all add: f64_lt_def f64_half_def f64_one_def inf_mag_def)
  from bootstrap_ci_unit [of "[(f64_of_nat 1, f64_of_nat 5)]" ?cfg "SplitMix64_new 42", OF _ _ _ this]
  show ?thesis using fair_pair_1_5 by auto
qed

subsection \<open>The interval can be inverted by rounding\<close>

lemma draw_samples_single:
  "draw_samples [(i, v)] k rng = Some (replicate k (f64_div (f64_add f64_zero i) (f64_add f64_zero v)),
     rng_after k rng)"
proof -
  have "drawn [(i, v)] (Suc 0) r = [(i, v)]" for r by (simp add: drawn_def)
  then show ?thesis by (simp add: draw_samples_drawn window_sums_def map_replicate_const)
qed

definition ci_90 :: confidence_interval_config where
  "ci_90 = \<lparr>ci_confidence_level = f64_of_dec 9 1, ci_bootstrap_samples = 4, ci_seed = 0\<rparr>"

text \<open>the two bounds are interpolated separately and need not be ordered: for a window of one
  pair \<open>(1, 5)\<close>, the level \<open>0.9\<close> and 4 resamples, every generator state gives
  \<open>low = 0.20000000000000004\<close> and \<open>high = 0.2\<close>, so the lower bound also lies above the \<open>vpin\<close> value
  \<open>1 / 5\<close> itself.\<close>

theorem bootstrap_ci_inverted:
  "\<exists>low high rng'. bootstrap_ci [(f64_of_nat 1, f64_of_nat 5)] ci_90 rng = Some ((low, high), rng') \<and>
    f64_lt high low \<and> f64_lt (f64_div (f64_of_nat 1) (f64_of_nat 5)) low"
proof -
  have q: "f64_div (f64_add f64_zero (f64_of_nat 1)) (f64_add f64_zero (f64_of_nat 5)) = Num False 4596373779694328218"
    and q': "f64_div (f64_of_nat 1) (f64_of_nat 5) = Num False 4596373779694328218"
    by (simp_all add: f64_eval)
  have a: "f64_div (f64_sub f64_one (f64_of_dec 9 1)) f64_two = Num False 4587366580439587224"
    and b: "f64_sub f64_one (Num False 4587366580439587224) = Num False 4606732058837280358"
    by (simp_all add: f64_eval)
  have r: "percentile_rank (Num False 4587366580439587224) 4 = Num False 4594572339843380018"
    "percentile_rank (Num False 4606732058837280358) 4 = Num False 4613600048269020364"
    by (simp_all add: percentile_rank_def f64_eval)
  have low: "percentile (replicate 4 (Num False 4596373779694328218)) (Num False 4587366580439587224) = Some (Num False 4596373779694328219)"
    by (simp add: percentile_def r percentile_at_def index_of_def interpolate_def f64_eval)
  have high: "percentile (replicate 4 (Num False 4596373779694328218)) (Num False 4606732058837280358) = Some (Num False 4596373779694328218)"
    by (simp add: percentile_def r percentile_at_def index_of_def interpolate_def f64_eval)
  have sort: "sort_key f64_total_key (replicate 4 y) = replicate 4 y" for y
    by (simp add: numeral_eq_Suc)
  have "bootstrap_ci [(f64_of_nat 1, f64_of_nat 5)] ci_90 rng =
      Some (((Num False 4596373779694328219), (Num False 4596373779694328218)), rng_after 4 rng)"
    by (simp add: bootstrap_ci_def ci_90_def draw_samples_single q sort a b low high Let_def del: One_nat_def)
  then show ?thesis by (simp add: q' f64_lt_def inf_mag_def del: One_nat_def)
qed

end
