(* ===== verification/Engine.thy ===== *)
theory Engine
  imports Rolling Bootstrap
begin

text \<open>
  \<open>VpinEngine\<close> of \<open>crates/vpin-engine/src/vpin.rs\<close>: the volume clock, the rolling sigma, bulk volume
  classification, the VPIN window, the percentile transform and the bootstrap interval, tied
  together as \<open>push_trade\<close> does. \<open>readings_of\<close> is the specification: what each closed bucket should
  yield as a function of the buckets before it. A panic is \<open>None\<close>.
\<close>

subsection \<open>State and operations\<close>

record vpin_reading =
  vr_bucket_id :: u64
  vr_ts_close_ns :: u64
  vr_trades_in_bucket :: u32
  vr_vpin :: "f64 option"
  vr_vpin_cdf :: "f64 option"
  vr_vpin_ci_low :: "f64 option"
  vr_vpin_ci_high :: "f64 option"

record vpin_engine_config =
  vc_bucket_volume :: f64
  vc_sigma_window :: usize
  vc_vpin_window :: usize
  vc_cdf_window :: "usize option"
  vc_confidence_interval :: "confidence_interval_config option"

record vpin_engine =
  ve_bucketer :: volume_bucketer
  ve_sigma :: rolling_sigma
  ve_imbalances :: "(f64 \<times> f64) list"
  ve_vpin_window :: usize
  ve_cdf :: "empirical_cdf option"
  ve_ci :: "(confidence_interval_config \<times> split_mix64) option"

definition checked_ci :: "confidence_interval_config option \<Rightarrow>
    vpin_error + (confidence_interval_config \<times> split_mix64) option" where
  "checked_ci cfg = (case cfg of None \<Rightarrow> Inr None
     | Some c \<Rightarrow>
         if \<not> (f64_lt f64_zero (ci_confidence_level c) \<and> f64_lt (ci_confidence_level c) f64_one)
         then Inl (InvalidConfidenceLevel (ci_confidence_level c))
         else if ci_bootstrap_samples c < 2 then Inl (InvalidBootstrapSamples (ci_bootstrap_samples c) 2)
         else Inr (Some (c, SplitMix64_new (ci_seed c))))"

definition checked_cdf :: "usize option \<Rightarrow> vpin_error + empirical_cdf option" where
  "checked_cdf w = (case w of None \<Rightarrow> Inr None
     | Some n \<Rightarrow> result_bind (EmpiricalCdf_new n) (\<lambda>c. Inr (Some c)))"

definition VpinEngine_new :: "vpin_engine_config \<Rightarrow> vpin_error + vpin_engine" where
  "VpinEngine_new cfg =
     (if vc_vpin_window cfg < 1 then Inl (InvalidWindow (vc_vpin_window cfg) 1)
      else result_bind (checked_ci (vc_confidence_interval cfg)) (\<lambda>ci.
        result_bind (VolumeBucketer_new (vc_bucket_volume cfg)) (\<lambda>bucketer.
        result_bind (RollingSigma_new (vc_sigma_window cfg)) (\<lambda>sigma.
        result_bind (checked_cdf (vc_cdf_window cfg)) (\<lambda>cdf.
          Inr \<lparr>ve_bucketer = bucketer, ve_sigma = sigma, ve_imbalances = [],
               ve_vpin_window = vc_vpin_window cfg, ve_cdf = cdf, ve_ci = ci\<rparr>)))))"

definition ratio_of :: "f64 \<times> f64 \<Rightarrow> f64" where
  "ratio_of s = f64_div (fst s) (snd s)"

definition update_vpin :: "(f64 \<Rightarrow> f64) \<Rightarrow> vpin_engine \<Rightarrow> closed_bucket \<Rightarrow> f64 option \<Rightarrow>
    vpin_engine \<times> f64 option" where
  "update_vpin erf e bucket sigma =
     (case sigma of None \<Rightarrow> (e, None) | Some s \<Rightarrow>
      case bucket_imbalance erf bucket s of None \<Rightarrow> (e, None) | Some imbalance \<Rightarrow>
        (let imbalances = window_push (ve_vpin_window e) (ve_imbalances e) (imbalance, cb_volume bucket)
         in (e\<lparr>ve_imbalances := imbalances\<rparr>,
             if length imbalances < ve_vpin_window e then None
             else Some (ratio_of (window_sums imbalances)))))"

definition cdf_step :: "empirical_cdf option \<Rightarrow> f64 option \<Rightarrow> empirical_cdf option \<times> f64 option" where
  "cdf_step cdf vpin = (case (vpin, cdf) of
      (Some v, Some c) \<Rightarrow> (case EmpiricalCdf_push c v of (c', r) \<Rightarrow> (Some c', r))
    | _ \<Rightarrow> (cdf, None))"

definition ci_step :: "(confidence_interval_config \<times> split_mix64) option \<Rightarrow> (f64 \<times> f64) list \<Rightarrow>
    f64 option \<Rightarrow> ((confidence_interval_config \<times> split_mix64) option \<times> f64 option \<times> f64 option) option" where
  "ci_step ci imbalances vpin = (case (vpin, ci) of
      (Some _, Some (cfg, rng)) \<Rightarrow> (case bootstrap_ci imbalances cfg rng of None \<Rightarrow> None
        | Some ((low, high), rng') \<Rightarrow> Some (Some (cfg, rng'), Some low, Some high))
    | _ \<Rightarrow> Some (ci, None, None))"

text \<open>\<open>push_trade\<close> from the line where a bucket has closed.\<close>

definition on_bucket_closed :: "(f64 \<Rightarrow> f64) \<Rightarrow> vpin_engine \<Rightarrow> closed_bucket \<Rightarrow>
    (vpin_engine \<times> vpin_reading) option" where
  "on_bucket_closed erf e bucket =
     (case update_vpin erf e bucket (RollingSigma_current (ve_sigma e)) of (e1, vpin) \<Rightarrow>
      case cdf_step (ve_cdf e1) vpin of (cdf, vpin_cdf) \<Rightarrow>
      case ci_step (ve_ci e1) (ve_imbalances e1) vpin of None \<Rightarrow> None | Some (ci, low, high) \<Rightarrow>
        Some (e1\<lparr>ve_sigma := fst (RollingSigma_push (ve_sigma e1) (cb_delta_p bucket)),
                 ve_cdf := cdf, ve_ci := ci\<rparr>,
              \<lparr>vr_bucket_id = cb_bucket_id bucket, vr_ts_close_ns = cb_ts_close_ns bucket,
               vr_trades_in_bucket = cb_trade_count bucket, vr_vpin = vpin, vr_vpin_cdf = vpin_cdf,
               vr_vpin_ci_low = low, vr_vpin_ci_high = high\<rparr>))"

definition push_trade :: "(f64 \<Rightarrow> f64) \<Rightarrow> vpin_engine \<Rightarrow> f64 \<Rightarrow> f64 \<Rightarrow> u64 \<Rightarrow>
    (vpin_engine \<times> vpin_reading option) option" where
  "push_trade erf e price volume ts_ns =
     (case VolumeBucketer_push (ve_bucketer e) price volume ts_ns of
        (b, None) \<Rightarrow> Some (e\<lparr>ve_bucketer := b\<rparr>, None)
      | (b, Some bucket) \<Rightarrow> map_option (\<lambda>(e', r). (e', Some r)) (on_bucket_closed erf (e\<lparr>ve_bucketer := b\<rparr>) bucket))"

fun engine_run :: "(f64 \<Rightarrow> f64) \<Rightarrow> vpin_engine \<Rightarrow> trade_in list \<Rightarrow> (vpin_engine \<times> vpin_reading list) option" where
  "engine_run erf e [] = Some (e, [])"
| "engine_run erf e ((p, v, t) # ts) =
     (case push_trade erf e p v t of None \<Rightarrow> None
      | Some (e', out) \<Rightarrow> (case engine_run erf e' ts of None \<Rightarrow> None
        | Some (e'', outs) \<Rightarrow> Some (e'', (case out of None \<Rightarrow> outs | Some r \<Rightarrow> r # outs))))"

subsection \<open>Construction\<close>

text \<open>What \<open>new\<close> accepts, and the state it builds.\<close>

definition ci_ok :: "confidence_interval_config \<Rightarrow> bool" where
  "ci_ok c \<longleftrightarrow> f64_lt f64_zero (ci_confidence_level c) \<and> f64_lt (ci_confidence_level c) f64_one \<and>
     2 \<le> ci_bootstrap_samples c"

definition config_ok :: "vpin_engine_config \<Rightarrow> bool" where
  "config_ok cfg \<longleftrightarrow> 1 \<le> vc_vpin_window cfg \<and> pred_option ci_ok (vc_confidence_interval cfg) \<and>
     f64_is_finite (vc_bucket_volume cfg) \<and> f64_lt f64_zero (vc_bucket_volume cfg) \<and>
     2 \<le> vc_sigma_window cfg \<and> pred_option (\<lambda>w. 2 \<le> w) (vc_cdf_window cfg)"

definition fresh_engine :: "vpin_engine_config \<Rightarrow> vpin_engine" where
  "fresh_engine cfg = \<lparr>ve_bucketer = \<lparr>vb_target_volume = vc_bucket_volume cfg, vb_bucket_id = 0,
       vb_acc_volume = f64_zero, vb_last_price = f64_zero, vb_prev_close = None, vb_trade_count = 0,
       vb_started = False\<rparr>,
     ve_sigma = \<lparr>rs_window = vc_sigma_window cfg, rs_buf = [], rs_current = None\<rparr>,
     ve_imbalances = [], ve_vpin_window = vc_vpin_window cfg,
     ve_cdf = map_option (\<lambda>w. \<lparr>ec_window = w, ec_buf = []\<rparr>) (vc_cdf_window cfg),
     ve_ci = map_option (\<lambda>c. (c, SplitMix64_new (ci_seed c))) (vc_confidence_interval cfg)\<rparr>"

lemma VpinEngine_new_Inr: "VpinEngine_new cfg = Inr e \<longleftrightarrow> config_ok cfg \<and> e = fresh_engine cfg"
  by (cases "vc_confidence_interval cfg"; cases "vc_cdf_window cfg")
    (auto simp: VpinEngine_new_def checked_ci_def checked_cdf_def config_ok_def fresh_engine_def ci_ok_def
      VolumeBucketer_new_def RollingSigma_new_def EmpiricalCdf_new_def Let_def)

text \<open>\<open>VpinEngine::new\<close> builds an engine exactly for the valid configurations (each window at
  least its minimum, a finite positive bucket volume, a confidence level strictly between 0 and 1
  and at least two resamples), and that engine is empty; the first violated check, in the order
  VPIN window, confidence level, resamples, bucket volume, sigma window, CDF window, decides the
  error otherwise.\<close>

theorem VpinEngine_new_spec:
  "VpinEngine_new cfg =
    (if config_ok cfg then Inr (fresh_engine cfg)
     else Inl (if vc_vpin_window cfg = 0 then InvalidWindow 0 1
       else if \<not> pred_option ci_ok (vc_confidence_interval cfg)
         then (let c = the (vc_confidence_interval cfg) in
           if f64_lt f64_zero (ci_confidence_level c) \<and> f64_lt (ci_confidence_level c) f64_one
           then InvalidBootstrapSamples (ci_bootstrap_samples c) 2
           else InvalidConfidenceLevel (ci_confidence_level c))
       else if \<not> (f64_is_finite (vc_bucket_volume cfg) \<and> f64_lt f64_zero (vc_bucket_volume cfg))
         then InvalidBucketVolume (vc_bucket_volume cfg)
       else if vc_sigma_window cfg < 2 then InvalidWindow (vc_sigma_window cfg) 2
       else InvalidWindow (the (vc_cdf_window cfg)) 2))"
  by (cases "vc_confidence_interval cfg"; cases "vc_cdf_window cfg")
    (auto simp: VpinEngine_new_def checked_ci_def checked_cdf_def config_ok_def fresh_engine_def ci_ok_def
      VolumeBucketer_new_def RollingSigma_new_def EmpiricalCdf_new_def Let_def)

subsection \<open>Specification of the readings\<close>

text \<open>All as functions of the list of closed buckets: the sigma a bucket is classified with (from the
  buckets \<open>before\<close> it), its (imbalance, volume) pair, the VPIN value, and its percentile rank.\<close>

definition sigma_after :: "usize \<Rightarrow> closed_bucket list \<Rightarrow> f64 option" where
  "sigma_after w earlier = (if length earlier < w then None
     else let ds = last_n w (map cb_delta_p earlier) in Some (sample_std ds w (sample_mean ds w)))"

definition pair_of :: "(f64 \<Rightarrow> f64) \<Rightarrow> usize \<Rightarrow> closed_bucket list \<Rightarrow> closed_bucket \<Rightarrow> (f64 \<times> f64) option" where
  "pair_of erf w earlier c = (case sigma_after w earlier of None \<Rightarrow> None
     | Some s \<Rightarrow> map_option (\<lambda>i. (i, cb_volume c)) (bucket_imbalance erf c s))"

definition collect :: "(closed_bucket list \<Rightarrow> closed_bucket \<Rightarrow> 'a option) \<Rightarrow> closed_bucket list \<Rightarrow> 'a list" where
  "collect f bs = concat (map (\<lambda>i. case f (take i bs) (bs ! i) of None \<Rightarrow> [] | Some x \<Rightarrow> [x]) [0..<length bs])"

definition vpin_of :: "(f64 \<Rightarrow> f64) \<Rightarrow> usize \<Rightarrow> usize \<Rightarrow> closed_bucket list \<Rightarrow> closed_bucket \<Rightarrow> f64 option" where
  "vpin_of erf w n earlier c = (case pair_of erf w earlier c of None \<Rightarrow> None
     | Some p \<Rightarrow> (let ps = collect (pair_of erf w) earlier @ [p] in
         if length ps < n then None else Some (ratio_of (window_sums (last_n n ps)))))"

definition rank_in :: "usize \<Rightarrow> f64 list \<Rightarrow> f64 \<Rightarrow> f64 option" where
  "rank_in w earlier v = (if Suc (length earlier) < w then None
     else Some (count_ratio (le_count (last_n w (earlier @ [v])) v) w))"

definition cdf_of :: "(f64 \<Rightarrow> f64) \<Rightarrow> vpin_engine_config \<Rightarrow> closed_bucket list \<Rightarrow> closed_bucket \<Rightarrow> f64 option" where
  "cdf_of erf cfg earlier c =
     (case (vpin_of erf (vc_sigma_window cfg) (vc_vpin_window cfg) earlier c, vc_cdf_window cfg) of
        (Some v, Some w) \<Rightarrow> rank_in w (collect (vpin_of erf (vc_sigma_window cfg) (vc_vpin_window cfg)) earlier) v
      | _ \<Rightarrow> None)"

lemma collect_Nil [simp]: "collect f [] = []"
  by (simp add: collect_def)

lemma collect_snoc: "collect f (bs @ [c]) = collect f bs @ (case f bs c of None \<Rightarrow> [] | Some x \<Rightarrow> [x])"
  unfolding collect_def
  by (simp add: upt_Suc_append) (rule arg_cong [of _ _ concat], rule map_cong; simp add: nth_append)

subsection \<open>The engine's state after a list of closed buckets\<close>

definition tracks :: "(f64 \<Rightarrow> f64) \<Rightarrow> vpin_engine_config \<Rightarrow> closed_bucket list \<Rightarrow> vpin_engine \<Rightarrow> bool" where
  "tracks erf cfg bs e \<longleftrightarrow>
     ve_sigma e = feed RollingSigma_push (ve_sigma (fresh_engine cfg)) (map cb_delta_p bs) \<and>
     ve_vpin_window e = vc_vpin_window cfg \<and>
     ve_imbalances e = last_n (vc_vpin_window cfg) (collect (pair_of erf (vc_sigma_window cfg)) bs) \<and>
     ve_cdf e = map_option (\<lambda>w. feed EmpiricalCdf_push \<lparr>ec_window = w, ec_buf = []\<rparr>
       (collect (vpin_of erf (vc_sigma_window cfg) (vc_vpin_window cfg)) bs)) (vc_cdf_window cfg) \<and>
     map_option fst (ve_ci e) = vc_confidence_interval cfg"

lemma tracks_fresh: "tracks erf cfg [] (fresh_engine cfg)"
  by (cases "vc_confidence_interval cfg") (simp_all add: tracks_def fresh_engine_def last_n_def)

lemma tracks_bucketer [simp]: "tracks erf cfg bs (e\<lparr>ve_bucketer := b\<rparr>) = tracks erf cfg bs e"
  by (simp add: tracks_def)

lemma tracks_sigma:
  assumes "config_ok cfg" "tracks erf cfg bs e"
  shows "RollingSigma_current (ve_sigma e) = sigma_after (vc_sigma_window cfg) bs"
proof (cases bs rule: rev_cases)
  case Nil
  then show ?thesis using assms
    by (auto simp: tracks_def RollingSigma_current_def sigma_after_def config_ok_def fresh_engine_def)
next
  case (snoc bs' c)
  have "RollingSigma_new (vc_sigma_window cfg) = Inr (ve_sigma (fresh_engine cfg))"
    using assms(1) by (simp add: RollingSigma_new_Inr config_ok_def fresh_engine_def)
  from RollingSigma_answer [OF this, of "map cb_delta_p bs'" "cb_delta_p c"] assms(2)
  show ?thesis by (simp add: tracks_def snoc sigma_after_def Let_def feed_snoc RollingSigma_push_parts(2))
qed

lemma update_vpin_tracks:
  fixes c :: closed_bucket
  assumes ok: "config_ok cfg" and t: "tracks erf cfg bs e"
  defines "u \<equiv> update_vpin erf e c (RollingSigma_current (ve_sigma e))"
  shows "snd u = vpin_of erf (vc_sigma_window cfg) (vc_vpin_window cfg) bs c"
    and "fst u = e\<lparr>ve_imbalances := last_n (vc_vpin_window cfg) (collect (pair_of erf (vc_sigma_window cfg)) (bs @ [c]))\<rparr>"
proof -
  let ?n = "vc_vpin_window cfg" and ?ps = "collect (pair_of erf (vc_sigma_window cfg)) bs"
  have n: "0 < ?n" using ok by (auto simp: config_ok_def)
  have e: "ve_vpin_window e = ?n" "ve_imbalances e = last_n ?n ?ps" using t by (simp_all add: tracks_def)
  have u: "u = (case pair_of erf (vc_sigma_window cfg) bs c of None \<Rightarrow> (e, None)
      | Some p \<Rightarrow> (e\<lparr>ve_imbalances := last_n ?n (?ps @ [p])\<rparr>,
          if length (?ps @ [p]) < ?n then None else Some (ratio_of (window_sums (last_n ?n (?ps @ [p]))))))"
    using n unfolding u_def tracks_sigma [OF ok t] update_vpin_def pair_of_def [of erf _ bs c]
    by (auto simp: e window_push_last_n Let_def split: option.splits)
  show "snd u = vpin_of erf (vc_sigma_window cfg) ?n bs c"
    by (simp add: u vpin_of_def Let_def split: option.splits)
  show "fst u = e\<lparr>ve_imbalances := last_n ?n (collect (pair_of erf (vc_sigma_window cfg)) (bs @ [c]))\<rparr>"
    using e(2) by (simp add: u collect_snoc split: option.splits)
qed

lemma cdf_step_tracks:
  assumes ok: "config_ok cfg" and t: "tracks erf cfg bs e"
  defines "v \<equiv> vpin_of erf (vc_sigma_window cfg) (vc_vpin_window cfg)"
  shows "cdf_step (ve_cdf e) (v bs c) =
    (map_option (\<lambda>w. feed EmpiricalCdf_push \<lparr>ec_window = w, ec_buf = []\<rparr> (collect v (bs @ [c]))) (vc_cdf_window cfg),
     cdf_of erf cfg bs c)"
proof (cases "vc_cdf_window cfg")
  case None
  then show ?thesis using t by (auto simp: tracks_def cdf_step_def cdf_of_def split: option.splits)
next
  case (Some w)
  have new: "EmpiricalCdf_new w = Inr \<lparr>ec_window = w, ec_buf = []\<rparr>"
    using ok Some by (simp add: config_ok_def EmpiricalCdf_new_Inr)
  have c: "ve_cdf e = Some (feed EmpiricalCdf_push \<lparr>ec_window = w, ec_buf = []\<rparr> (collect v bs))"
    using t Some by (simp add: tracks_def v_def)
  show ?thesis
    by (auto simp: cdf_step_def cdf_of_def c collect_snoc feed_snoc Some rank_in_def v_def [symmetric]
        EmpiricalCdf_answer [OF new, symmetric] split_beta split: option.splits)
qed

subsection \<open>Invariant\<close>

text \<open>\<open>small v\<close>: a volume that is zero or more and at most \<open>2 ^ 900\<close>.\<close>

abbreviation small :: "f64 \<Rightarrow> bool" where "small \<equiv> capped 1"

definition bucketer_inv :: "volume_bucketer \<Rightarrow> bool" where
  "bucketer_inv b \<longleftrightarrow> f64_lt f64_zero (vb_target_volume b) \<and> small (vb_target_volume b) \<and>
     f64_le f64_zero (vb_acc_volume b) \<and> f64_le (vb_acc_volume b) (vb_target_volume b)"

definition cdf_inv :: "empirical_cdf \<Rightarrow> bool" where
  "cdf_inv c \<longleftrightarrow> 2 \<le> ec_window c \<and> ec_window c < 2 ^ 64 \<and> length (ec_buf c) \<le> ec_window c"

definition ci_inv :: "confidence_interval_config \<Rightarrow> bool" where
  "ci_inv c \<longleftrightarrow> ci_ok c \<and> ci_bootstrap_samples c \<le> 2 ^ 53"

definition engine_inv :: "vpin_engine \<Rightarrow> bool" where
  "engine_inv e \<longleftrightarrow> bucketer_inv (ve_bucketer e) \<and>
     0 < ve_vpin_window e \<and> ve_vpin_window e \<le> 2 ^ 52 \<and>
     length (ve_imbalances e) \<le> ve_vpin_window e \<and> (\<forall>b \<in> set (ve_imbalances e). fair_pair b) \<and>
     pred_option cdf_inv (ve_cdf e) \<and>
     pred_option (\<lambda>c. ci_inv (fst c)) (ve_ci e)"

lemma bucketer_push_inv:
  assumes "bucketer_inv b" "small v" "VolumeBucketer_push b p v t = (b', out)"
  shows "bucketer_inv b'" "out = Some c \<Longrightarrow> f64_lt f64_zero (cb_volume c) \<and> capped 2 (cb_volume c)"
proof -
  have acc: "small (vb_acc_volume b)" using assms(1) capped_le by (auto simp: bucketer_inv_def)
  have a: "f64_le f64_zero (f64_add (vb_acc_volume b) v)"
    using assms(1,2) by (intro f64_add_nonneg) (simp_all add: bucketer_inv_def capped_parts)
  have "capped (1 + 1) (f64_add (vb_acc_volume b) v)" using acc assms(2) by (rule capped_add) simp
  then have v: "capped 2 (f64_add (vb_acc_volume b) v)" by (simp add: numeral_2_eq_2)
  show "bucketer_inv b'" using assms(1,3) a f64_lt_le
    by (auto simp: VolumeBucketer_push_def bucketer_inv_def Let_def split: if_splits)
  show "f64_lt f64_zero (cb_volume c) \<and> capped 2 (cb_volume c)" if "out = Some c"
    using push_closed_volume [of b p v t b' c] assms that v
    by (auto simp: bucketer_inv_def capped_parts VolumeBucketer_push_def Let_def split: if_splits)
qed

lemma update_vpin_inv:
  assumes "erf_range erf" "engine_inv e" "f64_lt f64_zero (cb_volume c)" "capped 2 (cb_volume c)"
    "update_vpin erf e c sigma = (e', vpin)"
  shows "engine_inv e'" "pred_option in_unit vpin" "vpin \<noteq> None \<Longrightarrow> ve_imbalances e' \<noteq> []"
    "ve_ci e' = ve_ci e" "ve_cdf e' = ve_cdf e"
proof -
  let ?n = "ve_vpin_window e"
  have n: "0 < ?n" "length (ve_imbalances e) \<le> ?n" "?n \<le> 2 ^ 52" "\<forall>b \<in> set (ve_imbalances e). fair_pair b"
    using assms(2) by (simp_all add: engine_inv_def)
  have p: "fair_pair (i, cb_volume c)" if "bucket_imbalance erf c s = Some i" for i s
    using bucket_imbalance_bounds [OF assms(1) that] assms(3,4)
    by (simp add: fair_pair_def capped_parts f64_lt_le)
  define w where "w i = window_push ?n (ve_imbalances e) (i, cb_volume c)" for i
  have w: "length (w i) \<le> ?n" "w i \<noteq> []" for i
    using length_window_push [OF n(2,1)] by (simp_all add: w_def)
  have f: "\<forall>b \<in> set (w i). fair_pair b" if "bucket_imbalance erf c s = Some i" for i s
    using set_window_push [of ?n "ve_imbalances e" "(i, cb_volume c)"] n(4) p [OF that]
    unfolding w_def by blast
  have u: "in_unit (ratio_of (window_sums (w i)))" if "bucket_imbalance erf c s = Some i" for i s
    using fair_ratio [OF f [OF that] w(2)] w(1) [of i] n(3)
    by (cases "window_sums (w i)") (simp add: ratio_of_def in_unit_def)
  note d = assms(5) [unfolded update_vpin_def Let_def, folded w_def]
  show "engine_inv e'" using d assms(2) f w by (auto simp: engine_inv_def split: option.splits)
  show "pred_option in_unit vpin" using d u by (auto split: option.splits if_splits)
  show "ve_imbalances e' \<noteq> []" if "vpin \<noteq> None" using d that w(2) by (auto split: option.splits)
  show "ve_ci e' = ve_ci e" "ve_cdf e' = ve_cdf e" using d by (auto split: option.splits)
qed

lemma EmpiricalCdf_push_inv:
  assumes "cdf_inv c"
  shows "cdf_inv (fst (EmpiricalCdf_push c v))" "pred_option in_unit (snd (EmpiricalCdf_push c v))"
proof -
  have c: "2 \<le> ec_window c" "ec_window c < 2 ^ 64" "length (ec_buf c) \<le> ec_window c"
    using assms by (simp_all add: cdf_inv_def)
  have w: "length (window_push (ec_window c) (ec_buf c) v) \<le> ec_window c"
    using length_window_push [OF c(3)] c(1) by simp
  then have "le_count (window_push (ec_window c) (ec_buf c) v) v \<le> ec_window c"
    using le_count_bounds(1) order_trans by blast
  with w c show "cdf_inv (fst (EmpiricalCdf_push c v))" "pred_option in_unit (snd (EmpiricalCdf_push c v))"
    using count_ratio_unit [of _ "ec_window c"]
    by (simp_all add: EmpiricalCdf_push_def Let_def in_unit_def cdf_inv_def)
qed

lemma cdf_step_inv:
  assumes "pred_option cdf_inv cdf" "cdf_step cdf vpin = (cdf', r)"
  shows "pred_option cdf_inv cdf'" and "pred_option in_unit r"
    and "r \<noteq> None \<Longrightarrow> vpin \<noteq> None \<and> cdf \<noteq> None"
proof -
  have "pred_option cdf_inv cdf' \<and> pred_option in_unit r \<and> (r \<noteq> None \<longrightarrow> vpin \<noteq> None \<and> cdf \<noteq> None)"
  proof (cases "vpin = None \<or> cdf = None")
    case True
    then show ?thesis using assms by (auto simp: cdf_step_def split: option.splits)
  next
    case False
    then obtain v c where "vpin = Some v" "cdf = Some c" by auto
    then show ?thesis using assms EmpiricalCdf_push_inv [of c v] by (auto simp: cdf_step_def split_beta)
  qed
  then show "pred_option cdf_inv cdf'" "pred_option in_unit r"
    "r \<noteq> None \<Longrightarrow> vpin \<noteq> None \<and> cdf \<noteq> None" by blast+
qed

lemma ci_step_inv:
  assumes "pred_option (\<lambda>c. ci_inv (fst c)) ci" "\<forall>b \<in> set ps. fair_pair b" "length ps \<le> 2 ^ 52"
    "vpin \<noteq> None \<Longrightarrow> ps \<noteq> []"
  obtains ci' low high where "ci_step ci ps vpin = Some (ci', low, high)"
    "pred_option (\<lambda>c. ci_inv (fst c)) ci'" "map_option fst ci' = map_option fst ci"
    "pred_option in_unit low" "pred_option in_unit high"
    "low \<noteq> None \<longleftrightarrow> vpin \<noteq> None \<and> ci \<noteq> None" "high \<noteq> None \<longleftrightarrow> vpin \<noteq> None \<and> ci \<noteq> None"
proof (cases "vpin = None \<or> ci = None")
  case True
  then have "ci_step ci ps vpin = Some (ci, None, None)" by (auto simp: ci_step_def split: option.splits)
  then show ?thesis using that [of ci None None] True assms(1) by auto
next
  case False
  then obtain v cfg rng where c: "vpin = Some v" "ci = Some (cfg, rng)" by auto
  then have cfg: "ci_inv cfg" "ps \<noteq> []" using assms(1,4) by auto
  then obtain low high where "bootstrap_ci ps cfg rng =
      Some ((low, high), rng_after (ci_bootstrap_samples cfg * length ps) rng)" "in_unit low" "in_unit high"
    using bootstrap_ci_in_unit [OF assms(2) cfg(2) assms(3), of cfg rng] by (auto simp: ci_inv_def ci_ok_def)
  then show ?thesis using c cfg that by (simp add: ci_step_def)
qed

text \<open>What a reading promises, \<open>ci\<close> saying whether the interval is configured.\<close>

definition reading_ok :: "bool \<Rightarrow> vpin_reading \<Rightarrow> bool" where
  "reading_ok ci r \<longleftrightarrow> pred_option in_unit (vr_vpin r) \<and> pred_option in_unit (vr_vpin_cdf r) \<and>
     pred_option in_unit (vr_vpin_ci_low r) \<and> pred_option in_unit (vr_vpin_ci_high r) \<and>
     (vr_vpin_cdf r \<noteq> None \<longrightarrow> vr_vpin r \<noteq> None) \<and>
     (vr_vpin_ci_low r \<noteq> None \<longleftrightarrow> vr_vpin r \<noteq> None \<and> ci) \<and>
     (vr_vpin_ci_high r \<noteq> None \<longleftrightarrow> vr_vpin r \<noteq> None \<and> ci)"

lemma on_bucket_closed_inv:
  assumes "erf_range erf" "engine_inv e" "f64_lt f64_zero (cb_volume c)" "capped 2 (cb_volume c)"
  shows "\<exists>e' r. on_bucket_closed erf e c = Some (e', r) \<and> engine_inv e' \<and>
    reading_ok (ve_ci e \<noteq> None) r \<and> (ve_ci e' \<noteq> None \<longleftrightarrow> ve_ci e \<noteq> None)"
proof -
  obtain e1 vpin where u: "update_vpin erf e c (RollingSigma_current (ve_sigma e)) = (e1, vpin)" by force
  note i = update_vpin_inv [OF assms u]
  obtain cdf r where c: "cdf_step (ve_cdf e1) vpin = (cdf, r)" by force
  have cdf1: "pred_option cdf_inv (ve_cdf e1)"
    and w1: "pred_option (\<lambda>c. ci_inv (fst c)) (ve_ci e1)" "\<forall>b \<in> set (ve_imbalances e1). fair_pair b"
      "length (ve_imbalances e1) \<le> 2 ^ 52"
    using i(1) by (simp_all add: engine_inv_def)
  note k = cdf_step_inv [OF cdf1 c]
  obtain ci' low high where s: "ci_step (ve_ci e1) (ve_imbalances e1) vpin = Some (ci', low, high)"
    "pred_option (\<lambda>c. ci_inv (fst c)) ci'" "map_option fst ci' = map_option fst (ve_ci e1)"
    "pred_option in_unit low" "pred_option in_unit high"
    "low \<noteq> None \<longleftrightarrow> vpin \<noteq> None \<and> ve_ci e1 \<noteq> None" "high \<noteq> None \<longleftrightarrow> vpin \<noteq> None \<and> ve_ci e1 \<noteq> None"
    by (rule ci_step_inv [OF w1 i(3)])
  have n: "ci' \<noteq> None \<longleftrightarrow> ve_ci e \<noteq> None" using arg_cong [OF s(3), of "\<lambda>x. x = None"] i(4) by simp
  define e2 where "e2 = e1\<lparr>ve_sigma := fst (RollingSigma_push (ve_sigma e1) (cb_delta_p c)),
    ve_cdf := cdf, ve_ci := ci'\<rparr>"
  define rd where "rd = \<lparr>vr_bucket_id = cb_bucket_id c, vr_ts_close_ns = cb_ts_close_ns c,
    vr_trades_in_bucket = cb_trade_count c, vr_vpin = vpin, vr_vpin_cdf = r,
    vr_vpin_ci_low = low, vr_vpin_ci_high = high\<rparr>"
  have "on_bucket_closed erf e c = Some (e2, rd)"
    by (simp only: on_bucket_closed_def u c s(1) e2_def rd_def prod.case option.case)
  moreover have "engine_inv e2" using i(1) k(1) s(2) by (simp add: engine_inv_def e2_def)
  moreover have "reading_ok (ve_ci e \<noteq> None) rd" using i(2) k(2,3) s(4-7)
    unfolding reading_ok_def rd_def i(4) by simp
  moreover have "ve_ci e2 \<noteq> None \<longleftrightarrow> ve_ci e \<noteq> None" using n by (simp add: e2_def)
  ultimately show ?thesis by blast
qed

lemma push_trade_inv:
  assumes "erf_range erf" "engine_inv e" "small v"
  shows "\<exists>e' out. push_trade erf e p v t = Some (e', out) \<and> engine_inv e' \<and>
    pred_option (reading_ok (ve_ci e \<noteq> None)) out \<and> (ve_ci e' \<noteq> None \<longleftrightarrow> ve_ci e \<noteq> None)"
proof -
  obtain b out where b: "VolumeBucketer_push (ve_bucketer e) p v t = (b, out)" by force
  have "bucketer_inv (ve_bucketer e)" using assms(2) by (simp add: engine_inv_def)
  note i = bucketer_push_inv [OF this assms(3) b]
  have e: "engine_inv (e\<lparr>ve_bucketer := b\<rparr>)" using assms(2) i(1) by (simp add: engine_inv_def)
  show ?thesis
  proof (cases out)
    case None
    then show ?thesis using e by (simp add: push_trade_def b)
  next
    case (Some c)
    then have c: "f64_lt f64_zero (cb_volume c)" "capped 2 (cb_volume c)" using i(2) by blast+
    from on_bucket_closed_inv [OF assms(1) e c] Some show ?thesis by (auto simp: push_trade_def b)
  qed
qed

definition config_bounded :: "vpin_engine_config \<Rightarrow> bool" where
  "config_bounded cfg \<longleftrightarrow> small (vc_bucket_volume cfg) \<and> vc_vpin_window cfg \<le> 2 ^ 52 \<and>
     pred_option (\<lambda>w. w < 2 ^ 64) (vc_cdf_window cfg) \<and>
     pred_option (\<lambda>c. ci_bootstrap_samples c \<le> 2 ^ 53) (vc_confidence_interval cfg)"

lemma fresh_engine_inv: "config_ok cfg \<Longrightarrow> config_bounded cfg \<Longrightarrow> engine_inv (fresh_engine cfg)"
  by (cases "vc_cdf_window cfg"; cases "vc_confidence_interval cfg")
    (auto simp: config_ok_def config_bounded_def engine_inv_def fresh_engine_def bucketer_inv_def
      ci_inv_def cdf_inv_def f64_lt_le)

lemma engine_run_inv:
  assumes "erf_range erf" "engine_inv e" "\<forall>(p, v, t) \<in> set ts. small v"
  shows "\<exists>e' rs. engine_run erf e ts = Some (e', rs) \<and> engine_inv e' \<and>
    (\<forall>r \<in> set rs. reading_ok (ve_ci e \<noteq> None) r)"
  using assms(2,3)
proof (induction ts arbitrary: e)
  case (Cons x ts)
  obtain p v t where x: "x = (p, v, t)" by (cases x)
  have "small v" using Cons.prems(2) by (simp add: x)
  from push_trade_inv [OF assms(1) Cons.prems(1) this, of p t]
  obtain e1 out where p: "push_trade erf e p v t = Some (e1, out)" "engine_inv e1"
    "pred_option (reading_ok (ve_ci e \<noteq> None)) out" "ve_ci e1 \<noteq> None \<longleftrightarrow> ve_ci e \<noteq> None" by blast
  from Cons.IH [OF p(2)] Cons.prems(2) obtain e2 rs where "engine_run erf e1 ts = Some (e2, rs)"
    "engine_inv e2" "\<forall>r \<in> set rs. reading_ok (ve_ci e1 \<noteq> None) r" by auto
  then show ?case using p by (auto simp: x split: option.splits)
qed simp

text \<open>C2: the headline guarantee, bit for bit. An accepted configuration (windows that fit in memory,
  bucket volume at most \<open>2 ^ 900\<close>) run on any tape whose volumes are zero or more and at most
  \<open>2 ^ 900\<close>, whatever its prices (NaN and infinities included), never panics, and in every reading
  the VPIN value, its percentile rank and both interval bounds lie in \<open>[0, 1]\<close>; a rank is only given
  with a value, and the bounds exactly with a value and a configured interval.\<close>

theorem engine_readings_bounded:
  assumes "erf_range erf" "VpinEngine_new cfg = Inr e" "config_bounded cfg"
    "\<forall>(p, v, t) \<in> set ts. small v"
  shows "\<exists>e' rs. engine_run erf e ts = Some (e', rs) \<and>
    (\<forall>r \<in> set rs. reading_ok (vc_confidence_interval cfg \<noteq> None) r)"
proof -
  have "config_ok cfg" "e = fresh_engine cfg"
    using assms(2) VpinEngine_new_Inr by blast+
  moreover have "ve_ci (fresh_engine cfg) \<noteq> None \<longleftrightarrow> vc_confidence_interval cfg \<noteq> None"
    by (simp add: fresh_engine_def)
  ultimately show ?thesis
    using engine_run_inv [OF assms(1) fresh_engine_inv [OF _ assms(3)] assms(4)] by auto
qed

definition cfg_small :: vpin_engine_config where
  "cfg_small = \<lparr>vc_bucket_volume = f64_of_nat 100, vc_sigma_window = 2, vc_vpin_window = 1,
     vc_cdf_window = Some 2, vc_confidence_interval = None\<rparr>"

lemma cfg_small_ok: "config_ok cfg_small" "config_bounded cfg_small"
  by (simp_all add: config_ok_def config_bounded_def cfg_small_def capped_def f64_of_nat_finite
      f64_of_nat_pos uval_f64_of_nat)

lemma cfg_small_new: "VpinEngine_new cfg_small = Inr (fresh_engine cfg_small)"
  using cfg_small_ok(1) by (simp add: VpinEngine_new_Inr)

theorem engine_readings_bounded_witness:
  "\<exists>e' rs. engine_run erf_sign (fresh_engine cfg_small) tape3 = Some (e', rs) \<and>
    (\<forall>r \<in> set rs. reading_ok False r)"
proof -
  have "\<forall>(p, v, t) \<in> set tape3. small v"
    by (simp add: tape3_def capped_def f64_of_nat_finite uval_f64_of_nat)
  from engine_readings_bounded [OF erf_sign_range cfg_small_new cfg_small_ok(2) this]
  show ?thesis by (simp add: cfg_small_def)
qed

subsection \<open>The engine implements the specification\<close>

type_synonym reading_core = "u64 \<times> u64 \<times> u32 \<times> f64 option \<times> f64 option"

definition reading_core :: "vpin_reading \<Rightarrow> reading_core" where
  "reading_core r = (vr_bucket_id r, vr_ts_close_ns r, vr_trades_in_bucket r, vr_vpin r, vr_vpin_cdf r)"

fun readings_of :: "(f64 \<Rightarrow> f64) \<Rightarrow> vpin_engine_config \<Rightarrow> closed_bucket list \<Rightarrow> closed_bucket list \<Rightarrow>
    reading_core list" where
  "readings_of erf cfg earlier [] = []"
| "readings_of erf cfg earlier (c # cs) =
     (cb_bucket_id c, cb_ts_close_ns c, cb_trade_count c,
      vpin_of erf (vc_sigma_window cfg) (vc_vpin_window cfg) earlier c, cdf_of erf cfg earlier c)
     # readings_of erf cfg (earlier @ [c]) cs"

lemma ci_step_config:
  "ci_step ci ps vpin = Some (ci', low, high) \<Longrightarrow> map_option fst ci' = map_option fst ci"
  by (auto simp: ci_step_def split: option.splits prod.splits)

lemma on_bucket_closed_tracks:
  assumes ok: "config_ok cfg" and t: "tracks erf cfg bs e"
    and r: "on_bucket_closed erf e c = Some (e', r)"
  shows "tracks erf cfg (bs @ [c]) e'" "[reading_core r] = readings_of erf cfg bs [c]"
    "ve_bucketer e' = ve_bucketer e"
proof -
  define e1 where "e1 = e\<lparr>ve_imbalances := last_n (vc_vpin_window cfg)
    (collect (pair_of erf (vc_sigma_window cfg)) (bs @ [c]))\<rparr>"
  let ?v = "vpin_of erf (vc_sigma_window cfg) (vc_vpin_window cfg)"
  have u: "update_vpin erf e c (RollingSigma_current (ve_sigma e)) = (e1, ?v bs c)"
    using update_vpin_tracks [OF ok t, of c] by (metis e1_def prod.collapse)
  have k: "cdf_step (ve_cdf e1) (?v bs c) = (map_option (\<lambda>w. feed EmpiricalCdf_push \<lparr>ec_window = w, ec_buf = []\<rparr>
      (collect ?v (bs @ [c]))) (vc_cdf_window cfg), cdf_of erf cfg bs c)"
    using cdf_step_tracks [OF ok t, of c] by (simp add: e1_def)
  obtain ci low high where s: "ci_step (ve_ci e1) (ve_imbalances e1) (?v bs c) = Some (ci, low, high)"
    using r by (auto simp: on_bucket_closed_def u k split: option.splits)
  have e': "e' = e1\<lparr>ve_sigma := fst (RollingSigma_push (ve_sigma e1) (cb_delta_p c)),
      ve_cdf := map_option (\<lambda>w. feed EmpiricalCdf_push \<lparr>ec_window = w, ec_buf = []\<rparr>
        (collect ?v (bs @ [c]))) (vc_cdf_window cfg), ve_ci := ci\<rparr>"
    and rd: "r = \<lparr>vr_bucket_id = cb_bucket_id c, vr_ts_close_ns = cb_ts_close_ns c,
      vr_trades_in_bucket = cb_trade_count c, vr_vpin = ?v bs c, vr_vpin_cdf = cdf_of erf cfg bs c,
      vr_vpin_ci_low = low, vr_vpin_ci_high = high\<rparr>"
    using r by (simp_all add: on_bucket_closed_def u k s)
  show "tracks erf cfg (bs @ [c]) e'" using t ci_step_config [OF s]
    by (simp add: tracks_def e' e1_def feed_snoc)
  show "[reading_core r] = readings_of erf cfg bs [c]" by (simp add: rd reading_core_def)
  show "ve_bucketer e' = ve_bucketer e" by (simp add: e' e1_def)
qed

lemma engine_run_tracks:
  assumes "config_ok cfg"
  shows "tracks erf cfg bs e \<Longrightarrow> engine_run erf e ts = Some (e', rs) \<Longrightarrow>
    map reading_core rs = readings_of erf cfg bs (snd (bucketer_run (ve_bucketer e) ts)) \<and>
    tracks erf cfg (bs @ snd (bucketer_run (ve_bucketer e) ts)) e'"
proof (induction ts arbitrary: e bs rs)
  case (Cons x ts)
  obtain p v t where x: "x = (p, v, t)" by (cases x)
  obtain b out where b: "VolumeBucketer_push (ve_bucketer e) p v t = (b, out)" by force
  obtain e1 o1 rs1 where s: "push_trade erf e p v t = Some (e1, o1)" "engine_run erf e1 ts = Some (e', rs1)"
    "rs = (case o1 of None \<Rightarrow> rs1 | Some r \<Rightarrow> r # rs1)"
    using Cons.prems(2) by (auto simp: x split: option.splits)
  show ?case
  proof (cases out)
    case None
    then have e1: "e1 = e\<lparr>ve_bucketer := b\<rparr>" "o1 = None" using s(1) by (simp_all add: push_trade_def b)
    show ?thesis using Cons.IH [OF _ s(2), of bs] Cons.prems(1) s(3)
      by (simp add: e1 x b None split: prod.splits)
  next
    case (Some c)
    then obtain r where r: "on_bucket_closed erf (e\<lparr>ve_bucketer := b\<rparr>) c = Some (e1, r)" "o1 = Some r"
      using s(1) by (auto simp: push_trade_def b)
    have "tracks erf cfg bs (e\<lparr>ve_bucketer := b\<rparr>)" using Cons.prems(1) by simp
    note k = on_bucket_closed_tracks [OF assms this r(1)]
    have be: "ve_bucketer e1 = b" using k(3) by simp
    have o: "snd (bucketer_run (ve_bucketer e) (x # ts)) = c # snd (bucketer_run b ts)"
      by (simp add: x b Some split: prod.splits)
    show ?thesis using Cons.IH [OF k(1) s(2)] k(2) s(3) unfolding be o
      by (simp add: r(2))
  qed
qed simp

text \<open>C1: functional correctness of the engine: on any tape it gets through, it emits one reading per
  closed bucket, in order, with the bucket's id, closing time and trade count; the VPIN value is the
  ratio of sums over the last \<open>vpin_window\<close> classified buckets, each classified with the sigma of the
  \<open>sigma_window\<close> buckets strictly before it, and the percentile is the rank of that value among the
  last \<open>cdf_window\<close> values; each is missing exactly during its warm-up or when the bucket cannot be
  classified.\<close>

theorem engine_run_spec:
  assumes "VpinEngine_new cfg = Inr e" "engine_run erf e ts = Some (e', rs)"
  shows "map reading_core rs = readings_of erf cfg [] (snd (bucketer_run (ve_bucketer e) ts))"
proof -
  have "config_ok cfg" "e = fresh_engine cfg"
    using assms(1) VpinEngine_new_Inr by blast+
  then show ?thesis using engine_run_tracks [OF _ tracks_fresh] assms(2) by blast
qed

theorem engine_run_spec_witness:
  "\<exists>e' r. engine_run erf_sign (fresh_engine cfg_small) tape3 = Some (e', [r]) \<and>
    reading_core r = (0, 2, 2, None, None)"
proof -
  obtain e' rs where run: "engine_run erf_sign (fresh_engine cfg_small) tape3 = Some (e', rs)"
    using engine_run_inv [OF erf_sign_range fresh_engine_inv [OF cfg_small_ok], of tape3]
    by (auto simp: tape3_def capped_def f64_of_nat_finite uval_f64_of_nat)
  have b: "ve_bucketer (fresh_engine cfg_small) = bucketer_100"
    by (simp add: fresh_engine_def cfg_small_def bucketer_100_def)
  have "map reading_core rs = [(0, 2, 2, None, None)]"
    using engine_run_spec [OF cfg_small_new run] unfolding b tape3_run
    by (simp add: vpin_of_def pair_of_def sigma_after_def cdf_of_def cfg_small_def)
  then show ?thesis using run by auto
qed

subsection \<open>A flat market\<close>

text \<open>a reading can be without a VPIN value after warm-up: when the last \<open>sigma_window\<close> buckets
  closed at unchanged prices, sigma is zero, the next bucket is not classified whatever it brings,
  and it leaves the VPIN window as it was.\<close>

theorem flat_market_no_vpin:
  assumes "config_ok cfg" "tracks erf cfg bs e" "vc_sigma_window cfg < 2 ^ 64"
    "vc_sigma_window cfg \<le> length bs"
    "\<forall>b \<in> set (last_n (vc_sigma_window cfg) bs). cb_delta_p b = f64_zero"
    "on_bucket_closed erf e c = Some (e', r)"
  shows "vr_vpin r = None \<and> ve_imbalances e' = ve_imbalances e"
proof -
  let ?w = "vc_sigma_window cfg"
  have w: "2 \<le> ?w" using assms(1) by (simp add: config_ok_def)
  have "last_n ?w (map cb_delta_p bs) = map cb_delta_p (last_n ?w bs)" by (simp add: last_n_def drop_map)
  also have "\<dots> = replicate ?w f64_zero"
    using assms(4,5) by (intro replicate_eqI) auto
  finally have "sigma_after ?w bs = Some f64_zero"
    using assms(4) flat_std_zero [OF w assms(3)] by (simp add: sigma_after_def)
  then have p: "pair_of erf ?w bs c = None"
    by (simp add: pair_of_def bucket_imbalance_def classify_def buy_fraction_def f64_lt_def)
  note t = on_bucket_closed_tracks [OF assms(1,2,6)]
  show ?thesis using t(1,2) assms(2) p
    by (auto simp: tracks_def collect_snoc reading_core_def vpin_of_def)
qed

lemma on_bucket_closed_no_ci:
  assumes "ve_ci e = None" shows "\<exists>e' r. on_bucket_closed erf e c = Some (e', r)"
proof -
  have "ve_ci (fst (update_vpin erf e c s)) = None" for s
    using assms by (simp add: update_vpin_def Let_def split: option.splits)
  moreover have "ci_step None ps v = Some (None, None, None)" for ps v
    by (simp add: ci_step_def split: option.splits)
  ultimately show ?thesis by (simp add: on_bucket_closed_def split_beta)
qed

definition flat_buckets :: "closed_bucket list" where
  "flat_buckets = replicate 2 \<lparr>cb_bucket_id = 0, cb_delta_p = f64_zero, cb_volume = f64_one,
     cb_last_price = f64_one, cb_trade_count = 1, cb_ts_close_ns = 1\<rparr>"

definition flat_engine :: vpin_engine where
  "flat_engine = (fresh_engine cfg_small)\<lparr>ve_sigma :=
     feed RollingSigma_push (ve_sigma (fresh_engine cfg_small)) (map cb_delta_p flat_buckets)\<rparr>"

lemma flat_engine_tracks: "tracks erf cfg_small flat_buckets flat_engine"
proof -
  have "collect (pair_of erf 2) flat_buckets = []" "collect (vpin_of erf 2 1) flat_buckets = []"
    by (simp_all add: collect_def flat_buckets_def numeral_2_eq_2 pair_of_def vpin_of_def sigma_after_def)
  then show ?thesis
    by (simp add: tracks_def flat_engine_def cfg_small_def fresh_engine_def last_n_def)
qed

theorem flat_market_no_vpin_witness:
  "\<exists>e' r. on_bucket_closed erf_sign flat_engine (hd flat_buckets) = Some (e', r) \<and> vr_vpin r = None"
proof -
  have "ve_ci flat_engine = None" by (simp add: flat_engine_def fresh_engine_def cfg_small_def)
  then obtain e' r where r: "on_bucket_closed erf_sign flat_engine (hd flat_buckets) = Some (e', r)"
    by (auto dest: on_bucket_closed_no_ci [of _ erf_sign "hd flat_buckets"])
  have "\<forall>b \<in> set (last_n (vc_sigma_window cfg_small) flat_buckets). cb_delta_p b = f64_zero"
    by (simp add: last_n_def cfg_small_def flat_buckets_def numeral_2_eq_2)
  moreover have "vc_sigma_window cfg_small < 2 ^ 64" "vc_sigma_window cfg_small \<le> length flat_buckets"
    by (simp_all add: cfg_small_def flat_buckets_def)
  ultimately show ?thesis
    using flat_market_no_vpin [OF cfg_small_ok(1) flat_engine_tracks _ _ _ r] r by blast
qed

end
