(* ===== verification/Engine_Types.thy ===== *)
theory Engine_Types
  imports Engine
begin

text \<open>
  The shape of a running \<open>VpinEngine\<close> and of its readings, as a typing against the configuration: which
  windows the buffers have, how far they may grow, which optional parts exist. Every trade, whatever its
  three numbers are, is accepted by a typed engine and leaves it typed (progress and preservation), so
  the engine neither panics nor outgrows its windows on any tape.
\<close>

subsection \<open>The typing\<close>

definition bucketer_typed :: "vpin_engine_config \<Rightarrow> volume_bucketer \<Rightarrow> bool" where
  "bucketer_typed cfg b \<longleftrightarrow> vb_target_volume b = vc_bucket_volume cfg \<and> (vb_started b \<longleftrightarrow> vb_prev_close b \<noteq> None)"

definition sigma_typed :: "usize \<Rightarrow> rolling_sigma \<Rightarrow> bool" where
  "sigma_typed w s \<longleftrightarrow> rs_window s = w \<and> length (rs_buf s) \<le> w \<and> (rs_current s = None \<longleftrightarrow> length (rs_buf s) < w)"

definition cdf_typed :: "usize option \<Rightarrow> empirical_cdf option \<Rightarrow> bool" where
  "cdf_typed w c \<longleftrightarrow> map_option ec_window c = w \<and> pred_option (\<lambda>c. length (ec_buf c) \<le> ec_window c) c"

definition engine_typed :: "vpin_engine_config \<Rightarrow> vpin_engine \<Rightarrow> bool" where
  "engine_typed cfg e \<longleftrightarrow> bucketer_typed cfg (ve_bucketer e) \<and> sigma_typed (vc_sigma_window cfg) (ve_sigma e) \<and>
     ve_vpin_window e = vc_vpin_window cfg \<and> length (ve_imbalances e) \<le> vc_vpin_window cfg \<and>
     cdf_typed (vc_cdf_window cfg) (ve_cdf e) \<and> map_option fst (ve_ci e) = vc_confidence_interval cfg"

text \<open>A percentile only with a score and a window for it, an interval exactly with a score and a
  configuration for it, and never one bound of it alone.\<close>

definition reading_typed :: "vpin_engine_config \<Rightarrow> vpin_reading \<Rightarrow> bool" where
  "reading_typed cfg r \<longleftrightarrow>
     (vr_vpin_cdf r \<noteq> None \<longrightarrow> vr_vpin r \<noteq> None \<and> vc_cdf_window cfg \<noteq> None) \<and>
     (vr_vpin_ci_low r \<noteq> None \<longleftrightarrow> vr_vpin r \<noteq> None \<and> vc_confidence_interval cfg \<noteq> None) \<and>
     (vr_vpin_ci_high r \<noteq> None \<longleftrightarrow> vr_vpin_ci_low r \<noteq> None)"

text \<open>Configurations that fit a 64-bit machine and whose resamples stay countable in binary64.\<close>

definition config_fits :: "vpin_engine_config \<Rightarrow> bool" where
  "config_fits cfg \<longleftrightarrow> config_ok cfg \<and> vc_vpin_window cfg < 2 ^ 64 \<and>
     pred_option (\<lambda>c. ci_bootstrap_samples c \<le> 2 ^ 53) (vc_confidence_interval cfg)"

lemmas typed_defs = engine_typed_def bucketer_typed_def sigma_typed_def cdf_typed_def

subsection \<open>The resampling never indexes out of range, whatever the window holds\<close>

lemma percentile_None_length:
  "length xs = length ys \<Longrightarrow> percentile xs p = None \<longleftrightarrow> percentile ys p = None"
proof -
  assume l: "length xs = length ys"
  have i: "index_of xs k = None \<longleftrightarrow> index_of ys k = None" for k using l by (simp add: index_of_def)
  have "percentile_at xs r lo hi = None \<longleftrightarrow> percentile_at ys r lo hi = None" for r lo hi
    using i [of lo] i [of hi] by (auto simp: percentile_at_def split: option.splits)
  moreover have "xs = [] \<longleftrightarrow> ys = []" using l by auto
  ultimately show ?thesis using l i [of 0] by (simp add: percentile_def)
qed

lemma percentile_total:
  assumes "xs \<noteq> []" "length xs \<le> 2 ^ 53" "in_unit p" shows "percentile xs p \<noteq> None"
proof -
  have "in_unit f64_zero" by (simp add: in_unit_def f64_lt_le)
  then have "\<forall>x \<in> set (replicate (length xs) f64_zero). in_unit x" by simp
  from percentile_unit [OF this, of p] assms show ?thesis
    using percentile_None_length [of xs "replicate (length xs) f64_zero" p] by auto
qed

lemma bootstrap_ci_total:
  assumes "window \<noteq> []" "length window < 2 ^ 64" "ci_ok cfg" "ci_bootstrap_samples cfg \<le> 2 ^ 53"
  shows "bootstrap_ci window cfg rng \<noteq> None"
proof -
  obtain xs rng' where d: "draw_samples window (ci_bootstrap_samples cfg) rng = Some (xs, rng')"
    "length xs = ci_bootstrap_samples cfg"
    using draw_samples_drawn [OF assms(1,2), of "ci_bootstrap_samples cfg" rng] by auto
  let ?ys = "sort_key f64_total_key xs"
  have ys: "?ys \<noteq> []" "length ?ys \<le> 2 ^ 53" using d(2) assms(3,4) by (auto simp: ci_ok_def simp flip: length_0_conv)
  have c: "f64_lt f64_zero (ci_confidence_level cfg)" "f64_lt (ci_confidence_level cfg) f64_one"
    using assms(3) by (simp_all add: ci_ok_def)
  show ?thesis
    using percentile_total [OF ys tail_levels(1) [OF c]] percentile_total [OF ys tail_levels(2) [OF c]]
    by (auto simp: bootstrap_ci_def d(1) Let_def)
qed

subsection \<open>One step\<close>

lemma bucketer_push_typed:
  assumes "bucketer_typed cfg b" "VolumeBucketer_push b p v t = (b', out)"
  shows "bucketer_typed cfg b'"
  using assms by (auto simp: VolumeBucketer_push_def bucketer_typed_def Let_def split: if_splits)

lemma sigma_push_typed:
  assumes "sigma_typed w s" "0 < w" shows "sigma_typed w (fst (RollingSigma_push s x))"
  using assms length_window_push [of "rs_buf s" w x]
  by (auto simp: sigma_typed_def RollingSigma_push_def Let_def)

lemma cdf_step_typed:
  assumes "cdf_typed w c" "pred_option (\<lambda>w. 0 < w) w" "cdf_step c vpin = (c', r)"
  shows "cdf_typed w c'" "r \<noteq> None \<Longrightarrow> vpin \<noteq> None \<and> w \<noteq> None"
proof -
  show "cdf_typed w c'" using assms
    by (auto simp: cdf_typed_def cdf_step_def EmpiricalCdf_push_def Let_def length_window_push split: option.splits)
  show "vpin \<noteq> None \<and> w \<noteq> None" if "r \<noteq> None"
    using that assms(1,3) by (auto simp: cdf_step_def cdf_typed_def split: option.splits)
qed

lemma ci_step_typed:
  assumes "map_option fst c = cfg" "pred_option (\<lambda>c. ci_ok c \<and> ci_bootstrap_samples c \<le> 2 ^ 53) cfg"
    and "vpin \<noteq> None \<Longrightarrow> window \<noteq> []" "length window < 2 ^ 64"
  shows "\<exists>c' low high. ci_step c window vpin = Some (c', low, high) \<and> map_option fst c' = cfg \<and>
    (low \<noteq> None \<longleftrightarrow> vpin \<noteq> None \<and> cfg \<noteq> None) \<and> (high \<noteq> None \<longleftrightarrow> low \<noteq> None)"
proof (cases "vpin = None \<or> c = None")
  case True
  then show ?thesis using assms(1) by (auto simp: ci_step_def split: option.split)
next
  case False
  then obtain v d rng where c: "vpin = Some v" "c = Some (d, rng)" by auto
  then have "bootstrap_ci window d rng \<noteq> None" using assms by (intro bootstrap_ci_total) auto
  then show ?thesis using c assms(1) by (auto simp: ci_step_def)
qed

lemma update_vpin_typed:
  assumes "engine_typed cfg e" "0 < vc_vpin_window cfg" "update_vpin erf e c sigma = (e', vpin)"
  shows "engine_typed cfg e'" "vpin \<noteq> None \<Longrightarrow> ve_imbalances e' \<noteq> []"
proof -
  show "engine_typed cfg e'" using assms length_window_push [of "ve_imbalances e" "vc_vpin_window cfg"]
    by (auto simp: update_vpin_def typed_defs Let_def split: option.splits)
  show "ve_imbalances e' \<noteq> []" if "vpin \<noteq> None"
    using that assms(3) by (auto simp: update_vpin_def Let_def split: option.splits)
qed

lemma on_bucket_closed_typed:
  assumes "engine_typed cfg e" "config_fits cfg"
  shows "\<exists>e' r. on_bucket_closed erf e c = Some (e', r) \<and> engine_typed cfg e' \<and> reading_typed cfg r"
proof -
  have pos: "0 < vc_vpin_window cfg" "0 < vc_sigma_window cfg" "pred_option (\<lambda>w. 0 < w) (vc_cdf_window cfg)"
    "pred_option (\<lambda>c. ci_ok c \<and> ci_bootstrap_samples c \<le> 2 ^ 53) (vc_confidence_interval cfg)"
    using assms(2) by (auto simp: config_fits_def config_ok_def option.pred_set)
  obtain e1 vpin where u: "update_vpin erf e c (RollingSigma_current (ve_sigma e)) = (e1, vpin)" by force
  note e1 = update_vpin_typed [OF assms(1) pos(1) u]
  obtain cdf r where k: "cdf_step (ve_cdf e1) vpin = (cdf, r)" by force
  have t1: "cdf_typed (vc_cdf_window cfg) (ve_cdf e1)" "map_option fst (ve_ci e1) = vc_confidence_interval cfg"
    "sigma_typed (vc_sigma_window cfg) (ve_sigma e1)" "length (ve_imbalances e1) < 2 ^ 64"
    using e1(1) assms(2) by (auto simp: engine_typed_def config_fits_def)
  note cd = cdf_step_typed [OF t1(1) pos(3) k]
  obtain ci low high where ci: "ci_step (ve_ci e1) (ve_imbalances e1) vpin = Some (ci, low, high)"
    "map_option fst ci = vc_confidence_interval cfg"
    "low \<noteq> None \<longleftrightarrow> vpin \<noteq> None \<and> vc_confidence_interval cfg \<noteq> None" "high \<noteq> None \<longleftrightarrow> low \<noteq> None"
    using ci_step_typed [OF t1(2) pos(4) e1(2) t1(4)] by blast
  show ?thesis using e1(1) cd ci sigma_push_typed [OF t1(3) pos(2)]
    by (simp add: on_bucket_closed_def u k engine_typed_def reading_typed_def)
qed

lemma push_trade_typed:
  assumes "engine_typed cfg e" "config_fits cfg"
  shows "\<exists>e' out. push_trade erf e p v t = Some (e', out) \<and> engine_typed cfg e' \<and> pred_option (reading_typed cfg) out"
proof -
  obtain b out where p: "VolumeBucketer_push (ve_bucketer e) p v t = (b, out)" by force
  have b: "engine_typed cfg (e\<lparr>ve_bucketer := b\<rparr>)"
    using assms(1) bucketer_push_typed [OF _ p] by (simp add: engine_typed_def)
  show ?thesis
  proof (cases out)
    case (Some c)
    then show ?thesis using on_bucket_closed_typed [OF b assms(2), of erf c]
      by (auto simp: push_trade_def p intro!: exI [of _ "Some _"])
  qed (use b in \<open>simp add: push_trade_def p\<close>)
qed

lemma engine_run_typed:
  assumes "config_fits cfg"
  shows "engine_typed cfg e \<Longrightarrow> \<exists>e' rs. engine_run erf e ts = Some (e', rs) \<and> engine_typed cfg e' \<and>
    (\<forall>r \<in> set rs. reading_typed cfg r)"
proof (induction ts arbitrary: e)
  case (Cons x ts)
  obtain p v t where x: "x = (p, v, t)" by (cases x)
  obtain e1 out where s: "push_trade erf e p v t = Some (e1, out)" "engine_typed cfg e1" "pred_option (reading_typed cfg) out"
    using push_trade_typed [OF Cons.prems assms] by blast
  show ?case using Cons.IH [OF s(2)] s(1,3) by (auto simp: x split: option.split)
qed simp

lemma fresh_engine_typed: "config_ok cfg \<Longrightarrow> engine_typed cfg (fresh_engine cfg)"
  by (cases "vc_cdf_window cfg"; cases "vc_confidence_interval cfg")
    (auto simp: typed_defs fresh_engine_def config_ok_def)



end
