(* ===== verification/Strings.thy ===== *)
theory Strings
  imports Prelude
begin

text \<open>
  The operations of \<open>str\<close> and the integer parsing of the Rust standard library that the code uses. A
  \<open>str\<close> is the list of its code points; \<open>utf8_len\<close> is its length in bytes, which is what \<open>len\<close> counts.
\<close>

subsection \<open>Text\<close>

type_synonym str = "nat list"

definition str_of :: "string \<Rightarrow> str" where
  "str_of cs = map of_char cs"

text \<open>\<open>char::is_whitespace\<close>: the code points with the Unicode property White\_Space.\<close>

definition white_space :: "nat \<Rightarrow> bool" where
  "white_space c \<longleftrightarrow> 9 \<le> c \<and> c \<le> 13 \<or> c = 32 \<or> c = 0x85 \<or> c = 0xA0 \<or> c = 0x1680 \<or>
     0x2000 \<le> c \<and> c \<le> 0x200A \<or> c = 0x2028 \<or> c = 0x2029 \<or> c = 0x202F \<or> c = 0x205F \<or> c = 0x3000"

definition trim :: "str \<Rightarrow> str" where
  "trim s = rev (dropWhile white_space (rev (dropWhile white_space s)))"

definition utf8_width :: "nat \<Rightarrow> nat" where
  "utf8_width c = (if c < 0x80 then 1 else if c < 0x800 then 2 else if c < 0x10000 then 3 else 4)"

definition utf8_len :: "str \<Rightarrow> nat" where
  "utf8_len s = sum_list (map utf8_width s)"

definition starts_with :: "str \<Rightarrow> str \<Rightarrow> bool" where
  "starts_with s p \<longleftrightarrow> take (length p) s = p"

definition strip_prefix :: "str \<Rightarrow> str \<Rightarrow> str option" where
  "strip_prefix p s = (if starts_with s p then Some (drop (length p) s) else None)"

text \<open>\<open>split_once\<close>: around the first occurrence of a character.\<close>

fun split_once :: "nat \<Rightarrow> str \<Rightarrow> (str \<times> str) option" where
  "split_once c [] = None"
| "split_once c (d # s) = (if d = c then Some ([], s)
     else case split_once c s of None \<Rightarrow> None | Some (a, b) \<Rightarrow> Some (d # a, b))"

definition ascii_lower :: "nat \<Rightarrow> nat" where
  "ascii_lower c = (if 65 \<le> c \<and> c \<le> 90 then c + 32 else c)"

definition ascii_upper :: "nat \<Rightarrow> nat" where
  "ascii_upper c = (if 97 \<le> c \<and> c \<le> 122 then c - 32 else c)"

abbreviation to_ascii_lowercase :: "str \<Rightarrow> str" where "to_ascii_lowercase \<equiv> map ascii_lower"
abbreviation to_ascii_uppercase :: "str \<Rightarrow> str" where "to_ascii_uppercase \<equiv> map ascii_upper"

lemma ascii_case [simp]:
  "ascii_lower (ascii_lower c) = ascii_lower c" "ascii_upper (ascii_upper c) = ascii_upper c"
  "ascii_lower (ascii_upper c) = ascii_lower c" "ascii_upper (ascii_lower c) = ascii_upper c"
  by (auto simp: ascii_lower_def ascii_upper_def)

lemma split_once_Some: "split_once c s = Some (a, b) \<longleftrightarrow> s = a @ c # b \<and> c \<notin> set a"
proof (induction s arbitrary: a)
  case (Cons d s)
  have "split_once c (d # s) = Some (a, b) \<longleftrightarrow>
      (d = c \<and> a = [] \<and> b = s) \<or> (d \<noteq> c \<and> (\<exists>a'. a = d # a' \<and> split_once c s = Some (a', b)))"
    by (auto split: option.splits)
  then show ?case unfolding Cons by (cases a) auto
qed simp

lemma split_once_None: "split_once c s = None \<longleftrightarrow> c \<notin> set s"
  by (induction s) (auto split: option.splits)

lemma strip_prefix_Some: "strip_prefix p s = Some t \<longleftrightarrow> s = p @ t"
  by (auto simp: strip_prefix_def starts_with_def) (metis append_take_drop_id)

lemma strip_prefix_None: "strip_prefix p s = None \<longleftrightarrow> (\<forall>t. s \<noteq> p @ t)"
  using strip_prefix_Some [of p s] by (metis not_None_eq)

lemma trim_no_space:
  assumes "s = [] \<or> \<not> white_space (hd s) \<and> \<not> white_space (last s)" shows "trim s = s"
proof (cases "s = []")
  case False
  then have "dropWhile white_space s = s" using assms by (cases s) auto
  moreover have "dropWhile white_space (rev s) = rev s"
    using assms False by (metis dropWhile_eq_self_iff hd_rev)
  ultimately show ?thesis by (simp add: trim_def)
qed (simp add: trim_def)

lemma utf8_len_ascii: "\<forall>c \<in> set s. c < 128 \<Longrightarrow> utf8_len s = length s"
  by (induction s) (auto simp: utf8_len_def utf8_width_def)

lemma utf8_len_ge: "length s \<le> utf8_len s"
proof (induction s)
  case (Cons c s)
  have "1 \<le> utf8_width c" by (simp add: utf8_width_def)
  with Cons show ?case by (simp add: utf8_len_def)
qed (simp add: utf8_len_def)

subsection \<open>\<open>u64::from_str\<close>\<close>

definition is_digit :: "nat \<Rightarrow> bool" where
  "is_digit c \<longleftrightarrow> 48 \<le> c \<and> c \<le> 57"

fun parse_digits :: "u64 \<Rightarrow> str \<Rightarrow> u64 option" where
  "parse_digits acc [] = Some acc"
| "parse_digits acc (c # cs) =
     (if \<not> is_digit c then None
      else case checked_mul_u64 acc 10 of None \<Rightarrow> None
        | Some m \<Rightarrow> (case checked_add_u64 m (of_nat (c - 48)) of None \<Rightarrow> None
          | Some a \<Rightarrow> parse_digits a cs))"

definition strip_plus :: "str \<Rightarrow> str" where
  "strip_plus s = (case s of c # cs \<Rightarrow> if c = 43 then cs else s | [] \<Rightarrow> [])"

definition parse_u64 :: "str \<Rightarrow> u64 option" where
  "parse_u64 s = (if strip_plus s = [] then None else parse_digits 0 (strip_plus s))"

definition dec_from :: "nat \<Rightarrow> str \<Rightarrow> nat" where
  "dec_from a ds = foldl (\<lambda>a c. 10 * a + (c - 48)) a ds"

abbreviation dec :: "str \<Rightarrow> nat" where "dec \<equiv> dec_from 0"

lemma dec_from_simps [simp]:
  "dec_from a [] = a" "dec_from a (c # cs) = dec_from (10 * a + (c - 48)) cs"
  by (simp_all add: dec_from_def)

lemma dec_from_append: "dec_from a (xs @ ys) = dec_from (dec_from a xs) ys"
  by (simp add: dec_from_def)

lemma dec_from_split: "dec_from a ds = a * 10 ^ length ds + dec ds"
proof (induction ds arbitrary: a)
  case (Cons c cs)
  have "dec_from a (c # cs) = (10 * a + (c - 48)) * 10 ^ length cs + dec cs"
    using Cons.IH [of "10 * a + (c - 48)"] by simp
  moreover have "dec (c # cs) = (c - 48) * 10 ^ length cs + dec cs"
    using Cons.IH [of "c - 48"] by simp
  ultimately show ?case by (simp add: algebra_simps)
qed simp

lemma dec_from_ge: "a \<le> dec_from a ds"
  using dec_from_split [of a ds] by (metis le_add1 le_trans mult.right_neutral mult_le_mono2 one_le_numeral one_le_power)

lemma dec_lt: "\<forall>c \<in> set ds. is_digit c \<Longrightarrow> dec ds < 10 ^ length ds"
proof (induction ds rule: rev_induct)
  case (snoc c cs)
  then have "dec cs + 1 \<le> 10 ^ length cs" "c - 48 \<le> 9" by (auto simp: is_digit_def)
  then show ?case by (simp add: dec_from_append)
qed simp

lemma dec_zeros: "dec_from a (replicate k 48) = a * 10 ^ k"
  by (induction k arbitrary: a) (simp_all add: algebra_simps)

lemma digit_word: assumes "is_digit c" shows "unat (of_nat (c - 48) :: u64) = c - 48"
proof -
  have "c - 48 < 2 ^ 64" using assms by (auto simp: is_digit_def)
  then show ?thesis by (simp add: unat_of_nat take_bit_nat_eq_self del: of_nat_diff)
qed

lemma parse_digits_Some:
  "parse_digits acc ds = Some n \<longleftrightarrow>
    (\<forall>c \<in> set ds. is_digit c) \<and> dec_from (unat acc) ds < 2 ^ 64 \<and> n = of_nat (dec_from (unat acc) ds)"
proof (induction ds arbitrary: acc)
  case Nil
  then show ?case using unsigned_less [of acc, where 'a = nat] by auto
next
  case (Cons c cs)
  show ?case
  proof (cases "is_digit c \<and> 10 * unat acc + (c - 48) < 2 ^ 64")
    case True
    have d: "unat (of_nat (c - 48) :: u64) = c - 48"
      using True digit_word by blast
    have m: "unat (acc * 10) = unat acc * 10" using True by (simp add: unat_mult_u64_small)
    then have a: "unat (acc * 10 + of_nat (c - 48)) = 10 * unat acc + (c - 48)"
      using True d by (simp add: unat_add_u64_small)
    have "parse_digits acc (c # cs) = parse_digits (acc * 10 + of_nat (c - 48)) cs"
      using True d m by (simp add: checked_mul_u64_def checked_add_u64_def)
    then show ?thesis using Cons.IH a True by simp
  next
    case False
    have "\<not> dec_from (unat acc) (c # cs) < 2 ^ 64" if "is_digit c"
      using False that dec_from_ge [of "10 * unat acc + (c - 48)" cs] by simp
    moreover have "parse_digits acc (c # cs) = None"
    proof (cases "is_digit c \<and> unat acc * 10 < 2 ^ 64")
      case True
      then have "unat (acc * 10) = unat acc * 10" "unat (of_nat (c - 48) :: u64) = c - 48"
        by (simp_all add: unat_mult_u64_small digit_word)
      then show ?thesis using True False by (simp add: checked_mul_u64_def checked_add_u64_def)
    qed (auto simp: checked_mul_u64_def)
    ultimately show ?thesis by auto
  qed
qed

lemma parse_u64_Some:
  "parse_u64 s = Some n \<longleftrightarrow> strip_plus s \<noteq> [] \<and> (\<forall>c \<in> set (strip_plus s). is_digit c) \<and>
    dec (strip_plus s) < 2 ^ 64 \<and> n = of_nat (dec (strip_plus s))"
  by (auto simp: parse_u64_def parse_digits_Some)

lemma parse_u64_digits:
  "s \<noteq> [] \<Longrightarrow> \<forall>c \<in> set s. is_digit c \<Longrightarrow> parse_u64 s = (if dec s < 2 ^ 64 then Some (of_nat (dec s)) else None)"
proof -
  assume s: "s \<noteq> []" "\<forall>c \<in> set s. is_digit c"
  then have "strip_plus s = s" by (cases s) (auto simp: strip_plus_def is_digit_def)
  then show ?thesis using s parse_u64_Some [of s] by (cases "parse_u64 s") auto
qed

end
