(* ===== verification/Trade_Types.thy ===== *)
theory Trade_Types
  imports Strings
begin

text \<open>
  \<open>crates/trade-ingest/src/types.rs\<close> and \<open>error.rs\<close>: trades normalized across venues and the exact
  decimal parser. \<open>Price\<close>, \<open>Qty\<close> and \<open>Symbol\<close> come from the \<open>feedhandler\<close> crate, which is not part of
  the repository: they are the types \<open>'p\<close>, \<open>'q\<close>, \<open>'s\<close>, and the functions the code calls on them are
  the fields of the record \<open>feedhandler\<close>, with what the code relies on as \<open>feedhandler_laws\<close>. Its
  \<open>Exchange\<close> has the three variants that the code matches on without a wildcard.
\<close>

subsection \<open>Data\<close>

datatype exchange = Binance | Bybit | Hyperliquid

datatype taker_side = Buy | Sell

datatype ingest_error = BadDecimal str | WebSocket str | Json str

record ('p, 'q, 's) normalized_trade =
  nt_price :: 'p
  nt_qty :: 'q
  nt_ts_exchange_ns :: u64
  nt_ts_recv_ns :: u64
  nt_symbol :: 's
  nt_exchange :: exchange
  nt_taker_side :: taker_side
  nt_sequence :: u64

record ('p, 'q, 's) feedhandler =
  price_new :: "u64 \<Rightarrow> 'p"
  price_raw :: "'p \<Rightarrow> u64"
  qty_new :: "u64 \<Rightarrow> 'q"
  qty_raw :: "'q \<Rightarrow> u64"
  symbol_from_bytes :: "u8 list \<Rightarrow> 's"
  symbol_as_bytes :: "'s \<Rightarrow> u8 list"
  exchange_code :: "exchange \<Rightarrow> u8"

text \<open>\<open>Price\<close> and \<open>Qty\<close> wrap a raw \<open>u64\<close>; a \<open>Symbol\<close> is 16 bytes and is rebuilt from them; the
  discriminants of \<open>Exchange\<close> are 0, 1 and 2.\<close>

definition feedhandler_laws :: "('p, 'q, 's) feedhandler \<Rightarrow> bool" where
  "feedhandler_laws fh \<longleftrightarrow>
     (\<forall>p. price_new fh (price_raw fh p) = p) \<and> (\<forall>r. price_raw fh (price_new fh r) = r) \<and>
     (\<forall>q. qty_new fh (qty_raw fh q) = q) \<and> (\<forall>r. qty_raw fh (qty_new fh r) = r) \<and>
     (\<forall>s. length (symbol_as_bytes fh s) = 16 \<and> symbol_from_bytes fh (symbol_as_bytes fh s) = s) \<and>
     exchange_code fh Binance = 0 \<and> exchange_code fh Bybit = 1 \<and> exchange_code fh Hyperliquid = 2"

subsection \<open>The decimal parser\<close>

definition parse_fixed8 :: "str \<Rightarrow> ingest_error + u64" where
  "parse_fixed8 s0 =
     (let s = trim s0 in
      if s = [] \<or> starts_with s [45] then Inl (BadDecimal s)
      else case (case split_once 46 s of Some p \<Rightarrow> p | None \<Rightarrow> (s, [])) of (int_part, frac_part) \<Rightarrow>
        if 8 < utf8_len frac_part then Inl (BadDecimal s)
        else case parse_u64 int_part of None \<Rightarrow> Inl (BadDecimal s) | Some int_val0 \<Rightarrow>
          case checked_mul_u64 int_val0 100000000 of None \<Rightarrow> Inl (BadDecimal s) | Some int_val \<Rightarrow>
            if frac_part = [] then Inr int_val
            else case parse_u64 (frac_part @ replicate (8 - utf8_len frac_part) 48) of
                None \<Rightarrow> Inl (BadDecimal s)
              | Some frac_val \<Rightarrow> (case checked_add_u64 int_val frac_val of
                  None \<Rightarrow> Inl (BadDecimal s) | Some r \<Rightarrow> Inr r))"

definition parse_price :: "('p, 'q, 's) feedhandler \<Rightarrow> str \<Rightarrow> ingest_error + 'p" where
  "parse_price fh s = map_sum id (price_new fh) (parse_fixed8 s)"

definition parse_qty :: "('p, 'q, 's) feedhandler \<Rightarrow> str \<Rightarrow> ingest_error + 'q" where
  "parse_qty fh s = map_sum id (qty_new fh) (parse_fixed8 s)"

subsection \<open>Exactness\<close>

abbreviation digits :: "str \<Rightarrow> bool" where "digits s \<equiv> \<forall>c \<in> set s. is_digit c"

lemma digits_no_dot: "digits s \<Longrightarrow> 46 \<notin> set s"
  by (auto simp: is_digit_def)

lemma digit_not_white: "is_digit c \<Longrightarrow> \<not> white_space c"
  by (auto simp: is_digit_def white_space_def)

lemma utf8_len_digits: "digits s \<Longrightarrow> utf8_len s = length s"
  by (rule utf8_len_ascii) (auto simp: is_digit_def)

lemma trim_surrounded:
  assumes "\<forall>c \<in> set a. white_space c" "\<forall>c \<in> set b. white_space c" "t \<noteq> []"
    "\<not> white_space (hd t)" "\<not> white_space (last t)"
  shows "trim (a @ t @ b) = t"
proof -
  have "dropWhile white_space (a @ t @ b) = t @ b"
    using assms(1,3,4) by (cases t) (simp_all add: dropWhile_append2)
  moreover have "dropWhile white_space (rev b @ rev t) = rev t"
    using assms(2,3,5) by (cases t rule: rev_cases) (auto simp: dropWhile_append)
  ultimately show ?thesis by (simp add: trim_def)
qed

text \<open>The decimal text \<open>i.f\<close>, or \<open>i\<close> alone, and its value in units of \<open>10 ^ (-8)\<close>.\<close>

definition decimal_text :: "str \<Rightarrow> str option \<Rightarrow> str" where
  "decimal_text i f = (case f of None \<Rightarrow> i | Some d \<Rightarrow> i @ 46 # d)"

definition frac_digits :: "str option \<Rightarrow> str" where
  "frac_digits f = (case f of None \<Rightarrow> [] | Some d \<Rightarrow> d)"

definition fixed8_units :: "str \<Rightarrow> str option \<Rightarrow> nat" where
  "fixed8_units i f = dec i * 10 ^ 8 + dec (frac_digits f) * 10 ^ (8 - length (frac_digits f))"

lemma split_decimal:
  assumes "digits i"
  shows "(case split_once 46 (decimal_text i f) of Some p \<Rightarrow> p | None \<Rightarrow> (decimal_text i f, [])) =
    (i, frac_digits f)"
  using digits_no_dot [OF assms] split_once_None [of 46 i] split_once_Some [of 46 "i @ 46 # the f" i "the f"]
  by (auto simp: decimal_text_def frac_digits_def split: option.splits)

lemma decimal_text_ends:
  assumes "digits i" "i \<noteq> []" "digits (frac_digits f)"
  shows "decimal_text i f \<noteq> []" "\<not> white_space (hd (decimal_text i f))"
    "\<not> white_space (last (decimal_text i f))" "hd (decimal_text i f) \<noteq> 45"
proof -
  have "\<not> white_space 46" "hd i \<noteq> 45"
    using hd_in_set [OF assms(2)] assms(1) by (auto simp: white_space_def is_digit_def)
  then show "decimal_text i f \<noteq> []" "\<not> white_space (hd (decimal_text i f))"
    "\<not> white_space (last (decimal_text i f))" "hd (decimal_text i f) \<noteq> 45"
    using assms digit_not_white hd_in_set [OF assms(2)] last_in_set [OF assms(2)]
      last_in_set [of "frac_digits f"]
    by (auto simp: decimal_text_def frac_digits_def is_digit_def split: option.splits)
qed

lemma frac_padded:
  assumes "digits f" "length f \<le> 8" "f \<noteq> []"
  shows "parse_u64 (f @ replicate (8 - length f) 48) = Some (of_nat (dec f * 10 ^ (8 - length f)))"
    and "dec f * 10 ^ (8 - length f) < 10 ^ 8"
proof -
  have "dec f * 10 ^ (8 - length f) < 10 ^ length f * 10 ^ (8 - length f)"
    using dec_lt [OF assms(1)] by simp
  also have "\<dots> = 10 ^ 8" using assms(2) by (simp flip: power_add)
  finally show lt: "dec f * 10 ^ (8 - length f) < 10 ^ 8" .
  have "dec (f @ replicate (8 - length f) 48) = dec f * 10 ^ (8 - length f)"
    by (simp add: dec_from_append dec_zeros)
  moreover have "digits (f @ replicate (8 - length f) 48)" using assms(1) by (auto simp: is_digit_def)
  ultimately show "parse_u64 (f @ replicate (8 - length f) 48) = Some (of_nat (dec f * 10 ^ (8 - length f)))"
    using parse_u64_digits [of "f @ replicate (8 - length f) 48"] assms(3) lt by simp
qed

text \<open>The parser on a plain decimal, step by step.\<close>

lemma parse_fixed8_steps:
  assumes "digits i" "i \<noteq> []" "digits (frac_digits f)" "length (frac_digits f) \<le> 8"
    and "\<forall>c \<in> set a. white_space c" "\<forall>c \<in> set b. white_space c"
  shows "parse_fixed8 (a @ decimal_text i f @ b) =
      (case parse_u64 i of None \<Rightarrow> Inl (BadDecimal (decimal_text i f)) | Some int_val0 \<Rightarrow>
        case checked_mul_u64 int_val0 100000000 of None \<Rightarrow> Inl (BadDecimal (decimal_text i f)) | Some int_val \<Rightarrow>
          if frac_digits f = [] then Inr int_val
          else case parse_u64 (frac_digits f @ replicate (8 - length (frac_digits f)) 48) of None \<Rightarrow> Inl (BadDecimal (decimal_text i f))
            | Some frac_val \<Rightarrow> (case checked_add_u64 int_val frac_val of
                None \<Rightarrow> Inl (BadDecimal (decimal_text i f)) | Some r \<Rightarrow> Inr r))"
proof -
  let ?t = "decimal_text i f" and ?d = "frac_digits f"
  note e = decimal_text_ends [OF assms(1-3)]
  have t: "trim (a @ ?t @ b) = ?t" using trim_surrounded [OF assms(5,6) e(1-3)] .
  have m: "\<not> starts_with ?t [45]" using e(1,4) by (cases ?t) (auto simp: starts_with_def)
  have u: "utf8_len ?d = length ?d" using assms(3) by (rule utf8_len_digits)
  show ?thesis unfolding u [symmetric] using assms(4) u by (simp add: parse_fixed8_def Let_def t e(1) m split_decimal [OF assms(1)])
qed

lemma parse_fixed8_decimal:
  assumes "digits i" "i \<noteq> []" "digits (frac_digits f)" "length (frac_digits f) \<le> 8"
    and "\<forall>c \<in> set a. white_space c" "\<forall>c \<in> set b. white_space c"
  shows "parse_fixed8 (a @ decimal_text i f @ b) =
    (if fixed8_units i f < 2 ^ 64 then Inr (of_nat (fixed8_units i f))
     else Inl (BadDecimal (decimal_text i f)))"
proof -
  let ?d = "frac_digits f"
  note p = parse_fixed8_steps [OF assms]
  have i: "parse_u64 i = (if dec i < 2 ^ 64 then Some (of_nat (dec i)) else None)"
    by (rule parse_u64_digits [OF assms(2,1)])
  show ?thesis
  proof (cases "dec i * 10 ^ 8 < 2 ^ 64")
    case False
    then have "\<not> fixed8_units i f < 2 ^ 64" by (simp add: fixed8_units_def)
    moreover have "unat (of_nat (dec i) :: u64) = dec i" if "dec i < 2 ^ 64"
      using that by (simp add: unat_of_nat take_bit_nat_eq_self)
    ultimately show ?thesis using False unfolding p i by (auto simp: checked_mul_u64_def)
  next
    case True
    then have u: "dec i < 2 ^ 64" "unat (of_nat (dec i) :: u64) = dec i"
      by (auto simp: unat_of_nat take_bit_nat_eq_self)
    have c: "checked_mul_u64 (of_nat (dec i)) 100000000 = Some (of_nat (dec i * 10 ^ 8))"
      using True u(2) by (simp add: checked_mul_u64_def)
    show ?thesis
    proof (cases "?d = []")
      case True
      then show ?thesis using \<open>dec i * 10 ^ 8 < 2 ^ 64\<close> u(1) unfolding p i
        by (simp add: c [simplified] fixed8_units_def)
    next
      case False
      define v where "v = dec ?d * 10 ^ (8 - length ?d)"
      note f = frac_padded [OF assms(3,4) False, folded v_def]
      have w: "unat (of_nat v :: u64) = v" "unat (of_nat (dec i * 10 ^ 8) :: u64) = dec i * 10 ^ 8"
        using f(2) True by (simp_all only: unat_of_nat take_bit_nat_eq_self len_of_numeral_defs) auto
      have "checked_add_u64 (of_nat (dec i * 10 ^ 8)) (of_nat v) =
          (if dec i * 10 ^ 8 + v < 2 ^ 64 then Some (of_nat (dec i * 10 ^ 8 + v)) else None)"
        unfolding checked_add_u64_def w by simp
      then show ?thesis using u(1) False unfolding p i
        by (simp add: c [simplified] f(1) fixed8_units_def v_def [symmetric])
    qed
  qed
qed

text \<open>C17: for a plain decimal text (digits, then optionally a point and at most eight digits), with any
  white space around it, the parser returns exactly the value in units of \<open>10 ^ (-8)\<close>, without any
  rounding, when that value fits in a \<open>u64\<close>, and otherwise the error that carries the trimmed text.\<close>

theorem parse_fixed8_exact:
  assumes "digits i" "i \<noteq> []" "digits (frac_digits f)" "length (frac_digits f) \<le> 8"
    and "\<forall>c \<in> set a. white_space c" "\<forall>c \<in> set b. white_space c"
  shows "parse_fixed8 (a @ decimal_text i f @ b) =
    (if fixed8_units i f < 2 ^ 64 then Inr (of_nat (fixed8_units i f))
     else Inl (BadDecimal (decimal_text i f)))"
  using assms by (rule parse_fixed8_decimal)

theorem parse_fixed8_exact_witness:
  "parse_fixed8 (str_of '' 16578.50'') = Inr 1657850000000"
proof -
  let ?i = "str_of ''16578''" and ?f = "Some (str_of ''50'')"
  have "digits ?i" "?i \<noteq> []" "digits (frac_digits ?f)" "length (frac_digits ?f) \<le> 8"
    by (simp_all add: str_of_def is_digit_def frac_digits_def)
  moreover have "\<forall>c \<in> set [32]. white_space c" "\<forall>c \<in> set []. white_space c"
    by (simp_all add: white_space_def)
  ultimately have "parse_fixed8 ([32] @ decimal_text ?i ?f @ []) =
      (if fixed8_units ?i ?f < 2 ^ 64 then Inr (of_nat (fixed8_units ?i ?f))
       else Inl (BadDecimal (decimal_text ?i ?f)))"
    by (rule parse_fixed8_exact)
  moreover have "[32] @ decimal_text ?i ?f @ [] = str_of '' 16578.50''"
    by (simp add: decimal_text_def str_of_def)
  moreover have "fixed8_units ?i ?f = 1657850000000"
    by (simp add: fixed8_units_def frac_digits_def str_of_def)
  ultimately show ?thesis by simp
qed

text \<open>Fixed-width decimal digits, and the text of a raw value: 12 digits, a point, 8 digits.\<close>

fun digits_n :: "nat \<Rightarrow> nat \<Rightarrow> str" where
  "digits_n 0 n = []"
| "digits_n (Suc k) n = digits_n k (n div 10) @ [48 + n mod 10]"

definition show_fixed8 :: "u64 \<Rightarrow> str" where
  "show_fixed8 r = decimal_text (digits_n 12 (unat r div 10 ^ 8)) (Some (digits_n 8 (unat r mod 10 ^ 8)))"

lemma digits_n_facts: "length (digits_n k n) = k" "digits (digits_n k n)" "dec (digits_n k n) = n mod 10 ^ k"
proof -
  show "length (digits_n k n) = k" by (induction k arbitrary: n) simp_all
  show "digits (digits_n k n)"
    by (induction k arbitrary: n) (auto simp: is_digit_def)
  show "dec (digits_n k n) = n mod 10 ^ k"
    by (induction k arbitrary: n) (simp_all add: dec_from_append mod_mult2_eq)
qed

text \<open>every raw value can be written and read back: parsing its fixed-point text returns the same
  64 bits.\<close>

theorem parse_fixed8_roundtrip: "parse_fixed8 (show_fixed8 r) = Inr r"
proof -
  let ?n = "unat r"
  let ?i = "digits_n 12 (?n div 10 ^ 8)" and ?f = "Some (digits_n 8 (?n mod 10 ^ 8))"
  have n: "?n < 2 ^ 64" using unsigned_less [of r, where 'a = nat] by simp
  then have "?n div 10 ^ 8 < 10 ^ 12" by (simp add: div_less_iff_less_mult)
  then have u: "fixed8_units ?i ?f = ?n"
    by (simp add: fixed8_units_def frac_digits_def digits_n_facts)
  have "?i \<noteq> []" using digits_n_facts(1) [of 12] by (metis list.size(3) zero_neq_numeral)
  moreover have "digits (frac_digits ?f)" "length (frac_digits ?f) \<le> 8"
    by (simp_all add: frac_digits_def digits_n_facts)
  ultimately have "parse_fixed8 ([] @ decimal_text ?i ?f @ []) = Inr (of_nat ?n)"
    using parse_fixed8_decimal [OF digits_n_facts(2), of 12 "?n div 10 ^ 8" ?f "[]" "[]"] n unfolding u by simp
  then show ?thesis by (simp add: show_fixed8_def)
qed

text \<open>whatever the text, a failure is the error \<open>BadDecimal\<close> with the trimmed text; and the empty
  text, a leading minus and more than eight bytes of decimals always fail.\<close>

theorem parse_fixed8_errors:
  "(is_err (parse_fixed8 s) \<longrightarrow> parse_fixed8 s = Inl (BadDecimal (trim s))) \<and>
   (trim s = [] \<or> hd (trim s) = 45 \<or> (\<exists>i f. trim s = i @ 46 # f \<and> 46 \<notin> set i \<and> 8 < utf8_len f)
      \<longrightarrow> is_err (parse_fixed8 s))"
proof -
  have h: "hd (trim s) = 45 \<Longrightarrow> trim s \<noteq> [] \<Longrightarrow> starts_with (trim s) [45]"
    by (cases "trim s") (simp_all add: starts_with_def)
  have "split_once 46 (trim s) = Some (i, f)" if "trim s = i @ 46 # f" "46 \<notin> set i" for i f
    using that split_once_Some by simp
  then show ?thesis using h
    by (auto simp: parse_fixed8_def Let_def split: option.splits)
qed

theorem parse_fixed8_errors_witness:
  "parse_fixed8 (str_of '' -5 '') = Inl (BadDecimal (str_of ''-5''))"
proof -
  define s where "s = str_of '' -5 ''"
  have t: "trim s = str_of ''-5''" "hd (str_of ''-5'') = 45"
    by (simp_all add: s_def trim_def str_of_def white_space_def)
  have "is_err (parse_fixed8 s)" using parse_fixed8_errors [of s, THEN conjunct2] unfolding t by blast
  then show ?thesis using parse_fixed8_errors [of s, THEN conjunct1] unfolding t s_def [symmetric] by blast
qed

text \<open>the integer parser of the standard library accepts a leading plus sign, and the fraction is
  parsed with it after padding: a malformed text such as \<open>1.+5\<close> is not refused but read as
  \<open>1.05\<close>, and \<open>1.5\<close> and \<open>+1.5\<close> are the same.\<close>

theorem parse_fixed8_plus:
  "parse_fixed8 (str_of ''1.+5'') = Inr 105000000 \<and> parse_fixed8 (str_of ''1.5'') = Inr 150000000 \<and>
   parse_fixed8 (str_of ''+1.5'') = Inr 150000000"
proof -
  have r: "replicate 6 c = [c, c, c, c, c, c]" "replicate 7 c = [c, c, c, c, c, c, c]" for c :: nat
    by (simp_all add: numeral_eq_Suc)
  show ?thesis
    by (simp add: parse_fixed8_def str_of_def trim_def white_space_def starts_with_def utf8_len_def
        utf8_width_def parse_u64_def strip_plus_def is_digit_def checked_mul_u64_def
        checked_add_u64_def r Let_def)
qed

end
