(* ===== verification/Capture.thy ===== *)
theory Capture
  imports Trade_Types
begin

text \<open>
  \<open>crates/trade-ingest/src/capture.rs\<close>: the capture file format. A file is the list of its bytes,
  \<open>None\<close> when it does not exist. Reading goes through \<open>read\<close> calls that may return any part of what
  was asked for, be interrupted, or fail: \<open>read_event\<close> lists what the calls will deliver. The locale
  \<open>record_codec\<close> is the contract between the record encoding and the framing of the file.
\<close>

subsection \<open>Bytes\<close>

fun le_bytes :: "nat \<Rightarrow> nat \<Rightarrow> u8 list" where
  "le_bytes 0 n = []"
| "le_bytes (Suc k) n = of_nat (n mod 256) # le_bytes k (n div 256)"

fun le_value :: "u8 list \<Rightarrow> nat" where
  "le_value [] = 0"
| "le_value (b # bs) = unat b + 256 * le_value bs"

definition u64_to_le_bytes :: "u64 \<Rightarrow> u8 list" where
  "u64_to_le_bytes w = le_bytes 8 (unat w)"

definition u64_from_le_bytes :: "u8 list \<Rightarrow> u64" where
  "u64_from_le_bytes bs = of_nat (le_value bs)"

lemma length_le_bytes [simp]: "length (le_bytes k n) = k"
  by (induction k arbitrary: n) simp_all

lemma le_value_bytes: "le_value (le_bytes k n) = n mod 256 ^ k"
proof (induction k arbitrary: n)
  case (Suc k)
  have "unat (of_nat (n mod 256) :: u8) = n mod 256" by (simp add: unat_of_nat take_bit_eq_mod)
  then show ?case using Suc by (simp add: mod_mult2_eq)
qed simp

lemma length_u64_bytes [simp]: "length (u64_to_le_bytes w) = 8"
  by (simp add: u64_to_le_bytes_def)

lemma u64_le_roundtrip [simp]: "u64_from_le_bytes (u64_to_le_bytes w) = w"
proof -
  have "unat w < 2 ^ 64" using unsigned_less [of w, where 'a = nat] by simp
  then show ?thesis by (simp add: u64_from_le_bytes_def u64_to_le_bytes_def le_value_bytes)
qed

subsection \<open>The interface: fixed-size records in a byte stream\<close>

text \<open>\<open>frames\<close> cuts a byte stream into records; what is left of the last one is reported by \<open>torn\<close>.\<close>

function frames :: "nat \<Rightarrow> (u8 list \<Rightarrow> 'e + 't) \<Rightarrow> (nat \<Rightarrow> 'e) \<Rightarrow> u8 list \<Rightarrow> ('e + 't) list" where
  "frames n d torn bs =
     (if n = 0 \<or> bs = [] then []
      else if length bs < n then [Inl (torn (length bs))]
      else d (take n bs) # frames n d torn (drop n bs))"
  by pat_completeness auto
termination by (relation "measure (\<lambda>(n, d, torn, bs). length bs)") auto

declare frames.simps [simp del]

locale record_codec =
  fixes enc :: "'t \<Rightarrow> u8 list"
    and decd :: "u8 list \<Rightarrow> 'e + 't"
    and size :: nat
    and torn :: "nat \<Rightarrow> 'e"
    and valid :: "'t \<Rightarrow> bool"
  assumes size_pos: "0 < size"
    and enc_length: "valid t \<Longrightarrow> length (enc t) = size"
    and dec_enc: "valid t \<Longrightarrow> decd (enc t) = Inr t"
begin

lemma frames_Nil: "frames size decd torn [] = []"
  by (simp add: frames.simps)

lemma frames_append:
  assumes "\<forall>t \<in> set ts. valid t"
  shows "frames size decd torn (concat (map enc ts) @ bs) = map Inr ts @ frames size decd torn bs"
  using assms
proof (induction ts)
  case (Cons t ts)
  then have "length (enc t) = size" "decd (enc t) = Inr t" using enc_length dec_enc by simp_all
  then show ?case using Cons size_pos by (subst frames.simps) auto
qed simp

lemma length_stream: "\<forall>t \<in> set ts. valid t \<Longrightarrow> length (concat (map enc ts)) = length ts * size"
  by (induction ts) (simp_all add: enc_length)

text \<open>Any prefix of the stream gives back the records it contains and at most one torn tail.\<close>

lemma frames_prefix:
  assumes "\<forall>t \<in> set ts. valid t" "k \<le> length (concat (map enc ts))"
  shows "frames size decd torn (take k (concat (map enc ts))) =
    map Inr (take (k div size) ts) @ (if k mod size = 0 then [] else [Inl (torn (k mod size))])"
  using assms
proof (induction ts arbitrary: k)
  case Nil
  then show ?case by (simp add: frames_Nil)
next
  case (Cons t ts)
  have t: "length (enc t) = size" "valid t" using Cons.prems(1) enc_length by simp_all
  show ?case
  proof (cases "k < size")
    case True
    then have "take k (concat (map enc (t # ts))) = take k (enc t)" using t by simp
    then show ?thesis using True t size_pos by (cases "k = 0") (auto simp: frames.simps)
  next
    case False
    then obtain j where k: "k = size + j" using le_Suc_ex not_less by blast
    have "take k (concat (map enc (t # ts))) = concat (map enc [t]) @ take j (concat (map enc ts))"
      using t by (simp add: k)
    then have "frames size decd torn (take k (concat (map enc (t # ts)))) =
        Inr t # frames size decd torn (take j (concat (map enc ts)))"
      using frames_append [of "[t]"] t(2) by simp
    then show ?thesis using Cons.IH [of j] Cons.prems t size_pos by (simp add: k)
  qed
qed

end

text \<open>A stream whose length is not a multiple of the record size never reads back clean.\<close>

lemma frames_misaligned:
  "0 < n \<Longrightarrow> length bs mod n \<noteq> 0 \<Longrightarrow> Inl (torn (length bs mod n)) \<in> set (frames n d torn bs)"
proof (induction n d torn bs rule: frames.induct)
  case (1 n d torn bs)
  show ?case
  proof (cases "length bs < n")
    case True
    then show ?thesis using "1.prems" by (auto simp: frames.simps)
  next
    case False
    then have "length bs mod n = length (drop n bs) mod n" by (simp add: le_mod_geq)
    then show ?thesis using "1.IH" "1.prems" False by (subst frames.simps) auto
  qed
qed

subsection \<open>Header and records\<close>

datatype capture_error =
    BadMagic "u8 list"
  | BadVersion u8
  | HeaderTooShort
  | TruncatedRecord nat
  | BadExchange u8
  | BadTakerSide u8
  | OsError nat

definition MAGIC :: "u8 list" where
  "MAGIC = [0x47, 0x54, 0x52, 0x43]"

definition FORMAT_VERSION :: u8 where
  "FORMAT_VERSION = 1"

abbreviation HEADER_SIZE :: nat where "HEADER_SIZE \<equiv> 5"
abbreviation RECORD_SIZE :: nat where "RECORD_SIZE \<equiv> 58"

definition header_bytes :: "u8 list" where
  "header_bytes = MAGIC @ [FORMAT_VERSION]"

definition validate_header :: "u8 list \<Rightarrow> capture_error + unit" where
  "validate_header header =
     (if take 4 header \<noteq> MAGIC then Inl (BadMagic (take 4 header))
      else if header ! 4 \<noteq> FORMAT_VERSION then Inl (BadVersion (header ! 4))
      else Inr ())"

definition taker_side_code :: "taker_side \<Rightarrow> u8" where
  "taker_side_code s = (case s of Buy \<Rightarrow> 0 | Sell \<Rightarrow> 1)"

definition exchange_from_u8 :: "u8 \<Rightarrow> capture_error + exchange" where
  "exchange_from_u8 b = (if b = 0 then Inr Binance else if b = 1 then Inr Bybit
     else if b = 2 then Inr Hyperliquid else Inl (BadExchange b))"

definition taker_side_from_u8 :: "u8 \<Rightarrow> capture_error + taker_side" where
  "taker_side_from_u8 b = (if b = 0 then Inr Buy else if b = 1 then Inr Sell else Inl (BadTakerSide b))"

definition record_bytes :: "('p, 'q, 's) feedhandler \<Rightarrow> ('p, 'q, 's) normalized_trade \<Rightarrow> u8 list" where
  "record_bytes fh t =
     u64_to_le_bytes (price_raw fh (nt_price t)) @ u64_to_le_bytes (qty_raw fh (nt_qty t)) @
     u64_to_le_bytes (nt_ts_exchange_ns t) @ u64_to_le_bytes (nt_ts_recv_ns t) @
     symbol_as_bytes fh (nt_symbol t) @ [exchange_code fh (nt_exchange t)] @
     [taker_side_code (nt_taker_side t)] @ u64_to_le_bytes (nt_sequence t)"

definition slice :: "nat \<Rightarrow> nat \<Rightarrow> 'a list \<Rightarrow> 'a list" where
  "slice a b xs = take (b - a) (drop a xs)"

definition decode_record :: "('p, 'q, 's) feedhandler \<Rightarrow> u8 list \<Rightarrow>
    capture_error + ('p, 'q, 's) normalized_trade" where
  "decode_record fh buf =
     result_bind (exchange_from_u8 (buf ! 48)) (\<lambda>exchange.
     result_bind (taker_side_from_u8 (buf ! 49)) (\<lambda>taker_side.
       Inr \<lparr>nt_price = price_new fh (u64_from_le_bytes (slice 0 8 buf)),
            nt_qty = qty_new fh (u64_from_le_bytes (slice 8 16 buf)),
            nt_ts_exchange_ns = u64_from_le_bytes (slice 16 24 buf),
            nt_ts_recv_ns = u64_from_le_bytes (slice 24 32 buf),
            nt_symbol = symbol_from_bytes fh (slice 32 48 buf),
            nt_exchange = exchange, nt_taker_side = taker_side,
            nt_sequence = u64_from_le_bytes (slice 50 58 buf)\<rparr>))"

lemma slice_append1: "length xs = n \<Longrightarrow> a \<le> n \<Longrightarrow> b \<le> n \<Longrightarrow> slice a b (xs @ ys) = slice a b xs"
  by (simp add: slice_def)

lemma slice_append2: "length xs = n \<Longrightarrow> n \<le> a \<Longrightarrow> slice a b (xs @ ys) = slice (a - n) (b - n) ys"
  by (simp add: slice_def)

lemma slice_all: "length xs = b \<Longrightarrow> slice 0 b xs = xs"
  by (simp add: slice_def)

lemma exchange_code_inverse: "feedhandler_laws fh \<Longrightarrow> exchange_from_u8 (exchange_code fh x) = Inr x"
  by (cases x) (simp_all add: feedhandler_laws_def exchange_from_u8_def)

lemma taker_side_code_inverse: "taker_side_from_u8 (taker_side_code s) = Inr s"
  by (cases s) (simp_all add: taker_side_from_u8_def taker_side_code_def)

lemma record_bytes_length: "feedhandler_laws fh \<Longrightarrow> length (record_bytes fh t) = RECORD_SIZE"
  by (simp add: record_bytes_def feedhandler_laws_def)

lemma decode_record_bytes:
  assumes "feedhandler_laws fh" shows "decode_record fh (record_bytes fh t) = Inr t"
proof -
  have s: "length (symbol_as_bytes fh (nt_symbol t)) = 16" using assms by (simp add: feedhandler_laws_def)
  have x: "record_bytes fh t ! 48 = exchange_code fh (nt_exchange t)"
    "record_bytes fh t ! 49 = taker_side_code (nt_taker_side t)"
    by (simp_all add: record_bytes_def nth_append s)
  have p: "slice 0 8 (record_bytes fh t) = u64_to_le_bytes (price_raw fh (nt_price t))"
    "slice 8 16 (record_bytes fh t) = u64_to_le_bytes (qty_raw fh (nt_qty t))"
    "slice 16 24 (record_bytes fh t) = u64_to_le_bytes (nt_ts_exchange_ns t)"
    "slice 24 32 (record_bytes fh t) = u64_to_le_bytes (nt_ts_recv_ns t)"
    "slice 32 48 (record_bytes fh t) = symbol_as_bytes fh (nt_symbol t)"
    "slice 50 58 (record_bytes fh t) = u64_to_le_bytes (nt_sequence t)"
    by (simp_all add: record_bytes_def slice_append1 slice_append2 slice_all s) (simp_all add: slice_def s)
  show ?thesis
    by (simp add: decode_record_def x p exchange_code_inverse [OF assms] taker_side_code_inverse)
      (use assms in \<open>simp add: feedhandler_laws_def\<close>)
qed

interpretation trade_codec: record_codec "record_bytes fh" "decode_record fh" RECORD_SIZE
    TruncatedRecord "\<lambda>t. feedhandler_laws fh" for fh
  by unfold_locales (simp_all add: record_bytes_length decode_record_bytes)

subsection \<open>Recorder and reader\<close>

text \<open>\<open>create\<close> returns the contents of the file it leaves, \<open>record\<close> appends one record, and \<open>open\<close>
  returns the bytes after the header.\<close>

definition read_header :: "u8 list \<Rightarrow> capture_error + unit" where
  "read_header content = (if length content < HEADER_SIZE then Inl HeaderTooShort
     else validate_header (take HEADER_SIZE content))"

definition TradeRecorder_create :: "u8 list option \<Rightarrow> capture_error + u8 list" where
  "TradeRecorder_create file =
     (let content = (case file of None \<Rightarrow> [] | Some c \<Rightarrow> c)
      in if length content = 0 then Inr (content @ header_bytes)
         else result_bind (read_header content) (\<lambda>_. Inr content))"

definition TradeRecorder_record :: "('p, 'q, 's) feedhandler \<Rightarrow> u8 list \<Rightarrow>
    ('p, 'q, 's) normalized_trade \<Rightarrow> u8 list" where
  "TradeRecorder_record fh content trade = content @ record_bytes fh trade"

definition TradeReader_open :: "u8 list \<Rightarrow> capture_error + u8 list" where
  "TradeReader_open content = result_bind (read_header content) (\<lambda>_. Inr (drop HEADER_SIZE content))"

datatype read_event = Chunk "u8 list" | Interrupted | Failed nat

text \<open>The read loop of \<open>next\<close>: \<open>got\<close> is what is in the buffer; a read of nothing is the end of file.\<close>

fun fill_record :: "u8 list \<Rightarrow> read_event list \<Rightarrow> (capture_error + u8 list) \<times> read_event list" where
  "fill_record got [] = (Inr got, [])"
| "fill_record got (Interrupted # es) = fill_record got es"
| "fill_record got (Failed e # es) = (Inl (OsError e), es)"
| "fill_record got (Chunk bs # es) =
     (let room = RECORD_SIZE - length got in
      if bs = [] then (Inr got, es)
      else if room < length bs then (Inr (got @ take room bs), Chunk (drop room bs) # es)
      else if room = length bs then (Inr (got @ bs), es)
      else fill_record (got @ bs) es)"

definition TradeReader_next :: "('p, 'q, 's) feedhandler \<Rightarrow> read_event list \<Rightarrow>
    (capture_error + ('p, 'q, 's) normalized_trade) option \<times> read_event list" where
  "TradeReader_next fh input =
     (case fill_record [] input of
        (Inl e, rest) \<Rightarrow> (Some (Inl e), rest)
      | (Inr buf, rest) \<Rightarrow>
          if length buf = 0 then (None, rest)
          else if length buf \<noteq> RECORD_SIZE then (Some (Inl (TruncatedRecord (length buf))), rest)
          else (Some (decode_record fh buf), rest))"

definition event_weight :: "read_event \<Rightarrow> nat" where
  "event_weight e = (case e of Chunk bs \<Rightarrow> Suc (length bs) | _ \<Rightarrow> 1)"

abbreviation events_weight :: "read_event list \<Rightarrow> nat" where
  "events_weight es \<equiv> sum_list (map event_weight es)"

lemma event_weight_simps [simp]:
  "event_weight (Chunk bs) = Suc (length bs)" "event_weight Interrupted = 1" "event_weight (Failed e) = 1"
  by (simp_all add: event_weight_def)

lemma fill_record_weight:
  "fill_record got es = (r, es') \<Longrightarrow> length got < RECORD_SIZE \<Longrightarrow>
    events_weight es' < events_weight es \<or> (es' = [] \<and> es = [] \<and> r = Inr got)"
proof (induction got es rule: fill_record.induct)
  case (4 got bs es)
  consider "bs = []" | "RECORD_SIZE - length got \<le> length bs" "bs \<noteq> []"
    | "length bs < RECORD_SIZE - length got" "bs \<noteq> []" by linarith
  then show ?case
  proof cases
    case 3
    then have "events_weight es' < events_weight es \<or> es' = [] \<and> es = []"
      using "4.IH" "4.prems" by (auto simp: Let_def)
    then show ?thesis by auto
  qed (use "4.prems" in \<open>auto simp: Let_def split: if_splits\<close>)
qed auto

lemma TradeReader_next_weight:
  "TradeReader_next fh es = (Some x, es') \<Longrightarrow> events_weight es' < events_weight es"
  using fill_record_weight [of "[]" es]
  by (cases "fill_record [] es") (fastforce simp: TradeReader_next_def split: sum.splits if_splits)

text \<open>The iterator run to its end.\<close>

function read_all :: "('p, 'q, 's) feedhandler \<Rightarrow> read_event list \<Rightarrow>
    (capture_error + ('p, 'q, 's) normalized_trade) list" where
  "read_all fh es = (case TradeReader_next fh es of
      (None, _) \<Rightarrow> [] | (Some r, es') \<Rightarrow> r # read_all fh es')"
  by pat_completeness auto
termination by (relation "measure (\<lambda>(fh, es). events_weight es)") (auto dest: TradeReader_next_weight [OF sym])

declare read_all.simps [simp del]

subsection \<open>Reading does not depend on how the bytes arrive\<close>

fun bytes_of :: "read_event list \<Rightarrow> u8 list" where
  "bytes_of [] = []"
| "bytes_of (Chunk bs # es) = bs @ bytes_of es"
| "bytes_of (_ # es) = bytes_of es"

definition no_failure :: "read_event list \<Rightarrow> bool" where
  "no_failure es \<longleftrightarrow> (\<forall>e \<in> set es. case e of Chunk bs \<Rightarrow> bs \<noteq> [] | Interrupted \<Rightarrow> True | Failed _ \<Rightarrow> False)"

lemma no_failure_Cons [simp]: "no_failure (e # es) \<longleftrightarrow>
    (case e of Chunk bs \<Rightarrow> bs \<noteq> [] | Interrupted \<Rightarrow> True | Failed _ \<Rightarrow> False) \<and> no_failure es"
  by (simp add: no_failure_def)

lemma fill_record_bytes:
  assumes "length got < RECORD_SIZE" "no_failure es"
  shows "\<exists>es'. fill_record got es = (Inr (take RECORD_SIZE (got @ bytes_of es)), es') \<and> no_failure es' \<and>
    bytes_of es' = drop RECORD_SIZE (got @ bytes_of es)"
  using assms
proof (induction got es rule: fill_record.induct)
  case (4 got bs es)
  consider "RECORD_SIZE - length got < length bs" | "RECORD_SIZE - length got = length bs"
    | "length bs < RECORD_SIZE - length got" by linarith
  then show ?case
  proof cases
    case 3
    then have "length (got @ bs) < RECORD_SIZE" "no_failure es" using 4 by auto
    with 3 "4.IH" "4.prems" show ?thesis by (simp add: Let_def)
  qed (use "4.prems" in \<open>simp_all add: Let_def\<close>)
qed auto

lemma read_all_frames:
  "no_failure es \<Longrightarrow> read_all fh es = frames RECORD_SIZE (decode_record fh) TruncatedRecord (bytes_of es)"
proof (induction fh es rule: read_all.induct)
  case (1 fh es)
  obtain es' where f: "fill_record [] es = (Inr (take RECORD_SIZE (bytes_of es)), es')" "no_failure es'"
    "bytes_of es' = drop RECORD_SIZE (bytes_of es)"
    using fill_record_bytes [of "[]" es] 1(2) by auto
  consider "bytes_of es = []" | "bytes_of es \<noteq> []" "length (bytes_of es) < RECORD_SIZE"
    | "RECORD_SIZE \<le> length (bytes_of es)" by linarith
  then show ?case
  proof cases
    case 1
    then show ?thesis by (simp add: read_all.simps [of fh es] TradeReader_next_def f(1) frames.simps)
  next
    case 2
    then have n: "TradeReader_next fh es = (Some (Inl (TruncatedRecord (length (bytes_of es)))), es')"
      by (simp add: TradeReader_next_def f(1))
    have "read_all fh es' = frames RECORD_SIZE (decode_record fh) TruncatedRecord (bytes_of es')"
      using 1(1) [OF n [symmetric] refl f(2)] by simp
    then show ?thesis using 2 f(3) by (simp add: read_all.simps [of fh es] n frames.simps)
  next
    case 3
    then have n: "TradeReader_next fh es = (Some (decode_record fh (take RECORD_SIZE (bytes_of es))), es')"
      by (simp add: TradeReader_next_def f(1))
    have "read_all fh es' = frames RECORD_SIZE (decode_record fh) TruncatedRecord (bytes_of es')"
      using 1(1) [OF n [symmetric] refl f(2)] by simp
    then show ?thesis using 3 f(3) by (simp add: read_all.simps [of fh es] n frames.simps [of _ _ _ "bytes_of es"]) auto
  qed
qed

subsection \<open>Files\<close>

text \<open>A session opens the file, records its trades and flushes; sessions follow one another.\<close>

definition write_session :: "('p, 'q, 's) feedhandler \<Rightarrow> u8 list option \<Rightarrow>
    ('p, 'q, 's) normalized_trade list \<Rightarrow> capture_error + u8 list" where
  "write_session fh file ts =
     result_bind (TradeRecorder_create file) (\<lambda>c. Inr (foldl (TradeRecorder_record fh) c ts))"

fun write_sessions :: "('p, 'q, 's) feedhandler \<Rightarrow> u8 list option \<Rightarrow>
    ('p, 'q, 's) normalized_trade list list \<Rightarrow> capture_error + u8 list option" where
  "write_sessions fh file [] = Inr file"
| "write_sessions fh file (ts # tss) =
     result_bind (write_session fh file ts) (\<lambda>c. write_sessions fh (Some c) tss)"

definition reads_as :: "('p, 'q, 's) feedhandler \<Rightarrow> u8 list \<Rightarrow>
    (capture_error + ('p, 'q, 's) normalized_trade) list \<Rightarrow> bool" where
  "reads_as fh content rs \<longleftrightarrow> (\<exists>body. TradeReader_open content = Inr body \<and>
     (\<forall>es. no_failure es \<and> bytes_of es = body \<longrightarrow> read_all fh es = rs))"

abbreviation stream :: "('p, 'q, 's) feedhandler \<Rightarrow> ('p, 'q, 's) normalized_trade list \<Rightarrow> u8 list" where
  "stream fh ts \<equiv> concat (map (record_bytes fh) ts)"

lemma length_header [simp]: "length header_bytes = 5" "header_bytes \<noteq> []"
  by (simp_all add: header_bytes_def MAGIC_def)

lemma read_header_ok: "read_header c = Inr () \<longleftrightarrow> take HEADER_SIZE c = header_bytes"
proof (cases "length c < HEADER_SIZE")
  case True
  then have "take HEADER_SIZE c \<noteq> header_bytes" using length_header(1) by (metis length_take min.absorb4 min.commute less_irrefl)
  then show ?thesis using True by (simp add: read_header_def)
next
  case False
  then have "take HEADER_SIZE c = take 4 c @ [c ! 4]" using take_Suc_conv_app_nth [of 4 c] by simp
  moreover have "take 4 (take HEADER_SIZE c) = take 4 c" "take HEADER_SIZE c ! 4 = c ! 4" by simp_all
  moreover have "(MAGIC @ [x]) ! 4 = x" for x by (simp add: MAGIC_def)
  ultimately show ?thesis using False
    by (simp add: read_header_def validate_header_def header_bytes_def del: take_take nth_take)
qed

lemma foldl_record: "foldl (TradeRecorder_record fh) c ts = c @ stream fh ts"
  by (induction ts arbitrary: c) (simp_all add: TradeRecorder_record_def)

lemma create_header: "TradeRecorder_create (Some (header_bytes @ bs)) = Inr (header_bytes @ bs)"
  using read_header_ok [of "header_bytes @ bs"] by (simp add: TradeRecorder_create_def)

lemma create_fresh: "TradeRecorder_create None = Inr header_bytes"
  by (simp add: TradeRecorder_create_def)

lemma reads_as_frames:
  "reads_as fh (header_bytes @ bs) (frames RECORD_SIZE (decode_record fh) TruncatedRecord bs)"
  using read_header_ok [of "header_bytes @ bs"]
  by (auto simp: reads_as_def TradeReader_open_def read_all_frames)

lemma write_sessions_header:
  "write_sessions fh (Some (header_bytes @ bs)) tss = Inr (Some (header_bytes @ bs @ stream fh (concat tss)))"
  by (induction tss arbitrary: bs) (simp_all add: write_session_def create_header foldl_record)

lemma write_sessions_fresh:
  "tss \<noteq> [] \<Longrightarrow> write_sessions fh None tss = Inr (Some (header_bytes @ stream fh (concat tss)))"
  using write_sessions_header
  by (cases tss) (simp_all add: write_session_def create_fresh foldl_record)

text \<open>C7: capture and replay: whatever sessions appended to a new capture file, each reopening it, the
  reader opens the file and yields exactly all recorded trades in order, bit for bit, no matter into
  which reads the bytes are cut and where reads are interrupted.\<close>

theorem capture_roundtrip:
  assumes "feedhandler_laws fh" "tss \<noteq> []"
  shows "\<exists>content. write_sessions fh None tss = Inr (Some content) \<and>
    reads_as fh content (map Inr (concat tss))"
proof -
  have "frames RECORD_SIZE (decode_record fh) TruncatedRecord (stream fh (concat tss)) = map Inr (concat tss)"
    using trade_codec.frames_append [of "concat tss" fh "[]"] trade_codec.frames_Nil assms(1) by simp
  then show ?thesis using write_sessions_fresh [OF assms(2), of fh] reads_as_frames [of fh] by metis
qed


text \<open>reopening checks the header only. A file that a crash left with a torn trailing record is
  accepted for appending as it is, everything recorded afterwards lands off the record grid, and the
  file never reads back without an error again.\<close>

theorem capture_torn_reopen:
  assumes "feedhandler_laws fh" "length bs mod RECORD_SIZE \<noteq> 0"
  shows "write_session fh (Some (header_bytes @ bs)) ts = Inr (header_bytes @ bs @ stream fh ts) \<and>
    (\<exists>rs. reads_as fh (header_bytes @ bs @ stream fh ts) rs \<and>
      Inl (TruncatedRecord (length bs mod RECORD_SIZE)) \<in> set rs)"
proof
  show "write_session fh (Some (header_bytes @ bs)) ts = Inr (header_bytes @ bs @ stream fh ts)"
    by (simp add: write_session_def create_header foldl_record)
  have "length (bs @ stream fh ts) mod RECORD_SIZE = length bs mod RECORD_SIZE"
    using trade_codec.length_stream [of ts fh] assms(1) by simp
  then show "\<exists>rs. reads_as fh (header_bytes @ bs @ stream fh ts) rs \<and>
      Inl (TruncatedRecord (length bs mod RECORD_SIZE)) \<in> set rs"
    using reads_as_frames [of fh "bs @ stream fh ts"] assms(2)
      frames_misaligned [of RECORD_SIZE "bs @ stream fh ts" TruncatedRecord "decode_record fh"] by auto
qed

text \<open>the header guard: a non-empty file is accepted for appending or reading exactly when it
  starts with the five bytes of the current magic and version; both sides refuse it with the same
  error otherwise, and appending never changes what is already there.\<close>

theorem capture_header_guard:
  assumes "content \<noteq> []"
  shows "(TradeRecorder_create (Some content) = Inr c \<longleftrightarrow> c = content \<and> take 5 content = header_bytes) \<and>
    (TradeReader_open content = Inr body \<longleftrightarrow> body = drop 5 content \<and> take 5 content = header_bytes) \<and>
    (TradeRecorder_create (Some content) = Inl e \<longleftrightarrow> TradeReader_open content = Inl e)"
  using assms read_header_ok [of content]
  by (cases "read_header content") (auto simp: TradeRecorder_create_def TradeReader_open_def)

subsection \<open>A concrete feed handler\<close>

text \<open>Raw words for prices and quantities, 128 bits for a symbol.\<close>

definition fh_words :: "(u64, u64, 128 word) feedhandler" where
  "fh_words = \<lparr>price_new = id, price_raw = id, qty_new = id, qty_raw = id,
     symbol_from_bytes = (\<lambda>bs. of_nat (le_value bs)), symbol_as_bytes = (\<lambda>s. le_bytes 16 (unat s)),
     exchange_code = (\<lambda>x. case x of Binance \<Rightarrow> 0 | Bybit \<Rightarrow> 1 | Hyperliquid \<Rightarrow> 2)\<rparr>"

lemma fh_words_laws: "feedhandler_laws fh_words"
proof -
  have "unat s < 2 ^ 128" for s :: "128 word" using unsigned_less [of s, where 'a = nat] by simp
  then show ?thesis by (simp add: feedhandler_laws_def fh_words_def le_value_bytes)
qed

definition trade1 :: "(u64, u64, 128 word) normalized_trade" where
  "trade1 = \<lparr>nt_price = 1657850000000, nt_qty = 100000, nt_ts_exchange_ns = 5, nt_ts_recv_ns = 6,
     nt_symbol = 7, nt_exchange = Bybit, nt_taker_side = Sell, nt_sequence = 0\<rparr>"

lemma length_stream1: "length (stream fh_words [trade1]) = 58"
  using record_bytes_length [OF fh_words_laws] by simp

theorem capture_roundtrip_witness:
  "\<exists>content. write_sessions fh_words None [[trade1], [], [trade1]] = Inr (Some content) \<and>
    reads_as fh_words content [Inr trade1, Inr trade1]"
  using capture_roundtrip [OF fh_words_laws, of "[[trade1], [], [trade1]]"] by simp


theorem capture_torn_reopen_witness:
  "\<exists>rs. reads_as fh_words (header_bytes @ [1, 2, 3] @ stream fh_words [trade1]) rs \<and>
    Inl (TruncatedRecord 3) \<in> set rs"
proof -
  have "length [1, 2, 3 :: u8] mod RECORD_SIZE \<noteq> 0" by simp
  from capture_torn_reopen [OF fh_words_laws this, of "[trade1]", THEN conjunct2] show ?thesis by simp
qed

theorem capture_header_guard_witness:
  "TradeRecorder_create (Some [0x47, 0x54]) \<noteq> Inr [0x47, 0x54]"
  using capture_header_guard [of "[0x47, 0x54]" "[0x47, 0x54]", THEN conjunct1]
  by (simp add: header_bytes_def MAGIC_def)

end
