(* ===== verification/Capture_Reader.thy ===== *)
theory Capture_Reader
  imports Capture
begin

text \<open>
  How long reading a capture file can take (\<open>crates/trade-ingest/src/capture.rs\<close>, \<open>TradeReader\<close>): the
  iterator may be driven over any behaviour of the file, with reads that are short, empty, interrupted or that
  fail, and the theory bounds what it yields by what was read.
\<close>

definition is_failed :: "read_event \<Rightarrow> bool" where
  "is_failed e \<longleftrightarrow> (\<exists>n. e = Failed n)"

abbreviation failures :: "read_event list \<Rightarrow> nat" where "failures es \<equiv> length (filter is_failed es)"
abbreviation empties :: "read_event list \<Rightarrow> nat" where "empties es \<equiv> length (filter (\<lambda>e. e = Chunk []) es)"

lemma is_failed_simps [simp]: "\<not> is_failed (Chunk bs)" "\<not> is_failed Interrupted" "is_failed (Failed n)"
  by (simp_all add: is_failed_def)

text \<open>The three kinds of results: a read error, a torn record, and a whole record (which may be malformed).\<close>

fun read_failed :: "capture_error + 'n \<Rightarrow> bool" where
  "read_failed (Inl (OsError e)) = True"
| "read_failed _ = False"

fun torn_record :: "capture_error + 'n \<Rightarrow> bool" where
  "torn_record (Inl (TruncatedRecord n)) = True"
| "torn_record _ = False"

definition whole_record :: "capture_error + 'n \<Rightarrow> bool" where
  "whole_record r \<longleftrightarrow> \<not> read_failed r \<and> \<not> torn_record r"

lemma not_whole: "\<not> whole_record (Inl (OsError e))" "\<not> whole_record (Inl (TruncatedRecord n))"
  by (simp_all add: whole_record_def)

lemma decode_record_whole: "whole_record (decode_record fh buf)"
  by (auto simp: whole_record_def decode_record_def exchange_from_u8_def taker_side_from_u8_def Let_def result_bind_def
      split: sum.split)

text \<open>What one fill of the buffer takes from the file.\<close>

lemma fill_record_uses:
  assumes "fill_record got es = (r, es')" "length got < RECORD_SIZE"
  shows "(\<exists>buf. r = Inr buf \<and> length buf + length (bytes_of es') \<le> length got + length (bytes_of es) \<and>
      failures es' \<le> failures es \<and> empties es' \<le> empties es \<and>
      (length buf < RECORD_SIZE \<longrightarrow> es' = [] \<or> empties es' < empties es)) \<or>
    (\<exists>e. r = Inl (OsError e) \<and> length (bytes_of es') \<le> length (bytes_of es) \<and>
      failures es' < failures es \<and> empties es' \<le> empties es)"
  using assms
proof (induction got es rule: fill_record.induct)
  case (4 got bs es)
  consider "bs = []" | "RECORD_SIZE - length got < length bs" | "RECORD_SIZE - length got = length bs" "bs \<noteq> []"
    | "length bs < RECORD_SIZE - length got" "bs \<noteq> []" by linarith
  then show ?case
  proof cases
    case 4
    then have f: "fill_record (got @ bs) es = (r, es')" "length (got @ bs) < RECORD_SIZE"
      using "4.prems" by (auto simp: Let_def)
    from "4.IH" [OF refl _ _ _ f] 4 show ?thesis by auto
  qed (use "4.prems" in \<open>auto simp: Let_def\<close>)
qed auto

lemma fill_record_length: "fill_record got es = (Inr buf, es') \<Longrightarrow> length got < RECORD_SIZE \<Longrightarrow> length buf \<le> RECORD_SIZE"
proof (induction got es rule: fill_record.induct)
  case (4 got bs es)
  then show ?case by (cases "length bs < RECORD_SIZE - length got") (auto simp: Let_def split: if_splits)
qed auto

lemma next_uses:
  assumes "TradeReader_next fh es = (Some x, es')"
  shows "whole_record x \<and> RECORD_SIZE + length (bytes_of es') \<le> length (bytes_of es) \<and>
      failures es' \<le> failures es \<and> empties es' \<le> empties es \<or>
    (\<exists>e. x = Inl (OsError e)) \<and> length (bytes_of es') \<le> length (bytes_of es) \<and>
      failures es' < failures es \<and> empties es' \<le> empties es \<or>
    (\<exists>n. x = Inl (TruncatedRecord n)) \<and> length (bytes_of es') \<le> length (bytes_of es) \<and>
      failures es' \<le> failures es \<and> empties es' \<le> empties es \<and> (es' = [] \<or> empties es' < empties es)"
proof -
  obtain r rest where f: "fill_record [] es = (r, rest)" by force
  have "length ([] :: u8 list) < RECORD_SIZE" by simp
  from fill_record_uses [OF f this] show ?thesis
  proof (elim disjE exE conjE)
    fix buf assume b: "r = Inr buf" "length buf + length (bytes_of rest) \<le> length ([] :: u8 list) + length (bytes_of es)"
      "failures rest \<le> failures es" "empties rest \<le> empties es" "length buf < RECORD_SIZE \<longrightarrow> rest = [] \<or> empties rest < empties es"
    have "es' = rest" "length buf \<noteq> 0" using assms by (auto simp: TradeReader_next_def f b(1) split: if_splits)
    have "length buf \<le> RECORD_SIZE" using fill_record_length [OF f [unfolded b(1)]] by simp
    show ?thesis
    proof (cases "length buf = RECORD_SIZE")
      case True
      then have "x = decode_record fh buf" using assms by (simp add: TradeReader_next_def f b(1))
      then show ?thesis using True b \<open>es' = rest\<close> decode_record_whole by auto
    next
      case False
      then have "x = Inl (TruncatedRecord (length buf))" using assms by (auto simp: TradeReader_next_def f b(1) split: if_splits)
      then show ?thesis using False b \<open>es' = rest\<close> \<open>length buf \<le> RECORD_SIZE\<close> by auto
    qed
  next
    fix e assume "r = Inl (OsError e)" "length (bytes_of rest) \<le> length (bytes_of es)" "failures rest < failures es" "empties rest \<le> empties es"
    then show ?thesis using assms by (auto simp: TradeReader_next_def f)
  qed
qed

lemma reader_counts:
  "RECORD_SIZE * length (filter whole_record (read_all fh es)) \<le> length (bytes_of es) \<and>
    length (filter read_failed (read_all fh es)) \<le> failures es \<and>
    length (filter torn_record (read_all fh es)) \<le> empties es + (if es = [] then 0 else 1)"
proof (induction fh es rule: read_all.induct)
  case (1 fh es)
  obtain o' es' where n: "TradeReader_next fh es = (o', es')" by force
  show ?case
  proof (cases o')
    case None
    then show ?thesis by (simp add: read_all.simps [of fh es] n)
  next
    case (Some x)
    have e: "read_all fh es = x # read_all fh es'" by (simp add: read_all.simps [of fh es] n Some)
    have ne: "es \<noteq> []" using TradeReader_next_weight [OF n [unfolded Some]] by auto
    define w' f' t' where c: "w' = length (filter whole_record (read_all fh es'))"
      "f' = length (filter read_failed (read_all fh es'))" "t' = length (filter torn_record (read_all fh es'))"
    have ih': "RECORD_SIZE * w' \<le> length (bytes_of es')" "f' \<le> failures es'" "t' \<le> Suc (empties es')"
      "es' = [] \<Longrightarrow> t' = 0"
      using 1 [OF n [symmetric] Some] by (simp_all add: c split: if_splits)
    from next_uses [OF n [unfolded Some]] show ?thesis
    proof (elim disjE conjE exE)
      assume u: "whole_record x" "RECORD_SIZE + length (bytes_of es') \<le> length (bytes_of es)" "failures es' \<le> failures es"
        "empties es' \<le> empties es"
      then have "\<not> read_failed x" "\<not> torn_record x" by (simp_all add: whole_record_def)
      then show ?thesis using u ih'(1-3) ne by (simp add: e c [symmetric])
    next
      fix err assume u: "x = Inl (OsError err)" "length (bytes_of es') \<le> length (bytes_of es)" "failures es' < failures es"
        "empties es' \<le> empties es"
      then show ?thesis using ih'(1-3) ne by (simp add: e c [symmetric] not_whole)
    next
      fix k assume u: "x = Inl (TruncatedRecord k)" "length (bytes_of es') \<le> length (bytes_of es)" "failures es' \<le> failures es"
        "empties es' \<le> empties es" "es' = []"
      then show ?thesis using ih'(1,2) ih'(4) ne unfolding c e by (simp add: not_whole)
    next
      fix k assume u: "x = Inl (TruncatedRecord k)" "length (bytes_of es') \<le> length (bytes_of es)" "failures es' \<le> failures es"
        "empties es' \<le> empties es" "empties es' < empties es"
      then show ?thesis using ih'(1-3) ne by (simp add: e c [symmetric] not_whole)
    qed
  qed
qed

lemma result_kinds:
  "length rs = length (filter whole_record rs) + length (filter read_failed rs) + length (filter torn_record rs)"
proof (induction rs)
  case (Cons r rs)
  have "\<not> (read_failed r \<and> torn_record r)" by (cases r rule: read_failed.cases) simp_all
  then show ?case using Cons by (auto simp: whole_record_def)
qed simp


end
