(* ===== verification/Backoff.thy ===== *)
theory Backoff
  imports Prelude
begin

text \<open>
  \<open>crates/backoff/src/lib.rs\<close>: the reconnect backoff. A \<open>Duration\<close> is its length in nanoseconds, at
  most \<open>duration_max\<close> (\<open>u64::MAX\<close> seconds and 999999999 ns). The attempt counter is the \<open>u32\<close> of the
  code, wrapping as in a release build.
\<close>

type_synonym duration = nat

definition duration_max :: duration where
  "duration_max = (2 ^ 64 - 1) * 1000000000 + 999999999"

definition duration_saturating_mul :: "duration \<Rightarrow> nat \<Rightarrow> duration" where
  "duration_saturating_mul d k = min duration_max (d * k)"

abbreviation millis :: "nat \<Rightarrow> duration" where "millis n \<equiv> n * 1000000"
abbreviation secs :: "nat \<Rightarrow> duration" where "secs n \<equiv> n * 1000000000"

record backoff_config =
  bc_base :: duration
  bc_max :: duration

record exponential_backoff =
  eb_attempt :: u32
  eb_base :: duration
  eb_max :: duration

definition ExponentialBackoff_new :: "duration \<Rightarrow> duration \<Rightarrow> exponential_backoff" where
  "ExponentialBackoff_new base mx = \<lparr>eb_attempt = 0, eb_base = base, eb_max = mx\<rparr>"

definition BackoffConfig_build :: "backoff_config \<Rightarrow> exponential_backoff" where
  "BackoffConfig_build c = ExponentialBackoff_new (bc_base c) (bc_max c)"

definition BackoffConfig_default :: backoff_config where
  "BackoffConfig_default = \<lparr>bc_base = millis 250, bc_max = secs 30\<rparr>"

definition ExponentialBackoff_default :: exponential_backoff where
  "ExponentialBackoff_default = BackoffConfig_build BackoffConfig_default"

definition backoff_reset :: "exponential_backoff \<Rightarrow> exponential_backoff" where
  "backoff_reset b = b\<lparr>eb_attempt := 0\<rparr>"

definition saturating_pow2_u32 :: "u32 \<Rightarrow> nat" where
  "saturating_pow2_u32 k = min (2 ^ 32 - 1) (2 ^ unat k)"

definition next_delay :: "exponential_backoff \<Rightarrow> duration \<times> exponential_backoff" where
  "next_delay b =
     (let mult = saturating_pow2_u32 (min (eb_attempt b) 20)
      in (min (duration_saturating_mul (eb_base b) mult) (eb_max b),
          b\<lparr>eb_attempt := eb_attempt b + 1\<rparr>))"

text \<open>The delays of \<open>n\<close> attempts in a row, no session in between.\<close>

fun delays :: "nat \<Rightarrow> exponential_backoff \<Rightarrow> duration list" where
  "delays 0 b = []"
| "delays (Suc n) b = (case next_delay b of (d, b') \<Rightarrow> d # delays n b')"

definition delay_at :: "duration \<Rightarrow> duration \<Rightarrow> nat \<Rightarrow> duration" where
  "delay_at base mx k = min (duration_saturating_mul base (2 ^ min k 20)) mx"

lemma next_delay_at:
  assumes "eb_attempt b = of_nat k" "k < 2 ^ 32"
  shows "fst (next_delay b) = delay_at (eb_base b) (eb_max b) k"
    and "snd (next_delay b) = b\<lparr>eb_attempt := of_nat (Suc k)\<rparr>"
proof -
  have k: "unat (of_nat k :: u32) = k" using assms(2) by (simp add: unat_of_nat take_bit_nat_eq_self)
  have "unat (min (of_nat k) 20 :: u32) = min k 20"
    using k by (simp add: min_def word_le_nat_alt)
  moreover have "(2::nat) ^ min k 20 \<le> 2 ^ 20" by (intro power_increasing) simp_all
  then have "(2::nat) ^ min k 20 \<le> 2 ^ 32 - 1" by simp
  ultimately have "saturating_pow2_u32 (min (of_nat k) 20) = 2 ^ min k 20"
    by (simp add: saturating_pow2_u32_def min_absorb2)
  then show "fst (next_delay b) = delay_at (eb_base b) (eb_max b) k"
    by (simp add: next_delay_def delay_at_def assms(1))
  show "snd (next_delay b) = b\<lparr>eb_attempt := of_nat (Suc k)\<rparr>"
    by (simp add: next_delay_def Let_def assms(1) add.commute)
qed

lemma delays_from:
  "eb_attempt b = of_nat k \<Longrightarrow> k + n \<le> 2 ^ 32 \<Longrightarrow>
    delays n b = map (delay_at (eb_base b) (eb_max b)) [k ..< k + n]"
proof (induction n arbitrary: b k)
  case (Suc n)
  then have k: "k < 2 ^ 32" by simp
  note d = next_delay_at [OF Suc.prems(1) k]
  have "delays n (snd (next_delay b)) = map (delay_at (eb_base b) (eb_max b)) [Suc k ..< Suc k + n]"
    using Suc.IH [of "snd (next_delay b)" "Suc k"] Suc.prems(2) d(2) by simp
  moreover have "[k ..< k + Suc n] = k # [Suc k ..< Suc k + n]" by (subst upt_conv_Cons) simp_all
  ultimately show ?case using d(1) by (simp only: delays.simps split_beta list.map)
qed simp

lemma delay_at_le: "delay_at base mx k \<le> mx"
  by (simp add: delay_at_def)

lemma delay_at_mono: assumes "j \<le> k" shows "delay_at base mx j \<le> delay_at base mx k"
proof -
  have "(2::nat) ^ min j 20 \<le> 2 ^ min k 20" using assms by (intro power_increasing) auto
  then have "base * 2 ^ min j 20 \<le> base * 2 ^ min k 20" by (rule mult_left_mono) simp
  then show ?thesis unfolding delay_at_def duration_saturating_mul_def by linarith
qed

text \<open>the delays of an outage. From a fresh or just reset backoff, up to \<open>2 ^ 32\<close> attempts in a
  row wait \<open>base * 2 ^ min k 20\<close> saturated at the largest \<open>Duration\<close> and capped at \<open>max\<close>: never more
  than \<open>max\<close>, never less than the wait before.\<close>

theorem backoff_delays:
  assumes "n \<le> 2 ^ 32"
  shows "delays n (backoff_reset b) = map (delay_at (eb_base b) (eb_max b)) [0..<n] \<and>
    sorted (delays n (backoff_reset b)) \<and> (\<forall>d \<in> set (delays n (backoff_reset b)). d \<le> eb_max b)"
proof -
  have d: "delays n (backoff_reset b) = map (delay_at (eb_base b) (eb_max b)) [0..<n]"
    using delays_from [of "backoff_reset b" 0 n] assms by (simp add: backoff_reset_def)
  then show ?thesis using delay_at_mono delay_at_le
    by (auto simp: sorted_iff_nth_mono)
qed

lemma default_delay_at:
  "delay_at (millis 250) (secs 30) k = (if k < 7 then millis 250 * 2 ^ k else secs 30)"
proof (cases "k < 7")
  case True
  then have "k \<in> {0, 1, 2, 3, 4, 5, 6}" by auto
  then show ?thesis by (auto simp: delay_at_def duration_saturating_mul_def duration_max_def)
next
  case False
  then have "delay_at (millis 250) (secs 30) 7 \<le> delay_at (millis 250) (secs 30) k"
    by (intro delay_at_mono) simp
  moreover have "delay_at (millis 250) (secs 30) 7 = secs 30"
    by (simp add: delay_at_def duration_saturating_mul_def duration_max_def)
  ultimately show ?thesis using False delay_at_le [of "millis 250" "secs 30" k] by simp
qed

text \<open>with the default configuration the cap is reached with the eighth wait, 31.75 s into the
  outage, and from then on there are two attempts per minute: \<open>n\<close> attempts take \<open>31.75 + 30 (n - 7)\<close>
  seconds of waiting.\<close>

theorem default_backoff_rate:
  assumes "7 \<le> n" "n \<le> 2 ^ 32"
  shows "sum_list (delays n (BackoffConfig_build BackoffConfig_default)) = millis 31750 + (n - 7) * secs 30"
proof -
  let ?b = "BackoffConfig_build BackoffConfig_default"
  have "delays n ?b = map (delay_at (millis 250) (secs 30)) [0..<n]"
    using delays_from [of ?b 0 n] assms(2)
    by (simp add: BackoffConfig_build_def BackoffConfig_default_def ExponentialBackoff_new_def)
  moreover have "[0..<n] = [0..<7] @ [7..<n]"
    using assms(1) upt_add_eq_append [of 0 7 "n - 7"] by simp
  moreover have "map (delay_at (millis 250) (secs 30)) [7..<n] = replicate (n - 7) (secs 30)"
    by (intro replicate_eqI) (auto simp only: default_delay_at set_map set_upt length_map length_upt split: if_splits, auto)
  moreover have "sum_list (map (delay_at (millis 250) (secs 30)) [0..<7]) = millis 31750"
    by (simp add: default_delay_at [simplified] upt_conv_Cons)
  ultimately show ?thesis by (simp add: sum_list_replicate)
qed

theorem backoff_delays_witness:
  "delays 3 (backoff_reset (ExponentialBackoff_new 10 35)) = [10, 20, 35]"
proof -
  have "(3::nat) \<le> 2 ^ 32" by simp
  from backoff_delays [OF this, of "ExponentialBackoff_new 10 35"] show ?thesis
    by (simp add: ExponentialBackoff_new_def delay_at_def duration_saturating_mul_def
        duration_max_def numeral_3_eq_3)
qed

theorem default_backoff_rate_witness:
  "sum_list (delays 9 (BackoffConfig_build BackoffConfig_default)) = millis 91750"
  using default_backoff_rate [of 9] by simp

end
