(* ===== verification/Worker.thy ===== *)
theory Worker
  imports Engine Trade_Types Backoff
begin

text \<open>
  \<open>services/toxicity-service/src\<close>: \<open>protocol.rs\<close>, \<open>registry.rs\<close> (the entry of one stream) and
  \<open>worker.rs\<close>. The worker is driven by the list of what its \<open>select!\<close> picks: a heartbeat tick with the
  clock it reads, a trade, or the end of the trade channel. The broadcast sender is the list of the
  messages given to it; its receivers are the server's subject.
\<close>

subsection \<open>Protocol and stream entry\<close>

record subscribe_request =
  sr_exchange :: str
  sr_symbol :: str

datatype server_message =
    Reading str str u64 u64 u32 "f64 option" "f64 option"
  | Heartbeat u64
  | Error_Message str

record stream_health =
  sh_trades_processed :: u64
  sh_readings_emitted :: u64
  sh_last_trade_ts_ns :: "u64 option"
  sh_last_heartbeat_ts_ns :: "u64 option"
  sh_worker_alive :: bool

record stream_entry =
  se_exchange :: str
  se_symbol :: str
  se_sender :: "server_message list"
  se_last_message :: "server_message option"
  se_health :: stream_health

definition StreamHealth_default :: stream_health where
  "StreamHealth_default = \<lparr>sh_trades_processed = 0, sh_readings_emitted = 0, sh_last_trade_ts_ns = None,
     sh_last_heartbeat_ts_ns = None, sh_worker_alive = False\<rparr>"

definition StreamEntry_new :: "str \<Rightarrow> str \<Rightarrow> stream_entry" where
  "StreamEntry_new exch symbol = \<lparr>se_exchange = exch, se_symbol = symbol, se_sender = [],
     se_last_message = None, se_health = StreamHealth_default\<rparr>"

subsection \<open>The worker\<close>

text \<open>Both statements of \<open>publish\<close>, in their order.\<close>

definition record_last :: "server_message \<Rightarrow> stream_entry \<Rightarrow> stream_entry" where
  "record_last msg entry = entry\<lparr>se_last_message := Some msg\<rparr>"

definition broadcast_send :: "server_message \<Rightarrow> stream_entry \<Rightarrow> stream_entry" where
  "broadcast_send msg entry = entry\<lparr>se_sender := se_sender entry @ [msg]\<rparr>"

definition publish :: "stream_entry \<Rightarrow> server_message \<Rightarrow> stream_entry" where
  "publish entry msg = broadcast_send msg (record_last msg entry)"

definition update_health :: "(stream_health \<Rightarrow> stream_health) \<Rightarrow> stream_entry \<Rightarrow> stream_entry" where
  "update_health f entry = entry\<lparr>se_health := f (se_health entry)\<rparr>"

datatype ('p, 'q, 's) worker_event =
    HeartbeatTick u64
  | TradeReceived "('p, 'q, 's) normalized_trade"
  | ChannelClosed

text \<open>\<open>raw() as f64 / 1e8\<close>\<close>

definition fixed8_to_f64 :: "u64 \<Rightarrow> f64" where
  "fixed8_to_f64 r = f64_div (f64_of_nat (unat r)) (f64_of_nat 100000000)"

definition reading_message :: "str \<Rightarrow> str \<Rightarrow> vpin_reading \<Rightarrow> server_message" where
  "reading_message exch symbol r = Reading exch symbol (vr_bucket_id r) (vr_ts_close_ns r)
     (vr_trades_in_bucket r) (vr_vpin r) (vr_vpin_cdf r)"

definition worker_heartbeat :: "u64 \<Rightarrow> stream_entry \<Rightarrow> stream_entry" where
  "worker_heartbeat ts_ns entry =
     update_health (\<lambda>h. h\<lparr>sh_last_heartbeat_ts_ns := Some ts_ns\<rparr>) (publish entry (Heartbeat ts_ns))"

definition worker_trade :: "(f64 \<Rightarrow> f64) \<Rightarrow> ('p, 'q, 's) feedhandler \<Rightarrow> str \<Rightarrow> str \<Rightarrow> vpin_engine \<Rightarrow>
    stream_entry \<Rightarrow> ('p, 'q, 's) normalized_trade \<Rightarrow> (vpin_engine \<times> stream_entry) option" where
  "worker_trade erf fh exch symbol engine entry trade =
     (let entry1 = update_health (\<lambda>h. h\<lparr>sh_trades_processed := sh_trades_processed h + 1,
                                       sh_last_trade_ts_ns := Some (nt_ts_exchange_ns trade)\<rparr>) entry;
          price = fixed8_to_f64 (price_raw fh (nt_price trade));
          qty = fixed8_to_f64 (qty_raw fh (nt_qty trade))
      in case push_trade erf engine price qty (nt_ts_exchange_ns trade) of
           None \<Rightarrow> None
         | Some (engine', None) \<Rightarrow> Some (engine', entry1)
         | Some (engine', Some reading) \<Rightarrow>
             Some (engine', update_health (\<lambda>h. h\<lparr>sh_readings_emitted := sh_readings_emitted h + 1\<rparr>)
                              (publish entry1 (reading_message exch symbol reading))))"

fun worker_loop :: "(f64 \<Rightarrow> f64) \<Rightarrow> ('p, 'q, 's) feedhandler \<Rightarrow> str \<Rightarrow> str \<Rightarrow> vpin_engine \<Rightarrow>
    stream_entry \<Rightarrow> ('p, 'q, 's) worker_event list \<Rightarrow> stream_entry option" where
  "worker_loop erf fh exch symbol engine entry [] = Some entry"
| "worker_loop erf fh exch symbol engine entry (HeartbeatTick ts # evs) =
     worker_loop erf fh exch symbol engine (worker_heartbeat ts entry) evs"
| "worker_loop erf fh exch symbol engine entry (TradeReceived trade # evs) =
     (case worker_trade erf fh exch symbol engine entry trade of None \<Rightarrow> None
      | Some (engine', entry') \<Rightarrow> worker_loop erf fh exch symbol engine' entry' evs)"
| "worker_loop erf fh exch symbol engine entry (ChannelClosed # evs) =
     Some (update_health (\<lambda>h. h\<lparr>sh_worker_alive := False\<rparr>) entry)"

text \<open>The statements before the loop: the flag is set, then \<open>tokio::time::interval\<close> panics on a zero
  period. The first component is the entry as they leave it.\<close>

definition worker_start :: "vpin_engine_config \<Rightarrow> duration \<Rightarrow> stream_entry \<Rightarrow>
    stream_entry \<times> vpin_engine option" where
  "worker_start engine_cfg heartbeat_interval entry =
     (case VpinEngine_new engine_cfg of Inl e \<Rightarrow> (entry, None)
      | Inr engine \<Rightarrow> (update_health (\<lambda>h. h\<lparr>sh_worker_alive := True\<rparr>) entry,
          if heartbeat_interval = 0 then None else Some engine))"

definition worker_run :: "(f64 \<Rightarrow> f64) \<Rightarrow> ('p, 'q, 's) feedhandler \<Rightarrow> str \<Rightarrow> str \<Rightarrow> vpin_engine_config \<Rightarrow>
    duration \<Rightarrow> stream_entry \<Rightarrow> ('p, 'q, 's) worker_event list \<Rightarrow> stream_entry option" where
  "worker_run erf fh exch symbol engine_cfg heartbeat_interval entry evs =
     (case worker_start engine_cfg heartbeat_interval entry of
        (entry1, None) \<Rightarrow> None
      | (entry1, Some engine) \<Rightarrow> worker_loop erf fh exch symbol engine entry1 evs)"

subsection \<open>What a worker publishes\<close>

lemma fixed8_small: "small (fixed8_to_f64 r)"
proof -
  let ?a = "f64_of_nat (unat r)" and ?d = "f64_of_nat 100000000"
  have r: "unat r < 2 ^ 64" using unsigned_less [of r, where 'a = nat] by simp
  have "real (unat r) < real (2 ^ 64)" using r by (simp only: of_nat_less_iff)
  then have rr: "real (unat r) \<le> 2 ^ 64" by simp
  have a: "f64_is_finite ?a" "f64_le f64_zero ?a" using f64_of_nat_finite r by simp_all
  have d: "f64_is_finite ?d" "uval ?d = 100000000 * 2 ^ 1074"
    using f64_of_nat_finite uval_f64_of_nat [of 100000000] by simp_all
  have ua: "0 \<le> uval ?a" using a(2) f64_le_zero_uval [OF a(1)] by blast
  have rd: "rounded (real_of_int (uval ?a) / uval ?d * one_units) (f64_div ?a ?d)"
    using a(1) d by (intro f64_div_rounded) simp_all
  have ud: "real_of_int (uval ?d) = 100000000 * one_units"
    unfolding d(2) one_units_def by simp
  have e: "real_of_int (uval ?a) / uval ?d * one_units = real_of_int (uval ?a) / 100000000"
    unfolding ud by simp
  have q: "f64_le f64_zero (f64_div ?a ?d)" "f64_le (f64_div ?a ?d) ?a"
    using ua by (intro le_rounded [OF finite_zero _ rd [unfolded e]] rounded_le [OF a(1) _ rd [unfolded e]]; simp)+
  have big: "f64_is_finite (Num False (1087 * 2 ^ 52))" "uval (Num False (1087 * 2 ^ 52)) = 2 ^ 1138"
    by (simp_all add: inf_mag_def munits_def sig_of_def exp_of_def)
  have "real (unat r) * one_units \<le> 2 ^ 64 * 2 ^ 1074"
    unfolding one_units_def using rr by (intro mult_right_mono) simp_all
  then have le: "f64_le ?a (Num False (1087 * 2 ^ 52))"
    by (intro rounded_le [OF big(1) _ f64_of_nat_rounded])
      (simp only: big(2) of_int_power of_int_numeral power_add [symmetric]; simp)
  have "capped 1 (Num False (1087 * 2 ^ 52))" unfolding capped_def big(2) using big(1)
    by (simp add: f64_le_def)
  then have "capped 1 ?a" using a(2) le by (rule capped_le)
  then show ?thesis unfolding fixed8_to_f64_def using q by (rule capped_le)
qed

text \<open>The events before the channel closes, and what they hold.\<close>

fun live :: "('p, 'q, 's) worker_event list \<Rightarrow> ('p, 'q, 's) worker_event list" where
  "live [] = []"
| "live (ChannelClosed # evs) = []"
| "live (ev # evs) = ev # live evs"

fun tape_of :: "('p, 'q, 's) feedhandler \<Rightarrow> ('p, 'q, 's) worker_event list \<Rightarrow> trade_in list" where
  "tape_of fh [] = []"
| "tape_of fh (TradeReceived t # evs) = (fixed8_to_f64 (price_raw fh (nt_price t)),
     fixed8_to_f64 (qty_raw fh (nt_qty t)), nt_ts_exchange_ns t) # tape_of fh evs"
| "tape_of fh (_ # evs) = tape_of fh evs"

fun ticks_of :: "('p, 'q, 's) worker_event list \<Rightarrow> u64 list" where
  "ticks_of [] = []"
| "ticks_of (HeartbeatTick ts # evs) = ts # ticks_of evs"
| "ticks_of (_ # evs) = ticks_of evs"

fun is_reading :: "server_message \<Rightarrow> bool" where
  "is_reading (Reading _ _ _ _ _ _ _) = True"
| "is_reading _ = False"

definition last_or :: "'a option \<Rightarrow> 'a list \<Rightarrow> 'a option" where
  "last_or d xs = (if xs = [] then d else Some (last xs))"

lemma last_or_simps [simp]: "last_or d [] = d" "last_or d (x # xs) = last_or (Some x) xs"
  by (simp_all add: last_or_def)

lemma is_reading_message [simp]: "is_reading (reading_message e s r)"
  by (simp add: reading_message_def)

text \<open>What a stretch of events adds to an entry: messages, and counts for the health snapshot.\<close>

definition published :: "str \<Rightarrow> str \<Rightarrow> u64 list \<Rightarrow> trade_in list \<Rightarrow> vpin_reading list \<Rightarrow> bool \<Rightarrow>
    stream_entry \<Rightarrow> stream_entry \<Rightarrow> bool" where
  "published exch symbol ticks tape rs alive entry entry' \<longleftrightarrow>
     (\<exists>msgs. se_sender entry' = se_sender entry @ msgs \<and>
        filter is_reading msgs = map (reading_message exch symbol) rs \<and>
        filter (Not \<circ> is_reading) msgs = map Heartbeat ticks \<and>
        se_last_message entry' = last_or (se_last_message entry) msgs) \<and>
     se_exchange entry' = se_exchange entry \<and> se_symbol entry' = se_symbol entry \<and>
     sh_trades_processed (se_health entry') = sh_trades_processed (se_health entry) + of_nat (length tape) \<and>
     sh_readings_emitted (se_health entry') = sh_readings_emitted (se_health entry) + of_nat (length rs) \<and>
     sh_last_trade_ts_ns (se_health entry') =
       last_or (sh_last_trade_ts_ns (se_health entry)) (map (snd \<circ> snd) tape) \<and>
     sh_last_heartbeat_ts_ns (se_health entry') = last_or (sh_last_heartbeat_ts_ns (se_health entry)) ticks \<and>
     sh_worker_alive (se_health entry') = (alive \<and> sh_worker_alive (se_health entry))"

lemma published_refl: "published exch symbol [] [] [] True entry entry"
  by (simp add: published_def)

lemma published_dead:
  "published exch symbol [] [] [] False entry (update_health (\<lambda>h. h\<lparr>sh_worker_alive := False\<rparr>) entry)"
  by (simp add: published_def update_health_def)

lemma published_heartbeat:
  assumes "published exch symbol ticks tape rs alive (worker_heartbeat ts entry) entry'"
  shows "published exch symbol (ts # ticks) tape rs alive entry entry'"
proof -
  obtain msgs where "se_sender entry' = se_sender (worker_heartbeat ts entry) @ msgs"
    "filter is_reading msgs = map (reading_message exch symbol) rs"
    "filter (Not \<circ> is_reading) msgs = map Heartbeat ticks"
    "se_last_message entry' = last_or (se_last_message (worker_heartbeat ts entry)) msgs"
    using assms unfolding published_def by blast
  then have "se_sender entry' = se_sender entry @ (Heartbeat ts # msgs) \<and>
      filter is_reading (Heartbeat ts # msgs) = map (reading_message exch symbol) rs \<and>
      filter (Not \<circ> is_reading) (Heartbeat ts # msgs) = map Heartbeat (ts # ticks) \<and>
      se_last_message entry' = last_or (se_last_message entry) (Heartbeat ts # msgs)"
    by (simp add: worker_heartbeat_def publish_def broadcast_send_def record_last_def update_health_def)
  with assms show ?thesis unfolding published_def
    by (auto simp: worker_heartbeat_def publish_def broadcast_send_def record_last_def update_health_def)
qed

lemma published_trade:
  assumes "published exch symbol ticks tape rs alive
      (update_health (\<lambda>h. h\<lparr>sh_trades_processed := sh_trades_processed h + 1,
        sh_last_trade_ts_ns := Some ts\<rparr>) entry) entry'"
  shows "published exch symbol ticks ((p, q, ts) # tape) rs alive entry entry'"
  using assms by (auto simp: published_def update_health_def)

lemma published_reading:
  assumes "published exch symbol ticks tape rs alive
      (update_health (\<lambda>h. h\<lparr>sh_readings_emitted := sh_readings_emitted h + 1\<rparr>)
        (publish entry (reading_message exch symbol r))) entry'"
  shows "published exch symbol ticks tape (r # rs) alive entry entry'"
proof -
  let ?m = "reading_message exch symbol r"
  obtain msgs where "se_sender entry' = se_sender entry @ [?m] @ msgs"
    "filter is_reading msgs = map (reading_message exch symbol) rs"
    "filter (Not \<circ> is_reading) msgs = map Heartbeat ticks"
    "se_last_message entry' = last_or (Some ?m) msgs"
    using assms unfolding published_def
    by (auto simp: publish_def broadcast_send_def record_last_def update_health_def)
  then have "se_sender entry' = se_sender entry @ (?m # msgs) \<and>
      filter is_reading (?m # msgs) = map (reading_message exch symbol) (r # rs) \<and>
      filter (Not \<circ> is_reading) (?m # msgs) = map Heartbeat ticks \<and>
      se_last_message entry' = last_or (se_last_message entry) (?m # msgs)"
    by simp
  with assms show ?thesis unfolding published_def
    by (auto simp: publish_def broadcast_send_def record_last_def update_health_def)
qed

lemma worker_loop_spec:
  "worker_loop erf fh exch symbol engine entry evs = Some entry' \<Longrightarrow>
    \<exists>engine' rs. engine_run erf engine (tape_of fh (live evs)) = Some (engine', rs) \<and>
      published exch symbol (ticks_of (live evs)) (tape_of fh (live evs)) rs (live evs = evs) entry entry'"
proof (induction evs arbitrary: engine entry)
  case (Cons ev evs)
  show ?case
  proof (cases ev)
    case (HeartbeatTick ts)
    then show ?thesis using Cons.IH [of engine "worker_heartbeat ts entry"] Cons.prems published_heartbeat
      by fastforce
  next
    case (TradeReceived t)
    define p q where "p = fixed8_to_f64 (price_raw fh (nt_price t))" and "q = fixed8_to_f64 (qty_raw fh (nt_qty t))"
    define entry1 where "entry1 = update_health (\<lambda>h. h\<lparr>sh_trades_processed := sh_trades_processed h + 1,
        sh_last_trade_ts_ns := Some (nt_ts_exchange_ns t)\<rparr>) entry"
    obtain e1 out where r: "push_trade erf engine p q (nt_ts_exchange_ns t) = Some (e1, out)"
      using Cons.prems by (auto simp: TradeReceived worker_trade_def Let_def p_def q_def split: option.splits)
    define entry2 where "entry2 = (case out of None \<Rightarrow> entry1 | Some reading \<Rightarrow>
      update_health (\<lambda>h. h\<lparr>sh_readings_emitted := sh_readings_emitted h + 1\<rparr>)
        (publish entry1 (reading_message exch symbol reading)))"
    have w: "worker_trade erf fh exch symbol engine entry t = Some (e1, entry2)"
      using r by (simp add: worker_trade_def Let_def p_def q_def entry1_def entry2_def split: option.split)
    then have "worker_loop erf fh exch symbol e1 entry2 evs = Some entry'"
      using Cons.prems by (simp add: TradeReceived)
    from Cons.IH [OF this] obtain e2 rs where ih: "engine_run erf e1 (tape_of fh (live evs)) = Some (e2, rs)"
      "published exch symbol (ticks_of (live evs)) (tape_of fh (live evs)) rs (live evs = evs) entry2 entry'" by blast
    define rs2 where "rs2 = (case out of None \<Rightarrow> rs | Some r \<Rightarrow> r # rs)"
    have "published exch symbol (ticks_of (live evs)) (tape_of fh (live evs)) rs2 (live evs = evs) entry1 entry'"
      using ih(2) published_reading unfolding entry2_def rs2_def by (auto split: option.splits)
    then have "published exch symbol (ticks_of (live evs)) ((p, q, nt_ts_exchange_ns t) # tape_of fh (live evs))
        rs2 (live evs = evs) entry entry'"
      unfolding entry1_def by (rule published_trade)
    moreover have "engine_run erf engine ((p, q, nt_ts_exchange_ns t) # tape_of fh (live evs)) = Some (e2, rs2)"
      by (simp add: r ih(1) rs2_def)
    ultimately show ?thesis by (simp add: TradeReceived p_def q_def)
  next
    case ChannelClosed
    then show ?thesis using Cons.prems published_dead by auto
  qed
qed (simp add: published_refl)

lemma tape_of_small: "\<forall>(p, v, t) \<in> set (tape_of fh evs). small v"
  by (induction fh evs rule: tape_of.induct) (auto simp: fixed8_small [simplified])

lemma worker_loop_total:
  assumes "erf_range erf"
  shows "engine_inv engine \<Longrightarrow> worker_loop erf fh exch symbol engine entry evs \<noteq> None"
proof (induction evs arbitrary: engine entry)
  case (Cons ev evs)
  show ?case
  proof (cases ev)
    case (TradeReceived t)
    obtain e1 out where "push_trade erf engine (fixed8_to_f64 (price_raw fh (nt_price t)))
        (fixed8_to_f64 (qty_raw fh (nt_qty t))) (nt_ts_exchange_ns t) = Some (e1, out)" "engine_inv e1"
      using push_trade_inv [OF assms Cons.prems fixed8_small] by blast
    then show ?thesis using Cons.IH [of e1]
      by (auto simp: TradeReceived worker_trade_def Let_def split: option.splits)
  qed (use Cons in auto)
qed simp

lemma worker_run_safe:
  assumes "erf_range erf" "VpinEngine_new cfg = Inr engine" "config_bounded cfg" "0 < heartbeat"
  shows "\<exists>entry. worker_run erf fh exch symbol cfg heartbeat (StreamEntry_new exch symbol) evs = Some entry \<and>
    (\<forall>e s b t n v c. Reading e s b t n v c \<in> set (se_sender entry) \<longrightarrow>
      e = exch \<and> s = symbol \<and> pred_option in_unit v \<and> pred_option in_unit c)"
proof -
  have ok: "config_ok cfg" "engine = fresh_engine cfg"
    using assms(2) VpinEngine_new_Inr by blast+
  have inv: "engine_inv engine" using fresh_engine_inv [OF ok(1) assms(3)] ok(2) by simp
  obtain entry where w: "worker_loop erf fh exch symbol engine
      (update_health (\<lambda>h. h\<lparr>sh_worker_alive := True\<rparr>) (StreamEntry_new exch symbol)) evs = Some entry"
    using worker_loop_total [OF assms(1) inv] by blast
  obtain e' rs where r: "engine_run erf engine (tape_of fh (live evs)) = Some (e', rs)"
    "filter is_reading (se_sender entry) = map (reading_message exch symbol) rs"
    using worker_loop_spec [OF w] by (auto simp: published_def update_health_def StreamEntry_new_def)
  have ok: "\<forall>x \<in> set rs. reading_ok (ve_ci engine \<noteq> None) x"
    using engine_run_inv [OF assms(1) inv tape_of_small, of fh "live evs"] r(1) by auto
  have "e = exch \<and> s = symbol \<and> pred_option in_unit v \<and> pred_option in_unit c"
    if "Reading e s b t n v c \<in> set (se_sender entry)" for e s b t n v c
  proof -
    have "Reading e s b t n v c \<in> set (filter is_reading (se_sender entry))" using that by simp
    then have "Reading e s b t n v c \<in> set (map (reading_message exch symbol) rs)" unfolding r(2) .
    then show ?thesis using ok by (auto simp: reading_message_def reading_ok_def)
  qed
  then show ?thesis using w assms(2,4) by (simp add: worker_run_def worker_start_def)
qed

text \<open>C29: what a worker broadcasts and counts: one heartbeat per tick with the tick's clock, one reading
  per reading of the engine over exactly the trades received before the channel closed, in that
  order; \<open>last_message\<close> is the last message broadcast; the health snapshot counts the trades and the
  readings (modulo \<open>2 ^ 64\<close>), holds the times of the last trade and tick, and says \<open>alive\<close> exactly
  while the channel has not closed.\<close>

theorem worker_publishes:
  assumes "worker_run erf fh exch symbol cfg heartbeat (StreamEntry_new exch symbol) evs = Some entry"
  shows "\<exists>engine engine' rs. VpinEngine_new cfg = Inr engine \<and>
    engine_run erf engine (tape_of fh (live evs)) = Some (engine', rs) \<and>
    filter is_reading (se_sender entry) = map (reading_message exch symbol) rs \<and>
    filter (Not \<circ> is_reading) (se_sender entry) = map Heartbeat (ticks_of (live evs)) \<and>
    se_last_message entry = last_or None (se_sender entry) \<and>
    se_health entry = \<lparr>sh_trades_processed = of_nat (length (tape_of fh (live evs))),
      sh_readings_emitted = of_nat (length rs),
      sh_last_trade_ts_ns = last_or None (map (snd \<circ> snd) (tape_of fh (live evs))),
      sh_last_heartbeat_ts_ns = last_or None (ticks_of (live evs)),
      sh_worker_alive = (live evs = evs)\<rparr>"
proof -
  obtain engine where e: "VpinEngine_new cfg = Inr engine" "worker_loop erf fh exch symbol engine
      (update_health (\<lambda>h. h\<lparr>sh_worker_alive := True\<rparr>) (StreamEntry_new exch symbol)) evs = Some entry"
    using assms by (auto simp: worker_run_def worker_start_def split: sum.splits option.splits if_splits)
  from worker_loop_spec [OF e(2)] e(1) show ?thesis
    by (auto simp: published_def update_health_def StreamEntry_new_def StreamHealth_default_def
        intro: stream_health.equality)
qed

theorem worker_publishes_witness:
  "\<forall>fh :: (u64, u64, str) feedhandler. \<exists>entry.
    worker_run erf_sign fh (str_of ''bybit'') (str_of ''BTC'') cfg_small (secs 5)
      (StreamEntry_new (str_of ''bybit'') (str_of ''BTC'')) [HeartbeatTick 7, ChannelClosed, HeartbeatTick 8] = Some entry \<and>
    se_last_message entry = last_or None (se_sender entry) \<and>
    filter (Not \<circ> is_reading) (se_sender entry) = [Heartbeat 7] \<and> \<not> sh_worker_alive (se_health entry)"
proof
  fix fh :: "(u64, u64, str) feedhandler"
  let ?evs = "[HeartbeatTick 7, ChannelClosed, HeartbeatTick 8] :: (u64, u64, str) worker_event list"
  let ?w = "worker_run erf_sign fh (str_of ''bybit'') (str_of ''BTC'') cfg_small (secs 5)
      (StreamEntry_new (str_of ''bybit'') (str_of ''BTC'')) ?evs"
  obtain entry where w: "?w = Some entry"
    by (simp add: worker_run_def worker_start_def cfg_small_new)
  then show "\<exists>entry. ?w = Some entry \<and>
    se_last_message entry = last_or None (se_sender entry) \<and>
    filter (Not \<circ> is_reading) (se_sender entry) = [Heartbeat 7] \<and> \<not> sh_worker_alive (se_health entry)"
    using worker_publishes [OF w] by auto
qed

end
