(* ===== verification/Service.thy ===== *)
theory Service
  imports Worker
begin

text \<open>
  \<open>services/toxicity-service/src\<close>: \<open>config.rs\<close>, \<open>registry.rs\<close> (the map) and \<open>main.rs\<close>. The
  environment, the file system and the JSON schema are parameters. The state of the running service
  is its registry and the list of stream tasks spawned so far; startup and every pass of the
  hot-reload loop are its steps. Error texts are kept as the values they are formatted from.
\<close>

subsection \<open>Configuration\<close>

record stream_config =
  sc_exchange :: str
  sc_symbol :: str
  sc_bucket_volume :: f64
  sc_sigma_window :: usize
  sc_vpin_window :: usize
  sc_cdf_window :: "usize option"
  sc_backoff_base_ms :: "u64 option"
  sc_backoff_max_secs :: "u64 option"

record service_config =
  cf_bind_addr :: str
  cf_health_bind_addr :: str
  cf_streams_file :: str
  cf_streams :: "stream_config list"
  cf_heartbeat_interval :: duration
  cf_auth_token :: "str option"
  cf_config_poll_interval :: "duration option"

datatype load_error = FailedToRead str str | FailedToParse str str | ZeroStreams str

definition optional_string :: "(str \<Rightarrow> str option) \<Rightarrow> str \<Rightarrow> str \<Rightarrow> str" where
  "optional_string env name dflt = (case env name of Some v \<Rightarrow> v | None \<Rightarrow> dflt)"

definition optional_u64 :: "(str \<Rightarrow> str option) \<Rightarrow> str \<Rightarrow> u64 \<Rightarrow> u64" where
  "optional_u64 env name dflt = (case env name of None \<Rightarrow> dflt
     | Some v \<Rightarrow> (case parse_u64 v of None \<Rightarrow> dflt | Some n \<Rightarrow> n))"

definition StreamConfig_backoff_config :: "stream_config \<Rightarrow> backoff_config" where
  "StreamConfig_backoff_config s =
     \<lparr>bc_base = (case sc_backoff_base_ms s of Some ms \<Rightarrow> millis (unat ms) | None \<Rightarrow> bc_base BackoffConfig_default),
      bc_max = (case sc_backoff_max_secs s of Some n \<Rightarrow> secs (unat n) | None \<Rightarrow> bc_max BackoffConfig_default)\<rparr>"

definition load_streams :: "(str \<Rightarrow> str + str) \<Rightarrow> (str \<Rightarrow> str + stream_config list) \<Rightarrow> str \<Rightarrow>
    load_error + stream_config list" where
  "load_streams read_file json path =
     (case read_file path of Inl e \<Rightarrow> Inl (FailedToRead path e)
      | Inr raw \<Rightarrow> (case json raw of Inl e \<Rightarrow> Inl (FailedToParse path e)
        | Inr streams \<Rightarrow> if streams = [] then Inl (ZeroStreams path) else Inr streams))"

text \<open>A missing required variable and an unusable streams file are panics.\<close>

definition ServiceConfig_from_env :: "(str \<Rightarrow> str option) \<Rightarrow> (str \<Rightarrow> str + str) \<Rightarrow>
    (str \<Rightarrow> str + stream_config list) \<Rightarrow> service_config option" where
  "ServiceConfig_from_env env read_file json =
     (case env (str_of ''GEIGER_STREAMS_FILE'') of None \<Rightarrow> None
      | Some path \<Rightarrow> (case load_streams read_file json path of Inl e \<Rightarrow> None
        | Inr streams \<Rightarrow>
            (let poll_secs = optional_u64 env (str_of ''GEIGER_CONFIG_POLL_SECS'') 0
             in Some \<lparr>cf_bind_addr = optional_string env (str_of ''GEIGER_BIND_ADDR'') (str_of ''0.0.0.0:9700''),
               cf_health_bind_addr = optional_string env (str_of ''GEIGER_HEALTH_ADDR'') (str_of ''0.0.0.0:9701''),
               cf_streams_file = path, cf_streams = streams,
               cf_heartbeat_interval = secs (unat (optional_u64 env (str_of ''GEIGER_HEARTBEAT_SECS'') 5)),
               cf_auth_token = (case env (str_of ''GEIGER_AUTH_TOKEN'') of None \<Rightarrow> None
                 | Some s \<Rightarrow> if s = [] then None else Some s),
               cf_config_poll_interval = (if 0 < poll_secs then Some (secs (unat poll_secs)) else None)\<rparr>)))"

definition parse_exchange :: "str \<Rightarrow> exchange option" where
  "parse_exchange s = (let l = to_ascii_lowercase s in
     if l = str_of ''binance'' then Some Binance
     else if l = str_of ''bybit'' then Some Bybit
     else if l = str_of ''hyperliquid'' then Some Hyperliquid
     else None)"

definition stream_key :: "str \<Rightarrow> str \<Rightarrow> str" where
  "stream_key exch symbol = to_ascii_lowercase exch @ 58 # to_ascii_uppercase symbol"

subsection \<open>Streams: validation, spawning, startup, hot reload\<close>

datatype resolve_error = UnknownExchange str | InvalidVpinConfig vpin_error

definition resolve_stream :: "stream_config \<Rightarrow> resolve_error + exchange \<times> vpin_engine_config" where
  "resolve_stream s =
     (case parse_exchange (sc_exchange s) of None \<Rightarrow> Inl (UnknownExchange (sc_exchange s))
      | Some exch \<Rightarrow>
          (let engine_cfg = \<lparr>vc_bucket_volume = sc_bucket_volume s, vc_sigma_window = sc_sigma_window s,
                 vc_vpin_window = sc_vpin_window s, vc_cdf_window = sc_cdf_window s,
                 vc_confidence_interval = None\<rparr>
           in case VpinEngine_new engine_cfg of Inl e \<Rightarrow> Inl (InvalidVpinConfig e)
              | Inr _ \<Rightarrow> Inr (exch, engine_cfg)))"

record stream_task =
  tk_key :: str
  tk_venue :: exchange
  tk_symbol :: str
  tk_engine_cfg :: vpin_engine_config
  tk_backoff_cfg :: backoff_config
  tk_heartbeat :: duration

record service =
  sv_registry :: "str \<rightharpoonup> stream_entry"
  sv_spawned :: "stream_task list"

definition spawn_stream :: "exchange \<Rightarrow> stream_config \<Rightarrow> vpin_engine_config \<Rightarrow> duration \<Rightarrow> service \<Rightarrow> service" where
  "spawn_stream exch cfg engine_cfg heartbeat_interval st =
     (let key = stream_key (sc_exchange cfg) (sc_symbol cfg)
      in st\<lparr>sv_registry := (sv_registry st)(key \<mapsto> StreamEntry_new (sc_exchange cfg) (sc_symbol cfg)),
            sv_spawned := sv_spawned st @ [\<lparr>tk_key = key, tk_venue = exch, tk_symbol = sc_symbol cfg,
              tk_engine_cfg = engine_cfg, tk_backoff_cfg = StreamConfig_backoff_config cfg,
              tk_heartbeat = heartbeat_interval\<rparr>]\<rparr>)"

text \<open>The body of the loop over the streams of a reloaded file, and one pass of the reload loop.\<close>

definition reload_one :: "duration \<Rightarrow> service \<Rightarrow> stream_config \<Rightarrow> service" where
  "reload_one heartbeat_interval st s =
     (if sv_registry st (stream_key (sc_exchange s) (sc_symbol s)) \<noteq> None then st
      else case resolve_stream s of
          Inr (exch, engine_cfg) \<Rightarrow> spawn_stream exch s engine_cfg heartbeat_interval st
        | Inl e \<Rightarrow> st)"

definition reload_pass :: "duration \<Rightarrow> load_error + stream_config list \<Rightarrow> service \<Rightarrow> service" where
  "reload_pass heartbeat_interval loaded st =
     (case loaded of Inl e \<Rightarrow> st | Inr streams \<Rightarrow> foldl (reload_one heartbeat_interval) st streams)"

text \<open>Startup: every stream is resolved before any is spawned; an invalid one is a panic.\<close>

fun resolve_all :: "stream_config list \<Rightarrow> (exchange \<times> stream_config \<times> vpin_engine_config) list option" where
  "resolve_all [] = Some []"
| "resolve_all (s # ss) = (case resolve_stream s of Inl e \<Rightarrow> None
     | Inr (exch, engine_cfg) \<Rightarrow> map_option (\<lambda>rs. (exch, s, engine_cfg) # rs) (resolve_all ss))"

fun spawn_all :: "duration \<Rightarrow> (exchange \<times> stream_config \<times> vpin_engine_config) list \<Rightarrow> service \<Rightarrow> service" where
  "spawn_all heartbeat_interval [] st = st"
| "spawn_all heartbeat_interval ((exch, s, engine_cfg) # rs) st =
     spawn_all heartbeat_interval rs (spawn_stream exch s engine_cfg heartbeat_interval st)"

definition service_startup :: "service_config \<Rightarrow> service option" where
  "service_startup cfg = map_option
     (\<lambda>resolved. spawn_all (cf_heartbeat_interval cfg) resolved \<lparr>sv_registry = Map.empty, sv_spawned = []\<rparr>)
     (resolve_all (cf_streams cfg))"

subsection \<open>Keys\<close>

lemma parse_exchange_lower:
  "parse_exchange e = Some x \<longleftrightarrow> to_ascii_lowercase e = (case x of Binance \<Rightarrow> str_of ''binance''
     | Bybit \<Rightarrow> str_of ''bybit'' | Hyperliquid \<Rightarrow> str_of ''hyperliquid'')"
  by (cases x) (auto simp: parse_exchange_def Let_def str_of_def)

lemma venue_no_colon: "parse_exchange e = Some x \<Longrightarrow> 58 \<notin> set (to_ascii_lowercase e)"
  unfolding parse_exchange_lower by (cases x) (simp_all add: str_of_def)

lemma append_sep_eq: "c \<notin> set a \<Longrightarrow> c \<notin> set a' \<Longrightarrow> a @ c # b = a' @ c # b' \<longleftrightarrow> a = a' \<and> b = b'"
  proof (induction a arbitrary: a')
  case Nil
  then show ?case by (cases a') auto
next
  case (Cons d a)
  then show ?case by (cases a') auto
qed

lemma stream_key_inj:
  assumes "parse_exchange e = Some x" "parse_exchange e' = Some x'"
  shows "stream_key e s = stream_key e' s' \<longleftrightarrow> x = x' \<and> to_ascii_uppercase s = to_ascii_uppercase s'"
proof -
  have "to_ascii_lowercase e = to_ascii_lowercase e' \<longleftrightarrow> x = x'"
    using assms unfolding parse_exchange_lower by (cases x; cases x') (simp_all add: str_of_def)
  then show ?thesis
    unfolding stream_key_def append_sep_eq [OF venue_no_colon [OF assms(1)] venue_no_colon [OF assms(2)]] by simp
qed

text \<open>two streams with known exchanges share a registry key exactly when they are the same venue
  and the same symbol up to ASCII case, so no two different streams can shadow each other, whatever
  characters their symbols contain.\<close>

theorem stream_key_eq:
  assumes "parse_exchange e = Some x" "parse_exchange e' = Some x'"
  shows "stream_key e s = stream_key e' s' \<longleftrightarrow> x = x' \<and> to_ascii_uppercase s = to_ascii_uppercase s'"
  using assms by (rule stream_key_inj)

theorem stream_key_eq_witness:
  "stream_key (str_of ''ByBit'') (str_of ''btc'') = stream_key (str_of ''bybit'') (str_of ''BTC'')"
proof -
  have "parse_exchange (str_of ''ByBit'') = Some Bybit" "parse_exchange (str_of ''bybit'') = Some Bybit"
    by (simp_all add: parse_exchange_def str_of_def ascii_lower_def)
  from stream_key_eq [OF this] show ?thesis by (simp add: str_of_def ascii_upper_def)
qed

subsection \<open>Resolution\<close>

definition stream_ok :: "stream_config \<Rightarrow> bool" where
  "stream_ok s \<longleftrightarrow> \<not> is_err (resolve_stream s)"

definition engine_cfg_of :: "stream_config \<Rightarrow> vpin_engine_config" where
  "engine_cfg_of s = \<lparr>vc_bucket_volume = sc_bucket_volume s, vc_sigma_window = sc_sigma_window s,
     vc_vpin_window = sc_vpin_window s, vc_cdf_window = sc_cdf_window s, vc_confidence_interval = None\<rparr>"

abbreviation key_of :: "stream_config \<Rightarrow> str" where
  "key_of s \<equiv> stream_key (sc_exchange s) (sc_symbol s)"

lemma resolve_stream_eq: "resolve_stream s = (case parse_exchange (sc_exchange s) of
      None \<Rightarrow> Inl (UnknownExchange (sc_exchange s))
    | Some exch \<Rightarrow> (case VpinEngine_new (engine_cfg_of s) of Inl e \<Rightarrow> Inl (InvalidVpinConfig e)
        | Inr _ \<Rightarrow> Inr (exch, engine_cfg_of s)))"
  unfolding resolve_stream_def Let_def engine_cfg_of_def by (rule refl)

lemma resolve_stream_Inr: "resolve_stream s = Inr (exch, engine_cfg) \<longleftrightarrow>
    parse_exchange (sc_exchange s) = Some exch \<and> engine_cfg = engine_cfg_of s \<and> config_ok engine_cfg"
proof (cases "VpinEngine_new (engine_cfg_of s)")
  case (Inl e)
  then have "\<not> config_ok (engine_cfg_of s)" by (metis VpinEngine_new_Inr sum.distinct(1))
  then show ?thesis using Inl by (auto simp: resolve_stream_eq split: option.splits)
next
  case (Inr e)
  then have "config_ok (engine_cfg_of s)" using VpinEngine_new_Inr by blast
  then show ?thesis using Inr by (auto simp: resolve_stream_eq split: option.splits)
qed

lemma stream_ok_iff: "stream_ok s \<longleftrightarrow> parse_exchange (sc_exchange s) \<noteq> None \<and> config_ok (engine_cfg_of s)"
proof -
  have "stream_ok s \<longleftrightarrow> (\<exists>exch engine_cfg. resolve_stream s = Inr (exch, engine_cfg))"
    unfolding stream_ok_def by (cases "resolve_stream s") auto
  then show ?thesis unfolding resolve_stream_Inr by auto
qed

text \<open>The task of a stream whose exchange is known.\<close>

definition task_of :: "duration \<Rightarrow> stream_config \<Rightarrow> stream_task" where
  "task_of hb s = \<lparr>tk_key = key_of s, tk_venue = the (parse_exchange (sc_exchange s)), tk_symbol = sc_symbol s,
     tk_engine_cfg = engine_cfg_of s, tk_backoff_cfg = StreamConfig_backoff_config s, tk_heartbeat = hb\<rparr>"

definition entry_of :: "stream_config \<Rightarrow> stream_entry" where
  "entry_of s = StreamEntry_new (sc_exchange s) (sc_symbol s)"

lemma task_of_key [simp]: "tk_key (task_of hb s) = key_of s"
  by (simp add: task_of_def)

lemma reload_one_eq: "reload_one hb st s =
    (if sv_registry st (key_of s) = None \<and> stream_ok s
     then \<lparr>sv_registry = (sv_registry st)(key_of s \<mapsto> entry_of s), sv_spawned = sv_spawned st @ [task_of hb s]\<rparr>
     else st)"
proof (cases "stream_ok s")
  case True
  then obtain exch where "resolve_stream s = Inr (exch, engine_cfg_of s)" "parse_exchange (sc_exchange s) = Some exch"
    unfolding stream_ok_iff using resolve_stream_Inr by blast
  then show ?thesis using True
    by (simp add: reload_one_def spawn_stream_def Let_def task_of_def entry_of_def)
next
  case False
  then show ?thesis by (cases "resolve_stream s") (auto simp: reload_one_def stream_ok_def)
qed

lemma resolve_all_Some: "resolve_all ss = Some rs \<longleftrightarrow> (\<forall>s \<in> set ss. stream_ok s) \<and>
    rs = map (\<lambda>s. (the (parse_exchange (sc_exchange s)), s, engine_cfg_of s)) ss"
proof (induction ss arbitrary: rs)
  case (Cons s ss)
  show ?case
  proof (cases "stream_ok s")
    case True
    then obtain exch where "resolve_stream s = Inr (exch, engine_cfg_of s)" "parse_exchange (sc_exchange s) = Some exch"
      unfolding stream_ok_iff using resolve_stream_Inr by blast
    then show ?thesis using True Cons.IH by auto
  next
    case False
    then show ?thesis by (cases "resolve_stream s") (auto simp: stream_ok_def)
  qed
qed auto

lemma spawn_all_eq: "spawn_all hb (map (\<lambda>s. (the (parse_exchange (sc_exchange s)), s, engine_cfg_of s)) ss) st =
    \<lparr>sv_registry = sv_registry st ++ map_of (rev (map (\<lambda>s. (key_of s, entry_of s)) ss)),
     sv_spawned = sv_spawned st @ map (task_of hb) ss\<rparr>"
  by (induction ss arbitrary: st)
    (simp_all add: spawn_stream_def Let_def task_of_def entry_of_def map_add_assoc [symmetric])

lemma service_startup_Some: "service_startup cfg = Some st \<longleftrightarrow> (\<forall>s \<in> set (cf_streams cfg). stream_ok s) \<and>
    st = \<lparr>sv_registry = map_of (rev (map (\<lambda>s. (key_of s, entry_of s)) (cf_streams cfg))),
          sv_spawned = map (task_of (cf_heartbeat_interval cfg)) (cf_streams cfg)\<rparr>"
  unfolding service_startup_def using resolve_all_Some [of "cf_streams cfg"] by (auto simp: spawn_all_eq)

lemma startup_registry: "service_startup cfg = Some st \<Longrightarrow>
    sv_registry st k = map_of (rev (map (\<lambda>s. (key_of s, entry_of s)) (cf_streams cfg))) k"
  unfolding service_startup_Some by simp

text \<open>startup is all or nothing: it fails exactly when some stream has an unknown exchange or a
  configuration the engine rejects; otherwise it spawns one task per stream of the file, in order,
  and registers a fresh entry under exactly their keys.\<close>

theorem startup_all_or_nothing:
  "(service_startup cfg = None \<longleftrightarrow> (\<exists>s \<in> set (cf_streams cfg). parse_exchange (sc_exchange s) = None \<or>
      is_err (VpinEngine_new (engine_cfg_of s)))) \<and>
   pred_option (\<lambda>st. sv_spawned st = map (task_of (cf_heartbeat_interval cfg)) (cf_streams cfg) \<and>
      dom (sv_registry st) = key_of ` set (cf_streams cfg) \<and>
      ran (sv_registry st) \<subseteq> entry_of ` set (cf_streams cfg)) (service_startup cfg)"
proof -
  let ?ss = "cf_streams cfg"
  have ok: "stream_ok s \<longleftrightarrow> \<not> (parse_exchange (sc_exchange s) = None \<or> is_err (VpinEngine_new (engine_cfg_of s)))" for s
    unfolding stream_ok_iff using VpinEngine_new_Inr [of "engine_cfg_of s"]
    by (cases "VpinEngine_new (engine_cfg_of s)") auto
  have r: "ran (map_of (rev (map (\<lambda>s. (key_of s, entry_of s)) ?ss))) \<subseteq> entry_of ` set ?ss"
    using ran_distinct map_of_SomeD by (fastforce simp: ran_def)
  have d: "dom (map_of (rev (map (\<lambda>s. (key_of s, entry_of s)) ?ss))) = key_of ` set ?ss"
    by (simp add: dom_map_of_conv_image_fst image_image)
  show ?thesis
  proof (cases "\<forall>s \<in> set ?ss. stream_ok s")
    case True
    then have "service_startup cfg = Some \<lparr>sv_registry = map_of (rev (map (\<lambda>s. (key_of s, entry_of s)) ?ss)),
        sv_spawned = map (task_of (cf_heartbeat_interval cfg)) ?ss\<rparr>"
      using service_startup_Some by blast
    then show ?thesis using True r d unfolding ok by simp
  next
    case False
    then have "service_startup cfg = None" using service_startup_Some by (cases "service_startup cfg") auto
    then show ?thesis using False unfolding ok by simp
  qed
qed

subsection \<open>Hot reload\<close>

text \<open>A stream of the file that a pass starts: valid, not registered before, no earlier stream of the
  file with its key started.\<close>

fun fresh_streams :: "str set \<Rightarrow> stream_config list \<Rightarrow> stream_config list" where
  "fresh_streams ks [] = []"
| "fresh_streams ks (s # ss) = (if key_of s \<notin> ks \<and> stream_ok s then s # fresh_streams (insert (key_of s) ks) ss
     else fresh_streams ks ss)"

definition valid_keys :: "stream_config list \<Rightarrow> str set" where
  "valid_keys ss = key_of ` {s \<in> set ss. stream_ok s}"

lemma valid_keys_simps [simp]: "valid_keys [] = {}"
  "valid_keys (s # ss) = (if stream_ok s then insert (key_of s) (valid_keys ss) else valid_keys ss)"
  by (auto simp: valid_keys_def)

lemma fresh_streams_set: "key_of ` set (fresh_streams ks ss) = valid_keys ss - ks"
proof (induction ks ss rule: fresh_streams.induct)
  case (2 ks s ss)
  show ?case
  proof (cases "key_of s \<notin> ks \<and> stream_ok s")
    case True
    then have "key_of ` set (fresh_streams ks (s # ss)) = insert (key_of s) (valid_keys ss - insert (key_of s) ks)"
      using 2(1) by simp
    then show ?thesis using True by auto
  next
    case False
    then have "key_of ` set (fresh_streams ks (s # ss)) = valid_keys ss - ks"
      using 2(2) by (simp only: fresh_streams.simps False if_False simp_thms)
    then show ?thesis using False by auto
  qed
qed simp

lemma fresh_streams_sub: "set (fresh_streams ks ss) \<subseteq> {s \<in> set ss. stream_ok s}"
  by (induction ks ss rule: fresh_streams.induct) auto

lemma fresh_streams_distinct: "distinct (map key_of (fresh_streams ks ss))"
proof (induction ks ss rule: fresh_streams.induct)
  case (2 ks s ss)
  then show ?case using fresh_streams_set [of "insert (key_of s) ks" ss] by auto
qed simp

lemma fresh_streams_none: "valid_keys ss \<subseteq> ks \<Longrightarrow> fresh_streams ks ss = []"
  by (induction ss) (auto split: if_splits)

lemma reload_pass_eq: "reload_pass hb (Inr ss) st =
    \<lparr>sv_registry = sv_registry st ++ map_of (map (\<lambda>s. (key_of s, entry_of s)) (fresh_streams (dom (sv_registry st)) ss)),
     sv_spawned = sv_spawned st @ map (task_of hb) (fresh_streams (dom (sv_registry st)) ss)\<rparr>"
proof (induction ss arbitrary: st)
  case (Cons s ss)
  have step: "reload_pass hb (Inr (s # ss)) st = reload_pass hb (Inr ss) (reload_one hb st s)"
    by (simp add: reload_pass_def)
  show ?case
  proof (cases "key_of s \<notin> dom (sv_registry st) \<and> stream_ok s")
    case True
    let ?st = "reload_one hb st s" and ?fs = "fresh_streams (insert (key_of s) (dom (sv_registry st))) ss"
    have st: "?st = \<lparr>sv_registry = (sv_registry st)(key_of s \<mapsto> entry_of s), sv_spawned = sv_spawned st @ [task_of hb s]\<rparr>"
      using True by (simp add: reload_one_eq domIff)
    have k: "key_of s \<notin> dom (map_of (map (\<lambda>s. (key_of s, entry_of s)) ?fs))"
      using fresh_streams_set [of "insert (key_of s) (dom (sv_registry st))" ss]
      by (auto simp: dom_map_of_conv_image_fst image_image)
    have d: "dom (sv_registry ?st) = insert (key_of s) (dom (sv_registry st))"
      by (simp add: st)
    show ?thesis unfolding step Cons.IH d using True k
      by (auto simp: st map_add_def fun_eq_iff domIff split: option.splits)
  next
    case False
    then have "reload_one hb st s = st" by (auto simp: reload_one_eq domIff)
    then show ?thesis unfolding step Cons.IH using False by auto
  qed
qed (simp add: reload_pass_def)

text \<open>a reload pass never removes or replaces a registered stream and never stops a task; a file that
  cannot be loaded changes nothing; afterwards exactly the old keys and the keys of the file's valid
  streams are registered, one new task was spawned per new key, and a second pass over the same file
  changes nothing.\<close>

theorem reload_exact:
  "reload_pass hb (Inl e) st = st \<and>
   sv_registry st \<subseteq>\<^sub>m sv_registry (reload_pass hb (Inr ss) st) \<and>
   dom (sv_registry (reload_pass hb (Inr ss) st)) =
     dom (sv_registry st) \<union> valid_keys ss \<and>
   (\<exists>new. sv_spawned (reload_pass hb (Inr ss) st) = sv_spawned st @ map (task_of hb) new \<and>
      set new \<subseteq> set ss \<and> distinct (map key_of new) \<and>
      set (map key_of new) = valid_keys ss - dom (sv_registry st)) \<and>
   reload_pass hb (Inr ss) (reload_pass hb (Inr ss) st) = reload_pass hb (Inr ss) st"
proof -
  let ?fs = "fresh_streams (dom (sv_registry st)) ss" and ?st = "reload_pass hb (Inr ss) st"
  have dm: "dom (map_of (map (\<lambda>s. (key_of s, entry_of s)) ?fs)) = valid_keys ss - dom (sv_registry st)"
    unfolding dom_map_of_conv_image_fst using fresh_streams_set [of "dom (sv_registry st)" ss] by (simp add: image_image)
  have sub: "sv_registry st \<subseteq>\<^sub>m sv_registry ?st"
    unfolding reload_pass_eq using dm by (auto simp: map_le_def map_add_def domIff split: option.splits)
  have d: "dom (sv_registry ?st) = dom (sv_registry st) \<union> valid_keys ss"
    unfolding reload_pass_eq using dm by auto
  then have "fresh_streams (dom (sv_registry ?st)) ss = []" by (intro fresh_streams_none) blast
  then have idem: "reload_pass hb (Inr ss) ?st = ?st" by (simp add: reload_pass_eq [of hb ss ?st])
  have "set ?fs \<subseteq> set ss" using fresh_streams_sub by auto
  then have new: "\<exists>new. sv_spawned ?st = sv_spawned st @ map (task_of hb) new \<and>
      set new \<subseteq> set ss \<and> distinct (map key_of new) \<and>
      set (map key_of new) = valid_keys ss - dom (sv_registry st)"
    using fresh_streams_distinct [of "dom (sv_registry st)" ss] fresh_streams_set [of "dom (sv_registry st)" ss]
    by (intro exI [of _ ?fs]) (simp add: reload_pass_eq)
  show ?thesis using sub d new idem by (simp add: reload_pass_def)
qed

subsection \<open>The running service\<close>

text \<open>Startup, reload passes when polling is enabled, and the updates of the workers, which replace the
  message and the health of an entry and never its name.\<close>

inductive service_reachable :: "service_config \<Rightarrow> service \<Rightarrow> bool" for cfg where
  Startup: "service_startup cfg = Some st \<Longrightarrow> service_reachable cfg st"
| Reload: "service_reachable cfg st \<Longrightarrow> cf_config_poll_interval cfg \<noteq> None \<Longrightarrow>
    service_reachable cfg (reload_pass (cf_heartbeat_interval cfg) loaded st)"
| Worker_update: "service_reachable cfg st \<Longrightarrow> sv_registry st k = Some e \<Longrightarrow>
    se_exchange e' = se_exchange e \<Longrightarrow> se_symbol e' = se_symbol e \<Longrightarrow>
    service_reachable cfg (st\<lparr>sv_registry := (sv_registry st)(k \<mapsto> e')\<rparr>)"

definition entry_matches :: "stream_task \<Rightarrow> stream_entry \<Rightarrow> bool" where
  "entry_matches t e \<longleftrightarrow> parse_exchange (se_exchange e) = Some (tk_venue t) \<and>
     to_ascii_uppercase (se_symbol e) = to_ascii_uppercase (tk_symbol t)"

definition task_ok :: "duration \<Rightarrow> (str \<rightharpoonup> stream_entry) \<Rightarrow> stream_task \<Rightarrow> bool" where
  "task_ok hb reg t \<longleftrightarrow> config_ok (tk_engine_cfg t) \<and> tk_heartbeat t = hb \<and>
     pred_option (entry_matches t) (reg (tk_key t)) \<and> reg (tk_key t) \<noteq> None"

lemma keys_match:
  assumes "stream_ok s" "stream_ok s'" "key_of s = key_of s'" shows "entry_matches (task_of hb s) (entry_of s')"
proof -
  obtain x x' where x: "parse_exchange (sc_exchange s) = Some x" "parse_exchange (sc_exchange s') = Some x'"
    using assms(1,2) by (auto simp: stream_ok_iff)
  show ?thesis using stream_key_inj [OF x] assms(3) x
    by (simp add: entry_matches_def task_of_def entry_of_def StreamEntry_new_def)
qed

lemma task_ok_intro:
  assumes "stream_ok s" "reg (key_of s) = Some (entry_of s')" "stream_ok s'" "key_of s = key_of s'"
  shows "task_ok hb reg (task_of hb s)"
  using assms keys_match [OF assms(1,3,4), of hb]
  by (auto simp: task_ok_def stream_ok_iff) (simp add: task_of_def)+

definition service_inv :: "service_config \<Rightarrow> service \<Rightarrow> bool" where
  "service_inv cfg st \<longleftrightarrow> dom (sv_registry st) = tk_key ` set (sv_spawned st) \<and>
     (distinct (map tk_key (sv_spawned st)) \<longleftrightarrow> distinct (map key_of (cf_streams cfg))) \<and>
     (\<forall>t \<in> set (sv_spawned st). task_ok (cf_heartbeat_interval cfg) (sv_registry st) t)"

lemma startup_inv [inv_intros]:
  assumes "service_startup cfg = Some st" shows "service_inv cfg st"
proof -
  let ?ss = "cf_streams cfg" and ?hb = "cf_heartbeat_interval cfg"
  let ?reg = "map_of (rev (map (\<lambda>s. (key_of s, entry_of s)) ?ss))"
  have st: "\<forall>s \<in> set ?ss. stream_ok s" "st = \<lparr>sv_registry = ?reg, sv_spawned = map (task_of ?hb) ?ss\<rparr>"
    using assms service_startup_Some by blast+
  have d: "dom ?reg = key_of ` set ?ss" by (simp add: dom_map_of_conv_image_fst image_image)
  have "task_ok ?hb ?reg (task_of ?hb s)" if s: "s \<in> set ?ss" for s
  proof -
    obtain e where e: "?reg (key_of s) = Some e" using d s by blast
    then have "(key_of s, e) \<in> set (rev (map (\<lambda>s. (key_of s, entry_of s)) ?ss))" by (rule map_of_SomeD)
    then obtain s' where s': "s' \<in> set ?ss" "key_of s = key_of s'" "e = entry_of s'" by auto
    then show ?thesis using task_ok_intro [of s ?reg s'] st(1) s e by blast
  qed
  then show ?thesis unfolding service_inv_def st(2) using d by (simp add: image_image comp_def)
qed

lemma task_ok_mono:
  assumes "task_ok hb reg t" "\<And>e. reg (tk_key t) = Some e \<Longrightarrow>
    \<exists>e'. reg' (tk_key t) = Some e' \<and> se_exchange e' = se_exchange e \<and> se_symbol e' = se_symbol e"
  shows "task_ok hb reg' t"
  using assms by (auto simp: task_ok_def entry_matches_def)

lemma reload_inv [inv_intros]:
  assumes inv: "service_inv cfg st" shows "service_inv cfg (reload_pass (cf_heartbeat_interval cfg) loaded st)"
proof (cases loaded)
  case (Inr ss)
  let ?hb = "cf_heartbeat_interval cfg" and ?fs = "fresh_streams (dom (sv_registry st)) ss"
  let ?new = "map_of (map (\<lambda>s. (key_of s, entry_of s)) ?fs)"
  let ?reg = "sv_registry st ++ ?new"
  have st: "reload_pass ?hb loaded st = \<lparr>sv_registry = ?reg, sv_spawned = sv_spawned st @ map (task_of ?hb) ?fs\<rparr>"
    by (simp add: Inr reload_pass_eq)
  have dn: "dom ?new = key_of ` set ?fs" by (simp add: dom_map_of_conv_image_fst image_image)
  have disj: "key_of ` set ?fs \<inter> dom (sv_registry st) = {}"
    using fresh_streams_set [of "dom (sv_registry st)" ss] by blast
  have old: "task_ok ?hb ?reg t" if t: "t \<in> set (sv_spawned st)" for t
  proof (rule task_ok_mono)
    show "task_ok ?hb (sv_registry st) t" using inv t by (simp add: service_inv_def)
    have "tk_key t \<in> dom (sv_registry st)" using inv t by (simp add: service_inv_def)
    then have "?new (tk_key t) = None" using disj dn by blast
    then show "\<exists>e'. ?reg (tk_key t) = Some e' \<and> se_exchange e' = se_exchange e \<and> se_symbol e' = se_symbol e"
      if "sv_registry st (tk_key t) = Some e" for e using that by (simp add: map_add_def)
  qed
  have new: "task_ok ?hb ?reg (task_of ?hb s)" if s: "s \<in> set ?fs" for s
  proof -
    have "map_of (map (\<lambda>s. (key_of s, entry_of s)) ?fs) (key_of s) = Some (entry_of s)"
      using s fresh_streams_distinct by (intro map_of_is_SomeI) (auto simp: comp_def)
    moreover have "stream_ok s" using s fresh_streams_sub by blast
    ultimately show ?thesis using task_ok_intro [of s ?reg s] by (simp add: map_add_def)
  qed
  have "dom ?reg = tk_key ` set (sv_spawned st @ map (task_of ?hb) ?fs)"
    unfolding dom_map_add dn using inv by (simp add: service_inv_def image_Un image_image Un_commute)
  moreover have "distinct (map tk_key (sv_spawned st @ map (task_of ?hb) ?fs)) \<longleftrightarrow>
      distinct (map tk_key (sv_spawned st))"
    using disj inv fresh_streams_distinct [of "dom (sv_registry st)" ss]
    by (auto simp: comp_def service_inv_def image_image Int_commute)
  ultimately show ?thesis unfolding st service_inv_def using inv old new by (auto simp: service_inv_def)
qed (use inv in \<open>simp add: reload_pass_def\<close>)

lemma service_reachable_inv: "service_reachable cfg st \<Longrightarrow> service_inv cfg st"
proof (induction rule: service_reachable.induct)
  case (Worker_update st k e e')
  have "task_ok (cf_heartbeat_interval cfg) ((sv_registry st)(k \<mapsto> e')) t" if "t \<in> set (sv_spawned st)" for t
    by (rule task_ok_mono [of _ "sv_registry st"])
      (use Worker_update that in \<open>auto simp: service_inv_def\<close>)
  then show ?case using Worker_update by (auto simp: service_inv_def)
qed (auto intro: inv_intros)

text \<open>C22: in every reachable state of the service the registered keys are the keys of the spawned tasks, each
  task runs an engine configuration the engine accepts with the configured heartbeat, its registered
  entry is of the same venue and (up to case) symbol, and no key has two tasks unless the file had it
  twice at startup: reloading never doubles a stream.\<close>

theorem service_reachable_ok:
  assumes "service_reachable cfg st"
  shows "dom (sv_registry st) = tk_key ` set (sv_spawned st) \<and>
    (distinct (map tk_key (sv_spawned st)) \<longleftrightarrow>
       distinct (map (\<lambda>s. stream_key (sc_exchange s) (sc_symbol s)) (cf_streams cfg))) \<and>
    (\<forall>t \<in> set (sv_spawned st). \<not> is_err (VpinEngine_new (tk_engine_cfg t)) \<and>
       tk_heartbeat t = cf_heartbeat_interval cfg \<and>
       (\<exists>e. sv_registry st (tk_key t) = Some e \<and> parse_exchange (se_exchange e) = Some (tk_venue t) \<and>
          to_ascii_uppercase (se_symbol e) = to_ascii_uppercase (tk_symbol t)))"
proof -
  have inv: "service_inv cfg st" by (rule service_reachable_inv [OF assms])
  have "\<not> is_err (VpinEngine_new c)" if "config_ok c" for c
    using that VpinEngine_new_Inr [of c] by (metis is_err_simps(2))
  then show ?thesis using inv by (auto simp: service_inv_def task_ok_def entry_matches_def)
qed

definition stream_small :: "str \<Rightarrow> str \<Rightarrow> stream_config" where
  "stream_small e s = \<lparr>sc_exchange = e, sc_symbol = s, sc_bucket_volume = f64_of_nat 100, sc_sigma_window = 2,
     sc_vpin_window = 1, sc_cdf_window = Some 2, sc_backoff_base_ms = None, sc_backoff_max_secs = None\<rparr>"

lemma stream_small_cfg: "engine_cfg_of (stream_small e s) = cfg_small"
  by (simp add: engine_cfg_of_def stream_small_def cfg_small_def)

lemma stream_small_ok: "parse_exchange e \<noteq> None \<Longrightarrow> stream_ok (stream_small e s)"
  unfolding stream_ok_iff stream_small_cfg using cfg_small_ok(1) by (simp add: stream_small_def)

definition service_small :: "duration \<Rightarrow> stream_config list \<Rightarrow> service_config" where
  "service_small hb ss = \<lparr>cf_bind_addr = [], cf_health_bind_addr = [], cf_streams_file = [], cf_streams = ss,
     cf_heartbeat_interval = hb, cf_auth_token = None, cf_config_poll_interval = Some (secs 60)\<rparr>"

definition twice :: "stream_config list" where
  "twice = [stream_small (str_of ''bybit'') (str_of ''BTC''), stream_small (str_of ''Bybit'') (str_of ''btc'')]"

lemma twice_ok: "\<forall>s \<in> set twice. stream_ok s"
proof -
  have "parse_exchange (str_of ''bybit'') \<noteq> None" "parse_exchange (str_of ''Bybit'') \<noteq> None"
    by (simp_all add: parse_exchange_def str_of_def ascii_lower_def)
  then show ?thesis by (simp add: twice_def stream_small_ok)
qed

lemma twice_started: obtains st where "service_startup (service_small hb twice) = Some st"
  "sv_spawned st = map (task_of hb) twice"
  using twice_ok service_startup_Some [of "service_small hb twice"] by (auto simp: service_small_def)

lemma twice_keys: "key_of (twice ! 0) = key_of (twice ! 1)"
  by (simp add: twice_def stream_small_def stream_key_def str_of_def ascii_lower_def ascii_upper_def)

theorem service_reachable_ok_witness:
  "\<exists>st. service_reachable (service_small (secs 5) twice) (reload_pass (secs 5) (Inr twice) st) \<and>
    length (sv_spawned st) = 2 \<and>
    \<not> distinct (map tk_key (sv_spawned (reload_pass (secs 5) (Inr twice) st)))"
proof -
  obtain st where st: "service_startup (service_small (secs 5) twice) = Some st"
    "sv_spawned st = map (task_of (secs 5)) twice" by (rule twice_started)
  have "service_reachable (service_small (secs 5) twice) (reload_pass (secs 5) (Inr twice) st)"
    using service_reachable.Reload [OF service_reachable.Startup [OF st(1)], of "Inr twice"]
    by (simp add: service_small_def)
  moreover have "\<not> distinct (map key_of twice)" using twice_keys by (simp add: twice_def)
  ultimately show ?thesis using service_reachable_ok st(2)
    by (intro exI [of _ st]) (auto simp: service_small_def twice_def)
qed

text \<open>startup does not reject a file that names one stream twice: every such configuration of valid
  streams starts two tasks on one key, of which only the last one's entry stays registered, so there
  are fewer registered streams than tasks.\<close>

theorem duplicate_streams_started:
  assumes "service_startup cfg = Some st" "i < j" "j < length (cf_streams cfg)"
    and "parse_exchange (sc_exchange (cf_streams cfg ! i)) = parse_exchange (sc_exchange (cf_streams cfg ! j))"
    and "to_ascii_uppercase (sc_symbol (cf_streams cfg ! i)) = to_ascii_uppercase (sc_symbol (cf_streams cfg ! j))"
  shows "tk_key (sv_spawned st ! i) = tk_key (sv_spawned st ! j) \<and>
    card (dom (sv_registry st)) < length (sv_spawned st)"
proof -
  let ?ss = "cf_streams cfg"
  have st: "\<forall>s \<in> set ?ss. stream_ok s" "sv_spawned st = map (task_of (cf_heartbeat_interval cfg)) ?ss"
    using assms(1) service_startup_Some by auto
  have "stream_ok (?ss ! i)" using st(1) assms(2,3) by simp
  then obtain x where x: "parse_exchange (sc_exchange (?ss ! i)) = Some x" by (auto simp: stream_ok_iff)
  have key: "key_of (?ss ! i) = key_of (?ss ! j)"
    using stream_key_inj [OF x x [unfolded assms(4)]] assms(5) by blast
  have "map key_of ?ss ! i = map key_of ?ss ! j" using assms(2,3) key by simp
  then have "\<not> distinct (map key_of ?ss)" using assms(2,3) nth_eq_iff_index_eq [of "map key_of ?ss" i j] by auto
  then have nd: "\<not> distinct (map tk_key (sv_spawned st))" using st(2) by (simp add: comp_def)
  have "dom (sv_registry st) = set (map tk_key (sv_spawned st))"
    using startup_inv [OF assms(1)] by (simp add: service_inv_def)
  then have "card (dom (sv_registry st)) \<noteq> length (map tk_key (sv_spawned st))"
    using nd card_distinct by metis
  moreover have "card (dom (sv_registry st)) \<le> length (map tk_key (sv_spawned st))"
    unfolding \<open>dom (sv_registry st) = _\<close> by (rule card_length)
  ultimately show ?thesis using key st(2) assms(2,3) by simp
qed

theorem duplicate_streams_started_witness:
  "\<exists>st. service_startup (service_small (secs 5) twice) = Some st \<and>
    card (dom (sv_registry st)) < length (sv_spawned st)"
proof -
  obtain st where st: "service_startup (service_small (secs 5) twice) = Some st" by (rule twice_started)
  have "card (dom (sv_registry st)) < length (sv_spawned st)"
    using duplicate_streams_started [OF st, of 0 1]
    by (simp add: service_small_def twice_def stream_small_def parse_exchange_def str_of_def ascii_lower_def ascii_upper_def)
  then show ?thesis using st by blast
qed

subsection \<open>The workers of a running service\<close>

lemma task_engine: "service_reachable cfg st \<Longrightarrow> t \<in> set (sv_spawned st) \<Longrightarrow>
    VpinEngine_new (tk_engine_cfg t) = Inr (fresh_engine (tk_engine_cfg t)) \<and>
    tk_heartbeat t = cf_heartbeat_interval cfg"
  using service_reachable_inv [of cfg st] by (simp add: service_inv_def task_ok_def VpinEngine_new_Inr)



lemma from_env_Some: "ServiceConfig_from_env env rf json = Some cfg \<Longrightarrow>
    cf_heartbeat_interval cfg = secs (unat (optional_u64 env (str_of ''GEIGER_HEARTBEAT_SECS'') 5)) \<and>
    cf_streams cfg \<noteq> [] \<and> cf_auth_token cfg \<noteq> Some [] \<and> cf_config_poll_interval cfg \<noteq> Some 0"
proof -
  assume c: "ServiceConfig_from_env env rf json = Some cfg"
  have pos: "0 < p \<Longrightarrow> unat p \<noteq> 0" for p :: u64 by (simp add: word_less_nat_alt)
  have ne: "load_streams rf json path = Inr ss \<Longrightarrow> ss \<noteq> []" for path ss
    by (auto simp: load_streams_def split: sum.splits if_splits)
  from c show ?thesis
    by (auto simp: ServiceConfig_from_env_def Let_def dest!: pos ne split: option.splits sum.splits if_splits)
qed

text \<open>an accepted environment always gives at least one stream, no empty token and no zero poll interval,
  but a heartbeat of \<open>0\<close> seconds is let through, and then every task of the service dies in
  \<open>tokio::time::interval\<close> after it has set its entry's alive flag, which stays set.\<close>

theorem heartbeat_zero:
  assumes "ServiceConfig_from_env env rf json = Some cfg"
  shows "cf_streams cfg \<noteq> [] \<and> cf_auth_token cfg \<noteq> Some [] \<and> cf_config_poll_interval cfg \<noteq> Some 0 \<and>
    (Option.bind (env (str_of ''GEIGER_HEARTBEAT_SECS'')) parse_u64 = Some 0 \<longrightarrow>
      (\<forall>st t entry. service_reachable cfg st \<longrightarrow> t \<in> set (sv_spawned st) \<longrightarrow>
        worker_start (tk_engine_cfg t) (tk_heartbeat t) entry =
          (entry\<lparr>se_health := (se_health entry)\<lparr>sh_worker_alive := True\<rparr>\<rparr>, None)))"
proof -
  have "cf_heartbeat_interval cfg = 0" if "Option.bind (env (str_of ''GEIGER_HEARTBEAT_SECS'')) parse_u64 = Some 0"
    using from_env_Some [OF assms] that
    by (auto simp: optional_u64_def bind_eq_Some_conv split: option.splits)
  then show ?thesis using from_env_Some [OF assms] task_engine
    by (auto simp: worker_start_def update_health_def)
qed

theorem heartbeat_zero_witness:
  "\<exists>cfg st t. ServiceConfig_from_env [str_of ''GEIGER_STREAMS_FILE'' \<mapsto> str_of ''f'',
      str_of ''GEIGER_HEARTBEAT_SECS'' \<mapsto> str_of ''0''] Inr (\<lambda>raw. Inr twice) = Some cfg \<and>
    service_reachable cfg st \<and> t \<in> set (sv_spawned st) \<and>
    snd (worker_start (tk_engine_cfg t) (tk_heartbeat t) (StreamEntry_new [] [])) = None"
proof -
  let ?env = "[str_of ''GEIGER_STREAMS_FILE'' \<mapsto> str_of ''f'', str_of ''GEIGER_HEARTBEAT_SECS'' \<mapsto> str_of ''0'']"
  have ne: "str_of ''GEIGER_STREAMS_FILE'' \<noteq> str_of ''GEIGER_HEARTBEAT_SECS''" by (simp add: str_of_def)
  obtain cfg where cfg: "ServiceConfig_from_env ?env Inr (\<lambda>raw. Inr twice) = Some cfg" "cf_streams cfg = twice"
    using ne by (simp add: ServiceConfig_from_env_def load_streams_def Let_def twice_def)
  then obtain st where st: "service_startup cfg = Some st" "sv_spawned st = map (task_of (cf_heartbeat_interval cfg)) twice"
    using twice_ok service_startup_Some [of cfg] by auto
  have r: "service_reachable cfg st" by (rule service_reachable.Startup [OF st(1)])
  have t: "task_of (cf_heartbeat_interval cfg) (twice ! 0) \<in> set (sv_spawned st)" by (simp add: st(2) twice_def)
  have "parse_u64 (str_of ''0'') = Some 0"
    by (simp add: parse_u64_def strip_plus_def str_of_def is_digit_def checked_mul_u64_def checked_add_u64_def)
  then have "Option.bind (?env (str_of ''GEIGER_HEARTBEAT_SECS'')) parse_u64 = Some 0" by simp
  then show ?thesis using heartbeat_zero [OF cfg(1)] cfg(1) r t by fastforce
qed

end
