(* ===== verification/Server.thy ===== *)
theory Server
  imports Service
begin

text \<open>
  \<open>services/toxicity-service/src/server.rs\<close>: the accept loop, the authorization check, the session of
  one subscriber, and the concurrency between the worker that publishes on an entry and a session that
  subscribes to it. The sockets, the JSON encoding and what the peer does are parameters: a session is
  driven by the list of what its \<open>select!\<close> picks, and \<open>sends k\<close> says whether the write after \<open>k\<close>
  successful ones succeeds.
\<close>

subsection \<open>Authorization\<close>

record rejection =
  rj_status :: nat
  rj_body :: str

text \<open>\<open>header\<close> is the text of the \<open>Authorization\<close> header as the HTTP library gives it, if there is one.\<close>

definition check_auth :: "str option \<Rightarrow> str option \<Rightarrow> rejection + unit" where
  "check_auth header auth_token =
     (case auth_token of None \<Rightarrow> Inr ()
      | Some expected \<Rightarrow>
          (let provided = Option.bind header (strip_prefix (str_of ''Bearer ''))
           in if provided = Some expected then Inr ()
              else (let body = (if provided = None then str_of ''missing bearer token''
                                else str_of ''invalid bearer token'');
                        status = (if provided = None then 401 else 403)
                    in Inl \<lparr>rj_status = status, rj_body = body\<rparr>)))"

subsection \<open>One subscriber\<close>

datatype service_error =
    WebSocketError str
  | JsonError str
  | IoError str
  | NoSubscribeRequest
  | UnknownStream str

datatype ws_frame = TextFrame str | PingFrame "u8 list" | PongFrame "u8 list" | CloseFrame | OtherFrame

datatype session_event =
    Received server_message
  | Lagged u64
  | Broadcast_Closed
  | Incoming ws_frame
  | Incoming_Error str
  | Incoming_End

text \<open>One write: on failure the session ends with the error, on success the frame is out.\<close>

definition ws_send :: "(nat \<Rightarrow> str option) \<Rightarrow> ws_frame list \<Rightarrow> ws_frame \<Rightarrow> service_error + ws_frame list" where
  "ws_send sends out frame = (case sends (length out) of Some e \<Rightarrow> Inl (WebSocketError e) | None \<Rightarrow> Inr (out @ [frame]))"

text \<open>The loop after the snapshot. The result is what went out and how the session ended; \<open>None\<close> is a
  session that is still running when the events are used up.\<close>

fun subscriber_loop :: "(server_message \<Rightarrow> str) \<Rightarrow> (nat \<Rightarrow> str option) \<Rightarrow> session_event list \<Rightarrow> ws_frame list \<Rightarrow>
    ws_frame list \<times> (service_error + unit) option" where
  "subscriber_loop json sends [] out = (out, None)"
| "subscriber_loop json sends (Received msg # evs) out =
     (case ws_send sends out (TextFrame (json msg)) of Inl e \<Rightarrow> (out, Some (Inl e))
      | Inr out' \<Rightarrow> subscriber_loop json sends evs out')"
| "subscriber_loop json sends (Lagged n # evs) out = subscriber_loop json sends evs out"
| "subscriber_loop json sends (Broadcast_Closed # evs) out = (out, Some (Inr ()))"
| "subscriber_loop json sends (Incoming frame # evs) out =
     (case frame of
        PingFrame payload \<Rightarrow> (case ws_send sends out (PongFrame payload) of Inl e \<Rightarrow> (out, Some (Inl e))
          | Inr out' \<Rightarrow> subscriber_loop json sends evs out')
      | CloseFrame \<Rightarrow> (out, Some (Inr ()))
      | _ \<Rightarrow> subscriber_loop json sends evs out)"
| "subscriber_loop json sends (Incoming_Error e # evs) out = (out, Some (Inl (WebSocketError e)))"
| "subscriber_loop json sends (Incoming_End # evs) out = (out, Some (Inr ()))"

text \<open>\<open>first\<close> is the first frame the peer sends, if any, and \<open>evs\<close> what follows the subscription. An entry
  of \<open>registry\<close> is as the session finds it when it reads \<open>last_message\<close>. A rejected handshake sends the
  HTTP response and no frame.\<close>

definition handle_connection :: "(server_message \<Rightarrow> str) \<Rightarrow> (str \<Rightarrow> str + subscribe_request) \<Rightarrow> (nat \<Rightarrow> str option) \<Rightarrow>
    (str \<rightharpoonup> stream_entry) \<Rightarrow> str option \<Rightarrow> str option \<Rightarrow> ws_frame option \<Rightarrow> session_event list \<Rightarrow>
    rejection + ws_frame list \<times> (service_error + unit) option" where
  "handle_connection json parse sends registry auth_token header first evs =
     (case check_auth header auth_token of Inl rejection \<Rightarrow> Inl rejection
      | Inr _ \<Rightarrow> Inr
         (case first of
            Some (TextFrame t) \<Rightarrow>
              (case parse t of Inl e \<Rightarrow> ([], Some (Inl (JsonError e)))
               | Inr sub \<Rightarrow>
                  (let key = stream_key (sr_exchange sub) (sr_symbol sub)
                   in case registry key of
                        None \<Rightarrow>
                          (case ws_send sends [] (TextFrame (json (Error_Message (str_of ''unknown stream: '' @ key)))) of
                             Inl e \<Rightarrow> ([], Some (Inl e))
                           | Inr out \<Rightarrow> (out, Some (Inl (UnknownStream key))))
                      | Some entry \<Rightarrow>
                          (case se_last_message entry of
                             None \<Rightarrow> subscriber_loop json sends evs []
                           | Some snapshot \<Rightarrow>
                               (case ws_send sends [] (TextFrame (json snapshot)) of
                                  Inl e \<Rightarrow> ([], Some (Inl e))
                                | Inr out \<Rightarrow> subscriber_loop json sends evs out))))
          | _ \<Rightarrow> ([], Some (Inl NoSubscribeRequest))))"

text \<open>The accept loop: the peers whose sessions it spawned, and its result once it ends.\<close>

datatype 'peer accept_event = Accepted 'peer | Accept_Failed str | Shutdown_Changed

fun accept_loop :: "'peer accept_event list \<Rightarrow> 'peer list \<times> (service_error + unit) option" where
  "accept_loop [] = ([], None)"
| "accept_loop (Accepted peer # evs) = (case accept_loop evs of (peers, r) \<Rightarrow> (peer # peers, r))"
| "accept_loop (Accept_Failed e # evs) = ([], Some (Inl (IoError e)))"
| "accept_loop (Shutdown_Changed # evs) = ([], Some (Inr ()))"

definition server_run :: "str + unit \<Rightarrow> 'peer accept_event list \<Rightarrow> 'peer list \<times> (service_error + unit) option" where
  "server_run bound evs = (case bound of Inl e \<Rightarrow> ([], Some (Inl (IoError e))) | Inr _ \<Rightarrow> accept_loop evs)"

subsection \<open>Who gets in, and what a session sends\<close>

text \<open>C36: with a token configured a handshake succeeds exactly when the header is \<open>Bearer \<close> followed by that
  very token; a header that is missing or of another scheme is refused with 401, any other token with
  403. Without a token everybody gets in.\<close>

theorem check_auth_spec:
  "check_auth header None = Inr () \<and>
   (check_auth header (Some token) = Inr () \<longleftrightarrow> header = Some (str_of ''Bearer '' @ token)) \<and>
   (check_auth header (Some token) = Inl r \<longleftrightarrow>
     (if \<exists>t. header = Some (str_of ''Bearer '' @ t)
      then header \<noteq> Some (str_of ''Bearer '' @ token) \<and> r = \<lparr>rj_status = 403, rj_body = str_of ''invalid bearer token''\<rparr>
      else r = \<lparr>rj_status = 401, rj_body = str_of ''missing bearer token''\<rparr>))"
proof -
  let ?p = "str_of ''Bearer ''"
  consider "header = None" | h where "header = Some h" "\<forall>t. h \<noteq> ?p @ t" | t where "header = Some (?p @ t)"
    by (metis not_None_eq)
  then show ?thesis
  proof cases
    case (2 h)
    then have "strip_prefix ?p h = None" using strip_prefix_None by blast
    then show ?thesis using 2 by (auto simp: check_auth_def Let_def)
  next
    case (3 t)
    have "strip_prefix ?p (?p @ t) = Some t" using strip_prefix_Some by blast
    then show ?thesis using 3 by (auto simp: check_auth_def Let_def)
  qed (auto simp: check_auth_def Let_def)
qed

text \<open>What a session wants to send, and how it ends if every write succeeds.\<close>

fun event_end :: "session_event \<Rightarrow> (service_error + unit) option" where
  "event_end Broadcast_Closed = Some (Inr ())"
| "event_end (Incoming CloseFrame) = Some (Inr ())"
| "event_end (Incoming_Error e) = Some (Inl (WebSocketError e))"
| "event_end Incoming_End = Some (Inr ())"
| "event_end _ = None"

fun reply :: "(server_message \<Rightarrow> str) \<Rightarrow> session_event \<Rightarrow> ws_frame list" where
  "reply json (Received msg) = [TextFrame (json msg)]"
| "reply json (Incoming (PingFrame payload)) = [PongFrame payload]"
| "reply json _ = []"

definition session_frames :: "(server_message \<Rightarrow> str) \<Rightarrow> session_event list \<Rightarrow> ws_frame list" where
  "session_frames json evs = concat (map (reply json) (takeWhile (\<lambda>e. event_end e = None) evs))"

definition session_end :: "session_event list \<Rightarrow> (service_error + unit) option" where
  "session_end evs = (case dropWhile (\<lambda>e. event_end e = None) evs of [] \<Rightarrow> None | e # _ \<Rightarrow> event_end e)"

definition opt_list :: "'a option \<Rightarrow> 'a list" where
  "opt_list x = (case x of None \<Rightarrow> [] | Some a \<Rightarrow> [a])"

lemma opt_list_simps [simp]: "opt_list None = []" "opt_list (Some a) = [a]"
  by (simp_all add: opt_list_def)

text \<open>Sending a list of frames until a write fails.\<close>

fun send_all :: "(nat \<Rightarrow> str option) \<Rightarrow> ws_frame list \<Rightarrow> (service_error + unit) option \<Rightarrow> ws_frame list \<Rightarrow>
    ws_frame list \<times> (service_error + unit) option" where
  "send_all sends [] r out = (out, r)"
| "send_all sends (f # fs) r out = (case ws_send sends out f of Inl e \<Rightarrow> (out, Some (Inl e))
     | Inr out' \<Rightarrow> send_all sends fs r out')"

lemma session_step [simp]:
  "session_frames json [] = []" "session_end [] = None"
  "event_end e = None \<Longrightarrow> session_frames json (e # evs) = reply json e @ session_frames json evs"
  "event_end e = None \<Longrightarrow> session_end (e # evs) = session_end evs"
  "event_end e \<noteq> None \<Longrightarrow> session_frames json (e # evs) = []"
  "event_end e \<noteq> None \<Longrightarrow> session_end (e # evs) = event_end e"
  by (auto simp: session_frames_def session_end_def)

lemma subscriber_loop_send_all:
  "subscriber_loop json sends evs out = send_all sends (session_frames json evs) (session_end evs) out"
proof (induction evs arbitrary: out)
  case (Cons e evs)
  show ?case
  proof (cases e)
    case (Incoming f)
    then show ?thesis using Cons.IH by (cases f) (auto split: sum.split)
  qed (use Cons.IH in \<open>auto split: sum.split\<close>)
qed simp

text \<open>The writes before the first that fails.\<close>

definition sent_until :: "(nat \<Rightarrow> str option) \<Rightarrow> ws_frame list \<Rightarrow> (service_error + unit) option \<Rightarrow>
    ws_frame list \<times> (service_error + unit) option \<Rightarrow> bool" where
  "sent_until sends fs r res \<longleftrightarrow> (\<exists>k. fst res = take k fs \<and> (\<forall>i < k. sends i = None) \<and>
     (k = length fs \<and> snd res = r \<or>
      k < length fs \<and> (\<exists>e. sends k = Some e \<and> snd res = Some (Inl (WebSocketError e)))))"

lemma send_all_sent:
  "\<forall>i < length out. sends i = None \<Longrightarrow> sent_until sends (out @ fs) r (send_all sends fs r out)"
proof (induction fs arbitrary: out)
  case Nil
  then show ?case by (auto simp: sent_until_def intro!: exI [of _ "length out"])
next
  case (Cons f fs)
  show ?case
  proof (cases "sends (length out)")
    case None
    then have "\<forall>i < length (out @ [f]). sends i = None" using Cons.prems by (auto simp: less_Suc_eq)
    then show ?thesis using Cons.IH [of "out @ [f]"] None by (simp add: ws_send_def)
  next
    case (Some e)
    then show ?thesis using Cons.prems
      by (auto simp: sent_until_def ws_send_def intro!: exI [of _ "length out"])
  qed
qed

text \<open>C37: an accepted subscriber of a known stream is sent the entry's last message, if there is one, and then
  one frame per broadcast message and per ping, in the order they are picked, until the first event
  that ends the session; lag and any other incoming frame send nothing and end nothing. If a write
  fails, exactly the frames before it were sent and the session ends with its error.\<close>

theorem session_delivers:
  assumes "check_auth header auth_token = Inr ()" "parse t = Inr sub"
    and "registry (stream_key (sr_exchange sub) (sr_symbol sub)) = Some entry"
  shows "\<exists>res. handle_connection json parse sends registry auth_token header (Some (TextFrame t)) evs = Inr res \<and>
    sent_until sends (map (\<lambda>m. TextFrame (json m)) (opt_list (se_last_message entry)) @ session_frames json evs)
      (session_end evs) res"
proof -
  let ?fs = "map (\<lambda>m. TextFrame (json m)) (opt_list (se_last_message entry)) @ session_frames json evs"
  have "handle_connection json parse sends registry auth_token header (Some (TextFrame t)) evs =
      Inr (send_all sends ?fs (session_end evs) [])"
    using assms by (auto simp: handle_connection_def Let_def subscriber_loop_send_all split: option.split sum.split)
  then show ?thesis using send_all_sent [of "[]" sends ?fs] by auto
qed

definition entry_btc :: stream_entry where
  "entry_btc = publish (StreamEntry_new (str_of ''bybit'') (str_of ''BTC'')) (Heartbeat 7)"

definition registry_btc :: "str \<rightharpoonup> stream_entry" where
  "registry_btc = [stream_key (str_of ''bybit'') (str_of ''BTC'') \<mapsto> entry_btc]"

definition sub_btc :: subscribe_request where
  "sub_btc = \<lparr>sr_exchange = str_of ''ByBit'', sr_symbol = str_of ''btc''\<rparr>"

lemma registry_btc_key: "registry_btc (stream_key (sr_exchange sub_btc) (sr_symbol sub_btc)) = Some entry_btc"
  by (simp add: registry_btc_def sub_btc_def stream_key_def str_of_def ascii_lower_def ascii_upper_def)

text \<open>The third write fails, after the snapshot and the first live message.\<close>

theorem session_delivers_witness:
  "\<exists>res. handle_connection (\<lambda>m. []) (\<lambda>t. Inr sub_btc) (\<lambda>k. if k = 2 then Some [] else None) registry_btc
      (Some [1]) (Some (str_of ''Bearer '' @ [1])) (Some (TextFrame []))
      [Received (Heartbeat 8), Lagged 3, Received (Heartbeat 9)] = Inr res \<and>
    fst res = [TextFrame [], TextFrame []] \<and> snd res = Some (Inl (WebSocketError []))"
proof -
  let ?sends = "\<lambda>k::nat. if k = 2 then Some [] else (None :: str option)"
  let ?evs = "[Received (Heartbeat 8), Lagged 3, Received (Heartbeat 9)]"
  have a: "check_auth (Some (str_of ''Bearer '' @ [1])) (Some [1]) = Inr ()"
    by (simp add: check_auth_def Let_def strip_prefix_def starts_with_def)
  have f: "session_frames (\<lambda>m. []) ?evs = [TextFrame [], TextFrame []]" by simp
  have l: "se_last_message entry_btc = Some (Heartbeat 7)"
    by (simp add: entry_btc_def publish_def record_last_def broadcast_send_def)
  obtain res where r: "handle_connection (\<lambda>m. []) (\<lambda>t. Inr sub_btc) ?sends registry_btc
      (Some [1]) (Some (str_of ''Bearer '' @ [1])) (Some (TextFrame [])) ?evs = Inr res"
    "sent_until ?sends [TextFrame [], TextFrame [], TextFrame []] (session_end ?evs) res"
    using session_delivers [OF a, of "\<lambda>t. Inr sub_btc" "[]" sub_btc registry_btc entry_btc "\<lambda>m. []" ?sends ?evs]
      registry_btc_key unfolding f l by auto
  then obtain k where k: "fst res = take k [TextFrame [], TextFrame [], TextFrame []]"
    "\<forall>i < k. ?sends i = None" "k = 3 \<or> k < 3 \<and> (\<exists>e. ?sends k = Some e \<and> snd res = Some (Inl (WebSocketError e)))"
    unfolding sent_until_def by auto
  have "k \<noteq> 3" using k(2) by (metis lessI numeral_2_eq_2 numeral_3_eq_3 option.distinct(1))
  then have "k = 2" using k(3) by (metis option.distinct(1))
  then show ?thesis using r(1) k(1,3) by (auto simp: numeral_2_eq_2)
qed

text \<open>nothing is ever sent to a peer that is not let in, that does not open with a subscription, or
  whose stream is unknown, except one error message in the last case; each of these ends the session
  with its own error.\<close>

theorem session_refuses:
  assumes "handle_connection json parse sends registry (Some token) header first evs = Inr (out, r)" "out \<noteq> []"
  shows "header = Some (str_of ''Bearer '' @ token) \<and>
    (\<exists>t sub. first = Some (TextFrame t) \<and> parse t = Inr sub \<and>
      (let key = stream_key (sr_exchange sub) (sr_symbol sub) in
        registry key \<noteq> None \<or>
        out = [TextFrame (json (Error_Message (str_of ''unknown stream: '' @ key)))] \<and> r = Some (Inl (UnknownStream key))))"
proof -
  have auth: "check_auth header (Some token) = Inr ()"
    using assms(1) by (auto simp: handle_connection_def split: sum.splits)
  then have "header = Some (str_of ''Bearer '' @ token)"
    by (auto simp: check_auth_def Let_def bind_eq_Some_conv strip_prefix_Some split: if_splits)
  then show ?thesis using assms auth
    by (auto simp: handle_connection_def Let_def ws_send_def
        split: option.splits ws_frame.splits sum.splits)
qed

theorem session_refuses_witness:
  "\<exists>r. handle_connection (\<lambda>m. []) (\<lambda>t. Inr sub_btc) (\<lambda>k. None) registry_btc (Some [1])
      (Some (str_of ''Bearer '' @ [1])) (Some (TextFrame [])) [Incoming_End] = Inr ([TextFrame []], r) \<and>
    (registry_btc (stream_key (sr_exchange sub_btc) (sr_symbol sub_btc)) \<noteq> None \<or>
     r = Some (Inl (UnknownStream (stream_key (sr_exchange sub_btc) (sr_symbol sub_btc)))))"
proof -
  obtain r where r: "handle_connection (\<lambda>m. []) (\<lambda>t. Inr sub_btc) (\<lambda>k. None) registry_btc (Some [1])
      (Some (str_of ''Bearer '' @ [1])) (Some (TextFrame [])) [Incoming_End] = Inr ([TextFrame []], r)"
    by (simp add: handle_connection_def check_auth_def Let_def strip_prefix_def starts_with_def registry_btc_key
        entry_btc_def publish_def record_last_def broadcast_send_def ws_send_def)
  from session_refuses [OF this] r show ?thesis by (auto simp: Let_def)
qed

subsection \<open>The worker and a subscriber on one entry\<close>

text \<open>\<open>publish\<close> is two statements and the start of a session is two reads, and they interleave. The
  worker is the only publisher of its entry: \<open>lk_pending\<close> is the message it has recorded and not yet
  broadcast. \<open>lk_cursor\<close> is the number of broadcasts before the subscription, whose receiver gets the
  later ones; \<open>lk_snapshot\<close> is what the session read from \<open>last_message\<close>.\<close>

record link =
  lk_entry :: stream_entry
  lk_pending :: "server_message option"
  lk_cursor :: "nat option"
  lk_snapshot :: "server_message option option"

inductive link_step :: "link \<Rightarrow> link \<Rightarrow> bool" where
  Record: "lk_pending l = None \<Longrightarrow>
    link_step l (l\<lparr>lk_entry := record_last msg (lk_entry l), lk_pending := Some msg\<rparr>)"
| Send: "lk_pending l = Some msg \<Longrightarrow>
    link_step l (l\<lparr>lk_entry := broadcast_send msg (lk_entry l), lk_pending := None\<rparr>)"
| Subscribe: "lk_cursor l = None \<Longrightarrow>
    link_step l (l\<lparr>lk_cursor := Some (length (se_sender (lk_entry l)))\<rparr>)"
| Snapshot: "lk_cursor l = Some c \<Longrightarrow> lk_snapshot l = None \<Longrightarrow>
    link_step l (l\<lparr>lk_snapshot := Some (se_last_message (lk_entry l))\<rparr>)"

definition link_start :: "str \<Rightarrow> str \<Rightarrow> link" where
  "link_start exch symbol = \<lparr>lk_entry = StreamEntry_new exch symbol, lk_pending = None, lk_cursor = None, lk_snapshot = None\<rparr>"

definition link_reachable :: "str \<Rightarrow> str \<Rightarrow> link \<Rightarrow> bool" where
  "link_reachable exch symbol l \<longleftrightarrow> link_step\<^sup>*\<^sup>* (link_start exch symbol) l"

text \<open>Every message published so far, and what the session has for its subscriber.\<close>

definition lk_published :: "link \<Rightarrow> server_message list" where
  "lk_published l = se_sender (lk_entry l) @ opt_list (lk_pending l)"

definition lk_seen :: "link \<Rightarrow> server_message list" where
  "lk_seen l = opt_list (Option.bind (lk_snapshot l) id) @ drop (the (lk_cursor l)) (se_sender (lk_entry l))"

definition link_inv :: "link \<Rightarrow> bool" where
  "link_inv l \<longleftrightarrow> se_last_message (lk_entry l) = last_or None (lk_published l) \<and>
     pred_option (\<lambda>c. c \<le> length (se_sender (lk_entry l))) (lk_cursor l) \<and>
     (\<forall>snap. lk_snapshot l = Some snap \<longrightarrow> (\<exists>c i. lk_cursor l = Some c \<and> c \<le> i \<and> i \<le> length (lk_published l) \<and>
        snap = last_or None (take i (lk_published l))))"

lemma last_or_snoc [simp]: "last_or d (xs @ [x]) = Some x"
  by (simp add: last_or_def)

lemma link_inv_start: "link_inv (link_start exch symbol)"
  by (simp add: link_inv_def link_start_def lk_published_def StreamEntry_new_def)

lemma link_inv_step: "link_step l l' \<Longrightarrow> link_inv l \<Longrightarrow> link_inv l'"
proof (induction rule: link_step.induct)
  case (Record l msg)
  let ?l = "l\<lparr>lk_entry := record_last msg (lk_entry l), lk_pending := Some msg\<rparr>"
  have p: "lk_published ?l = lk_published l @ [msg]" using Record.hyps by (simp add: lk_published_def record_last_def)
  have e: "se_sender (lk_entry ?l) = se_sender (lk_entry l)" "se_last_message (lk_entry ?l) = Some msg"
    by (simp_all add: record_last_def)
  have "\<exists>c i. lk_cursor ?l = Some c \<and> c \<le> i \<and> i \<le> length (lk_published ?l) \<and>
      snap = last_or None (take i (lk_published ?l))" if s: "lk_snapshot ?l = Some snap" for snap
  proof -
    obtain c i where "lk_cursor l = Some c" "c \<le> i" "i \<le> length (lk_published l)"
      "snap = last_or None (take i (lk_published l))"
      using Record.prems s by (auto simp: link_inv_def)
    then show ?thesis unfolding p by (intro exI [of _ c] exI [of _ i]) simp
  qed
  then show ?case using Record.prems unfolding link_inv_def p e by simp
next
  case (Send l msg)
  let ?l = "l\<lparr>lk_entry := broadcast_send msg (lk_entry l), lk_pending := None\<rparr>"
  have p: "lk_published ?l = lk_published l" using Send.hyps by (simp add: lk_published_def broadcast_send_def)
  have e: "se_sender (lk_entry ?l) = se_sender (lk_entry l) @ [msg]"
    "se_last_message (lk_entry ?l) = se_last_message (lk_entry l)"
    by (simp_all add: broadcast_send_def)
  show ?case using Send.prems unfolding link_inv_def p e by (cases "lk_cursor l") auto
next
  case (Subscribe l)
  then show ?case by (auto simp: link_inv_def lk_published_def)
next
  case (Snapshot l c)
  then have "c \<le> length (lk_published l)" by (simp add: link_inv_def lk_published_def)
  then show ?case using Snapshot unfolding link_inv_def
    by (auto simp: lk_published_def intro!: exI [of _ "length (lk_published l)"])
qed

lemma link_reachable_inv: "link_reachable exch symbol l \<Longrightarrow> link_inv l"
  unfolding link_reachable_def
  by (induction rule: rtranclp_induct) (auto intro: link_inv_start link_inv_step)

lemma link_split:
  assumes "link_reachable exch symbol l" "lk_snapshot l = Some snap"
  shows "\<exists>before between after. lk_published l = before @ between @ after \<and>
    snap = last_or None (before @ between) \<and>
    lk_seen l @ opt_list (lk_pending l) = opt_list snap @ between @ after"
proof -
  obtain c i where i: "lk_cursor l = Some c" "c \<le> i" "i \<le> length (lk_published l)"
    "snap = last_or None (take i (lk_published l))"
    and c: "c \<le> length (se_sender (lk_entry l))"
    using link_reachable_inv [OF assms(1)] assms(2) by (auto simp: link_inv_def)
  let ?p = "lk_published l"
  have "take c ?p @ drop c (take i ?p) = take i ?p"
    using i(2) by (metis append_take_drop_id min.absorb1 take_take)
  then have "?p = take c ?p @ drop c (take i ?p) @ drop i ?p" "snap = last_or None (take c ?p @ drop c (take i ?p))"
    using i(4) by (simp_all add: append_assoc [symmetric] del: append_assoc)
  moreover have "drop c (take i ?p) @ drop i ?p = drop c ?p"
    using i(2) by (metis append_take_drop_id drop_append drop_take length_take i(3) diff_is_0_eq drop0 min.absorb2)
  moreover have "lk_seen l @ opt_list (lk_pending l) = opt_list snap @ drop c ?p"
    using i(1) c assms(2) by (simp add: lk_seen_def lk_published_def)
  ultimately show ?thesis by metis
qed


lemma link_publish:
  assumes "lk_pending l = None" shows "link_step\<^sup>*\<^sup>* l (l\<lparr>lk_entry := publish (lk_entry l) msg\<rparr>)"
proof -
  let ?l = "l\<lparr>lk_entry := record_last msg (lk_entry l), lk_pending := Some msg\<rparr>"
  have "link_step l ?l" using assms by (rule link_step.Record)
  moreover have "link_step ?l (?l\<lparr>lk_entry := broadcast_send msg (lk_entry ?l), lk_pending := None\<rparr>)"
    by (rule link_step.Send) simp
  moreover have "?l\<lparr>lk_entry := broadcast_send msg (lk_entry ?l), lk_pending := None\<rparr> =
      l\<lparr>lk_entry := publish (lk_entry l) msg\<rparr>"
    using assms by (simp add: publish_def)
  ultimately show ?thesis by (metis r_into_rtranclp rtranclp.rtrancl_into_rtrancl)
qed

text \<open>the order is not kept. When two messages are published between the subscription and the snapshot,
  the subscriber gets the newer one first, then the older one, then the newer one again: not one
  harmless duplicate but a step back in time.\<close>

theorem link_regress:
  "\<exists>l. link_reachable exch symbol l \<and> lk_published l = [m1, m2] \<and> lk_seen l = [m2, m1, m2]"
proof -
  define l0 where "l0 = (link_start exch symbol)\<lparr>lk_cursor := Some 0\<rparr>"
  define l1 where "l1 = l0\<lparr>lk_entry := publish (lk_entry l0) m1\<rparr>"
  define l2 where "l2 = l1\<lparr>lk_entry := publish (lk_entry l1) m2\<rparr>"
  define l3 where "l3 = l2\<lparr>lk_snapshot := Some (se_last_message (lk_entry l2))\<rparr>"
  have "link_step (link_start exch symbol) l0"
    using link_step.Subscribe [of "link_start exch symbol"] by (simp add: l0_def link_start_def StreamEntry_new_def)
  moreover have "link_step\<^sup>*\<^sup>* l0 l1" "link_step\<^sup>*\<^sup>* l1 l2"
    unfolding l1_def l2_def by (rule link_publish; simp add: l0_def link_start_def)+
  moreover have "link_step l2 l3"
    unfolding l3_def by (rule link_step.Snapshot [of _ 0]) (simp_all add: l2_def l1_def l0_def link_start_def)
  ultimately have "link_reachable exch symbol l3" unfolding link_reachable_def
    by (meson converse_rtranclp_into_rtranclp rtranclp.rtrancl_into_rtrancl rtranclp_trans)
  moreover have "lk_published l3 = [m1, m2]" "lk_seen l3 = [m2, m1, m2]"
    by (simp_all add: l3_def l2_def l1_def l0_def link_start_def lk_published_def lk_seen_def publish_def
        record_last_def broadcast_send_def StreamEntry_new_def)
  ultimately show ?thesis by blast
qed


end
