(* ===== verification/Fanout.thy ===== *)
theory Fanout
  imports Server "HOL-Library.Sublist"
begin

text \<open>
  One stream with any number of subscribers: the worker's two statements of \<open>publish\<close>, sessions that join,
  read the snapshot, receive, fall behind and leave (\<open>services/toxicity-service/src/server.rs\<close> and
  \<open>worker.rs\<close>), in any order. The channel between them is \<open>tokio\<close>'s bounded broadcast channel, of which
  only the documented contract is used: \<open>recv sent c\<close> is what a receiver gets that has consumed \<open>c\<close> of
  the messages \<open>sent\<close> so far.
\<close>

subsection \<open>The broadcast channel\<close>

text \<open>\<open>main.rs\<close>: the capacity every stream's channel is created with.\<close>

definition BROADCAST_CAPACITY :: nat where
  "BROADCAST_CAPACITY = 1024"

datatype recv_result =
    Recv_Pending
  | Recv_Message server_message
  | Recv_Lagged nat

text \<open>A receiver waits exactly when it has consumed everything, otherwise gets the next message, or is told
  how many it missed and continues at the oldest one still held; at least the last \<open>cap\<close> are held.\<close>

definition broadcast_laws :: "nat \<Rightarrow> (server_message list \<Rightarrow> nat \<Rightarrow> recv_result) \<Rightarrow> bool" where
  "broadcast_laws cap recv \<longleftrightarrow> 0 < cap \<and> (\<forall>sent c. c \<le> length sent \<longrightarrow>
     (case recv sent c of Recv_Pending \<Rightarrow> c = length sent
      | Recv_Message m \<Rightarrow> c < length sent \<and> m = sent ! c
      | Recv_Lagged n \<Rightarrow> 0 < n \<and> c + n + cap \<le> length sent))"

text \<open>A channel that holds exactly the last \<open>cap\<close> messages keeps the contract.\<close>

definition ring_recv :: "nat \<Rightarrow> server_message list \<Rightarrow> nat \<Rightarrow> recv_result" where
  "ring_recv cap sent c =
     (if length sent \<le> c then Recv_Pending
      else if c + cap < length sent then Recv_Lagged (length sent - cap - c)
      else Recv_Message (sent ! c))"

lemma ring_recv_laws: "0 < cap \<Longrightarrow> broadcast_laws cap (ring_recv cap)"
  by (auto simp: broadcast_laws_def ring_recv_def)

lemma recv_Pending: "broadcast_laws cap recv \<Longrightarrow> c \<le> length sent \<Longrightarrow> recv sent c = Recv_Pending \<Longrightarrow> c = length sent"
  by (force simp: broadcast_laws_def split: recv_result.splits)

lemma recv_Message: "broadcast_laws cap recv \<Longrightarrow> c \<le> length sent \<Longrightarrow> recv sent c = Recv_Message m \<Longrightarrow>
    c < length sent \<and> m = sent ! c"
  by (force simp: broadcast_laws_def split: recv_result.splits)

lemma recv_Lagged: "broadcast_laws cap recv \<Longrightarrow> c \<le> length sent \<Longrightarrow> recv sent c = Recv_Lagged n \<Longrightarrow>
    0 < n \<and> c + n + cap \<le> length sent"
  by (force simp: broadcast_laws_def split: recv_result.splits)

subsection \<open>Sessions on one entry\<close>

text \<open>\<open>sn_joined\<close> is where \<open>subscribe\<close> put the receiver, \<open>sn_cursor\<close> where it is now, \<open>sn_events\<close> what its
  \<open>recv\<close> has returned to the loop of \<open>handle_connection\<close>, and \<open>sn_missed\<close> the sum of the reported lags.\<close>

record session =
  sn_joined :: nat
  sn_cursor :: nat
  sn_snapshot :: "server_message option option"
  sn_events :: "session_event list"
  sn_missed :: nat

record fanout =
  fo_entry :: stream_entry
  fo_pending :: "server_message option"
  fo_sessions :: "nat \<rightharpoonup> session"

abbreviation fo_sent :: "fanout \<Rightarrow> server_message list" where
  "fo_sent f \<equiv> se_sender (fo_entry f)"

definition join_session :: "fanout \<Rightarrow> session" where
  "join_session f = \<lparr>sn_joined = length (fo_sent f), sn_cursor = length (fo_sent f), sn_snapshot = None,
     sn_events = [], sn_missed = 0\<rparr>"

definition got_message :: "server_message \<Rightarrow> session \<Rightarrow> session" where
  "got_message m s = s\<lparr>sn_cursor := sn_cursor s + 1, sn_events := sn_events s @ [Received m]\<rparr>"

definition got_lag :: "nat \<Rightarrow> session \<Rightarrow> session" where
  "got_lag n s = s\<lparr>sn_cursor := sn_cursor s + n, sn_events := sn_events s @ [Lagged (of_nat n)],
     sn_missed := sn_missed s + n\<rparr>"

inductive fanout_step :: "(server_message list \<Rightarrow> nat \<Rightarrow> recv_result) \<Rightarrow> fanout \<Rightarrow> fanout \<Rightarrow> bool" for recv where
  Worker_record: "fo_pending f = None \<Longrightarrow>
    fanout_step recv f (f\<lparr>fo_entry := record_last msg (fo_entry f), fo_pending := Some msg\<rparr>)"
| Worker_send: "fo_pending f = Some msg \<Longrightarrow>
    fanout_step recv f (f\<lparr>fo_entry := broadcast_send msg (fo_entry f), fo_pending := None\<rparr>)"
| Join: "fo_sessions f i = None \<Longrightarrow>
    fanout_step recv f (f\<lparr>fo_sessions := (fo_sessions f)(i \<mapsto> join_session f)\<rparr>)"
| Read_snapshot: "fo_sessions f i = Some s \<Longrightarrow> sn_snapshot s = None \<Longrightarrow>
    fanout_step recv f (f\<lparr>fo_sessions := (fo_sessions f)(i \<mapsto> s\<lparr>sn_snapshot := Some (se_last_message (fo_entry f))\<rparr>)\<rparr>)"
| Get_message: "fo_sessions f i = Some s \<Longrightarrow> sn_snapshot s \<noteq> None \<Longrightarrow>
    recv (fo_sent f) (sn_cursor s) = Recv_Message m \<Longrightarrow>
    fanout_step recv f (f\<lparr>fo_sessions := (fo_sessions f)(i \<mapsto> got_message m s)\<rparr>)"
| Get_lagged: "fo_sessions f i = Some s \<Longrightarrow> sn_snapshot s \<noteq> None \<Longrightarrow>
    recv (fo_sent f) (sn_cursor s) = Recv_Lagged n \<Longrightarrow>
    fanout_step recv f (f\<lparr>fo_sessions := (fo_sessions f)(i \<mapsto> got_lag n s)\<rparr>)"
| Leave: "fanout_step recv f (f\<lparr>fo_sessions := (fo_sessions f)(i := None)\<rparr>)"

definition fanout_start :: "str \<Rightarrow> str \<Rightarrow> fanout" where
  "fanout_start exch symbol = \<lparr>fo_entry = StreamEntry_new exch symbol, fo_pending = None, fo_sessions = Map.empty\<rparr>"

definition fanout_reachable :: "(server_message list \<Rightarrow> nat \<Rightarrow> recv_result) \<Rightarrow> str \<Rightarrow> str \<Rightarrow> fanout \<Rightarrow> bool" where
  "fanout_reachable recv exch symbol f \<longleftrightarrow> (fanout_step recv)\<^sup>*\<^sup>* (fanout_start exch symbol) f"

subsection \<open>Every subscriber sees one link\<close>

text \<open>The worker and session \<open>i\<close>, without the others.\<close>

definition link_view :: "nat \<Rightarrow> fanout \<Rightarrow> link" where
  "link_view i f = \<lparr>lk_entry = fo_entry f, lk_pending = fo_pending f,
     lk_cursor = map_option sn_joined (fo_sessions f i), lk_snapshot = Option.bind (fo_sessions f i) sn_snapshot\<rparr>"

definition bare_view :: "fanout \<Rightarrow> link" where
  "bare_view f = \<lparr>lk_entry = fo_entry f, lk_pending = fo_pending f, lk_cursor = None, lk_snapshot = None\<rparr>"

lemma link_view_absent: "fo_sessions f i = None \<Longrightarrow> link_view i f = bare_view f"
  by (simp add: link_view_def bare_view_def)

text \<open>A step of one session leaves the view of the others alone.\<close>

lemma session_views:
  assumes "f' = f\<lparr>fo_sessions := (fo_sessions f)(i := x)\<rparr>"
    and "link_step\<^sup>=\<^sup>= (link_view i f) (link_view i f') \<or> link_view i f' = bare_view f'"
  shows "link_step\<^sup>=\<^sup>= (bare_view f) (bare_view f') \<and>
    (\<forall>j. link_step\<^sup>=\<^sup>= (link_view j f) (link_view j f') \<or> link_view j f' = bare_view f')"
proof -
  have b: "bare_view f' = bare_view f" by (simp add: assms(1) bare_view_def)
  have v: "link_view j f' = link_view j f" if "j \<noteq> i" for j using that by (simp add: assms(1) link_view_def)
  have "link_step\<^sup>=\<^sup>= (link_view j f) (link_view j f') \<or> link_view j f' = bare_view f'" for j
    using assms(2) v [of j] by (cases "j = i") simp_all
  then show ?thesis by (simp add: b)
qed

lemma fanout_step_views:
  assumes "fanout_step recv f f'"
  shows "link_step\<^sup>=\<^sup>= (bare_view f) (bare_view f') \<and>
    (\<forall>i. link_step\<^sup>=\<^sup>= (link_view i f) (link_view i f') \<or> link_view i f' = bare_view f')"
  using assms
proof (induction rule: fanout_step.induct)
  case (Worker_record f msg)
  then show ?case using link_step.Record [of "bare_view f" msg] link_step.Record [of "link_view i f" msg for i]
    by (simp add: bare_view_def link_view_def)
next
  case (Worker_send f msg)
  then show ?case using link_step.Send [of "bare_view f" msg] link_step.Send [of "link_view i f" msg for i]
    by (simp add: bare_view_def link_view_def)
next
  case (Join f i)
  then show ?case using link_step.Subscribe [of "link_view i f"]
    by (intro session_views [OF refl]) (simp add: link_view_def join_session_def)
next
  case (Read_snapshot f i s)
  then show ?case using link_step.Snapshot [of "link_view i f" "sn_joined s"]
    by (intro session_views [OF refl]) (simp add: link_view_def)
next
  case (Get_message f i s m)
  then show ?case by (intro session_views [OF refl]) (simp add: link_view_def got_message_def)
next
  case (Get_lagged f i s n)
  then show ?case by (intro session_views [OF refl]) (simp add: link_view_def got_lag_def)
next
  case (Leave f i)
  show ?case by (intro session_views [OF refl]) (simp add: link_view_def bare_view_def)
qed

lemma link_reachable_step: "link_reachable exch symbol l \<Longrightarrow> link_step\<^sup>=\<^sup>= l l' \<Longrightarrow> link_reachable exch symbol l'"
  by (auto simp: link_reachable_def intro: rtranclp.rtrancl_into_rtrancl)

lemma fanout_views:
  assumes "fanout_reachable recv exch symbol f"
  shows "link_reachable exch symbol (bare_view f) \<and> (\<forall>i. link_reachable exch symbol (link_view i f))"
  using assms unfolding fanout_reachable_def
proof (induction rule: rtranclp_induct)
  case base
  have "bare_view (fanout_start exch symbol) = link_start exch symbol"
    "link_view i (fanout_start exch symbol) = link_start exch symbol" for i
    by (simp_all add: bare_view_def link_view_def fanout_start_def link_start_def)
  then show ?case by (simp add: link_reachable_def)
next
  case (step f f')
  note v = fanout_step_views [OF step.hyps(2)]
  have b: "link_reachable exch symbol (bare_view f')" using step.IH v link_reachable_step by blast
  then show ?case using step.IH v link_reachable_step by metis
qed


subsection \<open>What a session has received\<close>

fun received :: "session_event list \<Rightarrow> server_message list" where
  "received [] = []"
| "received (Received m # evs) = m # received evs"
| "received (_ # evs) = received evs"

lemma received_append [simp]: "received (xs @ ys) = received xs @ received ys"
  by (induction xs rule: received.induct) simp_all

text \<open>The messages a session has for its peer: the snapshot, then what \<open>recv\<close> gave.\<close>

definition session_messages :: "session \<Rightarrow> server_message list" where
  "session_messages s = opt_list (Option.bind (sn_snapshot s) id) @ received (sn_events s)"

text \<open>The stretch of the channel a session has consumed.\<close>

definition consumed :: "server_message list \<Rightarrow> session \<Rightarrow> server_message list" where
  "consumed sent s = drop (sn_joined s) (take (sn_cursor s) sent)"

definition is_delivery :: "session_event \<Rightarrow> bool" where
  "is_delivery e \<longleftrightarrow> (\<exists>m. e = Received m) \<or> (\<exists>n. e = Lagged n)"

definition session_inv :: "nat \<Rightarrow> server_message list \<Rightarrow> session \<Rightarrow> bool" where
  "session_inv cap sent s \<longleftrightarrow> sn_joined s \<le> sn_cursor s \<and> sn_cursor s \<le> length sent \<and>
     subseq (received (sn_events s)) (consumed sent s) \<and>
     length (received (sn_events s)) + sn_missed s = sn_cursor s - sn_joined s \<and>
     (0 < sn_missed s \<longrightarrow> sn_joined s + sn_missed s + cap \<le> length sent) \<and>
     (sn_joined s < sn_cursor s \<and> sn_cursor s = length sent \<longrightarrow>
        received (sn_events s) \<noteq> [] \<and> last (received (sn_events s)) = last sent) \<and>
     (\<forall>e \<in> set (sn_events s). is_delivery e)"

lemma consumed_sent: "sn_cursor s \<le> length sent \<Longrightarrow> consumed (sent @ xs) s = consumed sent s"
  by (simp add: consumed_def)

lemma consumed_advance:
  "sn_joined s \<le> sn_cursor s \<Longrightarrow> sn_cursor s + n \<le> length sent \<Longrightarrow>
    drop (sn_joined s) (take (sn_cursor s + n) sent) = consumed sent s @ take n (drop (sn_cursor s) sent)"
  by (simp add: consumed_def take_add)

lemma session_inv_join: "session_inv cap (fo_sent f) (join_session f)"
  by (simp add: session_inv_def join_session_def)

lemma session_inv_sent: "session_inv cap sent s \<Longrightarrow> session_inv cap (sent @ [m]) s"
  by (auto simp: session_inv_def consumed_sent)

lemma session_inv_snapshot: "session_inv cap sent s \<Longrightarrow> session_inv cap sent (s\<lparr>sn_snapshot := x\<rparr>)"
  by (simp add: session_inv_def consumed_def)

lemma session_inv_message:
  assumes "session_inv cap sent s" "sn_cursor s < length sent" "m = sent ! sn_cursor s"
  shows "session_inv cap sent (got_message m s)"
proof -
  let ?c = "sn_cursor s" and ?r = "received (sn_events s)"
  have i: "sn_joined s \<le> ?c" "subseq ?r (consumed sent s)" using assms(1) by (simp_all add: session_inv_def)
  have "take 1 (drop ?c sent) = [m]" using assms(2,3) by (simp add: take_Suc_conv_app_nth [of 0] hd_drop_conv_nth take_Suc)
  then have c: "consumed sent (got_message m s) = consumed sent s @ [m]"
    using consumed_advance [OF i(1), of 1 sent] assms(2) by (simp add: consumed_def got_message_def)
  have r: "received (sn_events (got_message m s)) = ?r @ [m]" by (simp add: got_message_def)
  have "subseq (?r @ [m]) (consumed sent s @ [m])" using i(2) by (intro list_emb_append_mono) simp_all
  moreover have "last sent = m" if "?c + 1 = length sent"
    using that assms(2,3) by (metis add_diff_cancel_right' last_conv_nth length_0_conv not_less0)
  ultimately show ?thesis using assms(1,2) unfolding session_inv_def c r
    by (auto simp: got_message_def is_delivery_def)
qed

lemma session_inv_lag:
  assumes "session_inv cap sent s" "0 < cap" "sn_cursor s + n + cap \<le> length sent"
  shows "session_inv cap sent (got_lag n s)"
proof -
  have i: "sn_joined s \<le> sn_cursor s" "subseq (received (sn_events s)) (consumed sent s)"
    using assms(1) by (simp_all add: session_inv_def)
  have "consumed sent (got_lag n s) = consumed sent s @ take n (drop (sn_cursor s) sent)"
    using consumed_advance [OF i(1), of n sent] assms(3) by (simp add: consumed_def got_lag_def)
  then have "subseq (received (sn_events (got_lag n s))) (consumed sent (got_lag n s))"
    using i(2) by (simp add: got_lag_def list_emb_prefix)
  then show ?thesis using assms unfolding session_inv_def
    by (auto simp: got_lag_def is_delivery_def)
qed

lemma fanout_session_inv:
  assumes "broadcast_laws cap recv" "fanout_reachable recv exch symbol f"
  shows "\<forall>i s. fo_sessions f i = Some s \<longrightarrow> session_inv cap (fo_sent f) s"
  using assms(2) unfolding fanout_reachable_def
proof (induction rule: rtranclp_induct)
  case base
  then show ?case by (simp add: fanout_start_def)
next
  case (step f f')
  have cap: "0 < cap" using assms(1) by (simp add: broadcast_laws_def)
  show ?case using step.hyps(2) step.IH
  proof (cases rule: fanout_step.cases)
    case (Worker_record msg)
    then show ?thesis using step.IH by (simp add: record_last_def)
  next
    case (Worker_send msg)
    then show ?thesis using step.IH session_inv_sent by (simp add: broadcast_send_def)
  next
    case (Join i)
    then show ?thesis using step.IH session_inv_join by simp
  next
    case (Read_snapshot i s)
    then show ?thesis using step.IH session_inv_snapshot by simp
  next
    case (Get_message i s m)
    have c: "session_inv cap (fo_sent f) s" using step.IH Get_message(2) by blast
    then have "sn_cursor s < length (fo_sent f) \<and> m = fo_sent f ! sn_cursor s"
      using recv_Message [OF assms(1) _ Get_message(4)] by (simp add: session_inv_def)
    then show ?thesis using step.IH session_inv_message [OF c] Get_message(1) by simp
  next
    case (Get_lagged i s n)
    have c: "session_inv cap (fo_sent f) s" using step.IH Get_lagged(2) by blast
    then have "sn_cursor s + n + cap \<le> length (fo_sent f)"
      using recv_Lagged [OF assms(1) _ Get_lagged(4)] by (simp add: session_inv_def)
    then show ?thesis using step.IH session_inv_lag [OF c cap] Get_lagged(1) by simp
  next
    case (Leave i)
    then show ?thesis using step.IH by simp
  qed
qed

subsection \<open>Falling behind and catching up\<close>

lemma fanout_session:
  assumes "broadcast_laws cap recv" "fanout_reachable recv exch symbol f" "fo_sessions f i = Some s"
  shows "session_inv cap (fo_sent f) s"
  using fanout_session_inv [OF assms(1,2)] assms(3) by blast

lemma caught_up_last:
  assumes laws: "broadcast_laws cap recv" and r: "fanout_reachable recv exch symbol f"
    and s: "fo_sessions f i = Some s" "sn_snapshot s = Some snap" "sn_cursor s = length (fo_sent f)"
    and p: "fo_pending f = None" "fo_sent f \<noteq> []"
  shows "session_messages s \<noteq> [] \<and> last (session_messages s) = last (fo_sent f)"
proof (cases "sn_joined s = length (fo_sent f)")
  case False
  then have "received (sn_events s) \<noteq> [] \<and> last (received (sn_events s)) = last (fo_sent f)"
    using fanout_session [OF laws r s(1)] s(3) by (auto simp: session_inv_def)
  then show ?thesis by (simp add: session_messages_def)
next
  case True
  let ?l = "link_view i f"
  have l: "link_reachable exch symbol ?l" using fanout_views [OF r] by blast
  have v: "lk_snapshot ?l = Some snap" "lk_published ?l = fo_sent f" "lk_pending ?l = None" "lk_seen ?l = opt_list snap"
    using s(1,2) p True by (simp_all add: link_view_def lk_published_def lk_seen_def)
  from link_split [OF l v(1)] have "opt_list snap \<noteq> [] \<and> last (opt_list snap) = last (fo_sent f)"
    using p(2) unfolding v(2-4) by (auto simp: last_or_def split: if_splits)
  moreover have "received (sn_events s) = []" using fanout_session [OF laws r s(1)] s(3) True by (simp add: session_inv_def)
  ultimately show ?thesis by (simp add: session_messages_def s(2))
qed

text \<open>C12: what a subscriber of the bounded channel gets, however slow it is and whatever the others do: the
  messages it received are a subsequence, in order, of the stretch published since it joined that it has
  consumed; what it received and what it was told it missed add up to that stretch, so nothing is lost
  silently; it misses nothing unless more than the channel's capacity was published since it joined;
  and whenever it has caught up with a worker that is not in the middle of publishing, the last message
  it has is the last one published.\<close>

theorem fanout_delivery:
  assumes "broadcast_laws cap recv" "fanout_reachable recv exch symbol f"
    and "fo_sessions f i = Some s" "sn_snapshot s = Some snap"
  shows "subseq (received (sn_events s)) (consumed (fo_sent f) s) \<and>
    length (received (sn_events s)) + sn_missed s = sn_cursor s - sn_joined s \<and>
    (length (fo_sent f) - sn_joined s \<le> cap \<longrightarrow> received (sn_events s) = consumed (fo_sent f) s) \<and>
    (recv (fo_sent f) (sn_cursor s) = Recv_Pending \<and> fo_pending f = None \<and> fo_sent f \<noteq> [] \<longrightarrow>
      session_messages s \<noteq> [] \<and> last (session_messages s) = last (fo_sent f))"
proof -
  have i: "session_inv cap (fo_sent f) s" by (rule fanout_session [OF assms(1-3)])
  have "received (sn_events s) = consumed (fo_sent f) s" if "length (fo_sent f) - sn_joined s \<le> cap"
  proof (rule subseq_same_length)
    show "subseq (received (sn_events s)) (consumed (fo_sent f) s)" using i by (simp add: session_inv_def)
    show "length (received (sn_events s)) = length (consumed (fo_sent f) s)"
      using i that by (auto simp: session_inv_def consumed_def)
  qed
  moreover have "sn_cursor s = length (fo_sent f)" if "recv (fo_sent f) (sn_cursor s) = Recv_Pending"
    using recv_Pending [OF assms(1) _ that] i by (simp add: session_inv_def)
  ultimately show ?thesis using i caught_up_last [OF assms(1-4)] by (auto simp: session_inv_def)
qed

text \<open>Steps of session \<open>i\<close> alone.\<close>

definition only_session :: "nat \<Rightarrow> fanout \<Rightarrow> fanout \<Rightarrow> bool" where
  "only_session i f f' \<longleftrightarrow> (\<exists>x. f' = f\<lparr>fo_sessions := (fo_sessions f)(i := x)\<rparr>)"

lemma catch_up:
  assumes "broadcast_laws cap recv" "session_inv cap (fo_sent f) s" "fo_sessions f i = Some s" "sn_snapshot s \<noteq> None"
  shows "\<exists>f' s'. (fanout_step recv)\<^sup>*\<^sup>* f f' \<and> only_session i f f' \<and> fo_sessions f' i = Some s' \<and>
    sn_snapshot s' = sn_snapshot s \<and> recv (fo_sent f) (sn_cursor s') = Recv_Pending \<and>
    length (sn_events s') \<le> length (sn_events s) + (length (fo_sent f) - sn_cursor s)"
  using assms(2-4)
proof (induction "length (fo_sent f) - sn_cursor s" arbitrary: f s rule: less_induct)
  case less
  have cap: "0 < cap" using assms(1) by (simp add: broadcast_laws_def)
  have le: "sn_cursor s \<le> length (fo_sent f)" using less.prems(1) by (simp add: session_inv_def)
  have further: ?case
    if n: "fanout_step recv f (f\<lparr>fo_sessions := (fo_sessions f)(i \<mapsto> s1)\<rparr>)" "session_inv cap (fo_sent f) s1"
      "sn_cursor s < sn_cursor s1" "sn_cursor s1 \<le> length (fo_sent f)" "sn_snapshot s1 = sn_snapshot s"
      "length (sn_events s1) = Suc (length (sn_events s))" for s1
  proof -
    let ?f = "f\<lparr>fo_sessions := (fo_sessions f)(i \<mapsto> s1)\<rparr>"
    have "length (fo_sent ?f) - sn_cursor s1 < length (fo_sent f) - sn_cursor s" using n(3,4) by simp
    from less.hyps [OF this] obtain f' s' where h: "(fanout_step recv)\<^sup>*\<^sup>* ?f f'" "only_session i ?f f'"
      "fo_sessions f' i = Some s'" "sn_snapshot s' = sn_snapshot s1" "recv (fo_sent f) (sn_cursor s') = Recv_Pending"
      "length (sn_events s') \<le> length (sn_events s1) + (length (fo_sent f) - sn_cursor s1)"
      using n(2,5) less.prems(3) by auto
    have "(fanout_step recv)\<^sup>*\<^sup>* f f'" using n(1) h(1) by (rule converse_rtranclp_into_rtranclp)
    moreover have "only_session i f f'" using h(2) by (auto simp: only_session_def)
    ultimately show ?thesis using h(3-6) n(3-6) by (intro exI [of _ f'] exI [of _ s']) simp
  qed
  show ?case
  proof (cases "recv (fo_sent f) (sn_cursor s)")
    case Recv_Pending
    have "only_session i f f" unfolding only_session_def
      using less.prems(2) by (intro exI [of _ "Some s"]) (simp add: fun_upd_idem)
    then show ?thesis using less.prems Recv_Pending by (intro exI [of _ f] exI [of _ s]) simp
  next
    case (Recv_Message m)
    note c = recv_Message [OF assms(1) le this]
    show ?thesis using c session_inv_message [OF less.prems(1)]
      by (intro further [of "got_message m s"] fanout_step.Get_message less.prems Recv_Message) (simp_all add: got_message_def)
  next
    case (Recv_Lagged n)
    note c = recv_Lagged [OF assms(1) le this]
    show ?thesis using c session_inv_lag [OF less.prems(1) cap, of n]
      by (intro further [of "got_lag n s"] fanout_step.Get_lagged less.prems Recv_Lagged) (simp_all add: got_lag_def)
  qed
qed

text \<open>C34: a slow subscriber recovers: from any reachable state, a session that only keeps calling \<open>recv\<close> needs
  at most one call per message it is behind until it has caught up, without any help of the worker or
  effect on another session; with a worker that is not in the middle of publishing, the last message it
  has then is the last one published.\<close>

theorem fanout_recovers:
  assumes "broadcast_laws cap recv" "fanout_reachable recv exch symbol f"
    and "fo_sessions f i = Some s" "sn_snapshot s = Some snap" "fo_pending f = None" "fo_sent f \<noteq> []"
  shows "\<exists>f' s'. (fanout_step recv)\<^sup>*\<^sup>* f f' \<and> only_session i f f' \<and> fo_sessions f' i = Some s' \<and>
    length (sn_events s') \<le> length (sn_events s) + (length (fo_sent f) - sn_cursor s) \<and>
    last (session_messages s') = last (fo_sent f)"
proof -
  have "sn_snapshot s \<noteq> None" using assms(4) by simp
  from catch_up [OF assms(1) fanout_session [OF assms(1-3)] assms(3) this]
  obtain f' s' where f': "(fanout_step recv)\<^sup>*\<^sup>* f f'" "only_session i f f'" "fo_sessions f' i = Some s'"
    "sn_snapshot s' = Some snap" "recv (fo_sent f) (sn_cursor s') = Recv_Pending"
    "length (sn_events s') \<le> length (sn_events s) + (length (fo_sent f) - sn_cursor s)"
    using assms(4) by auto
  have e: "fo_sent f' = fo_sent f" "fo_pending f' = None" using f'(2) assms(5) by (auto simp: only_session_def)
  have r: "fanout_reachable recv exch symbol f'"
    using assms(2) f'(1) unfolding fanout_reachable_def by (rule rtranclp_trans)
  have "sn_cursor s' = length (fo_sent f')"
    using recv_Pending [OF assms(1) _ f'(5)] fanout_session [OF assms(1) r f'(3)] e(1) by (simp add: session_inv_def)
  from caught_up_last [OF assms(1) r f'(3,4) this e(2)] show ?thesis using f' e(1) assms(6) by auto
qed

subsection \<open>A subscriber that falls behind\<close>

text \<open>With room for one message, a session that has read the (empty) snapshot and then does not call
  \<open>recv\<close> while two messages are published; and the same session after its next two calls.\<close>

definition behind :: "server_message \<Rightarrow> server_message \<Rightarrow> fanout" where
  "behind m1 m2 = \<lparr>fo_entry = publish (publish (StreamEntry_new [] []) m1) m2, fo_pending = None,
     fo_sessions = [7 \<mapsto> \<lparr>sn_joined = 0, sn_cursor = 0, sn_snapshot = Some None, sn_events = [], sn_missed = 0\<rparr>]\<rparr>"

definition caught :: "server_message \<Rightarrow> server_message \<Rightarrow> fanout" where
  "caught m1 m2 = (behind m1 m2)\<lparr>fo_sessions := [7 \<mapsto> \<lparr>sn_joined = 0, sn_cursor = 2, sn_snapshot = Some None,
     sn_events = [Lagged 1, Received m2], sn_missed = 1\<rparr>]\<rparr>"

lemma fanout_publish:
  assumes "fo_pending f = None" shows "(fanout_step recv)\<^sup>*\<^sup>* f (f\<lparr>fo_entry := publish (fo_entry f) m\<rparr>)"
proof -
  let ?f = "f\<lparr>fo_entry := record_last m (fo_entry f), fo_pending := Some m\<rparr>"
  have "fanout_step recv f ?f" using assms by (rule fanout_step.Worker_record)
  moreover have "f\<lparr>fo_entry := publish (fo_entry f) m\<rparr> =
      ?f\<lparr>fo_entry := broadcast_send m (fo_entry ?f), fo_pending := None\<rparr>"
    using assms by (cases f) (simp add: publish_def)
  then have "fanout_step recv ?f (f\<lparr>fo_entry := publish (fo_entry f) m\<rparr>)"
    using fanout_step.Worker_send [of ?f m recv] by simp
  ultimately show ?thesis by (meson r_into_rtranclp rtranclp.rtrancl_into_rtrancl)
qed

definition joined_one :: fanout where
  "joined_one = (fanout_start [] [])\<lparr>fo_sessions := [7 \<mapsto> (join_session (fanout_start [] []))\<lparr>sn_snapshot := Some None\<rparr>]\<rparr>"

lemma joined_one_reachable: "fanout_reachable recv [] [] joined_one"
proof -
  let ?f0 = "fanout_start [] []"
  let ?f1 = "?f0\<lparr>fo_sessions := [7 \<mapsto> join_session ?f0]\<rparr>"
  have "fanout_step recv ?f0 ?f1" using fanout_step.Join [of ?f0 7 recv] by (simp add: fanout_start_def)
  moreover have "fanout_step recv ?f1 joined_one"
    using fanout_step.Read_snapshot [of ?f1 7 "join_session ?f0" recv]
    by (simp add: joined_one_def fanout_start_def join_session_def StreamEntry_new_def)
  ultimately show ?thesis unfolding fanout_reachable_def
    by (meson r_into_rtranclp rtranclp.rtrancl_into_rtrancl)
qed

lemma behind_reachable: "fanout_reachable recv [] [] (behind m1 m2)"
proof -
  define f3 where "f3 = joined_one\<lparr>fo_entry := publish (fo_entry joined_one) m1\<rparr>"
  have "(fanout_step recv)\<^sup>*\<^sup>* joined_one f3" unfolding f3_def
    by (rule fanout_publish) (simp add: joined_one_def fanout_start_def)
  moreover have "(fanout_step recv)\<^sup>*\<^sup>* f3 (f3\<lparr>fo_entry := publish (fo_entry f3) m2\<rparr>)"
    by (rule fanout_publish) (simp add: f3_def joined_one_def fanout_start_def)
  moreover have "f3\<lparr>fo_entry := publish (fo_entry f3) m2\<rparr> = behind m1 m2"
    by (simp add: f3_def joined_one_def behind_def fanout_start_def join_session_def StreamEntry_new_def)
  ultimately show ?thesis using joined_one_reachable [of recv] unfolding fanout_reachable_def
    by (metis (no_types) rtranclp_trans)
qed

lemma behind_parts [simp]: "fo_sent (behind m1 m2) = [m1, m2]" "fo_pending (behind m1 m2) = None"
  "fo_sent (caught m1 m2) = [m1, m2]" "fo_pending (caught m1 m2) = None"
  "fo_entry (caught m1 m2) = fo_entry (behind m1 m2)"
  by (simp_all add: behind_def caught_def publish_def broadcast_send_def record_last_def StreamEntry_new_def)

lemma caught_reachable: "fanout_reachable (ring_recv 1) [] [] (caught m1 m2)"
proof -
  let ?s = "\<lparr>sn_joined = 0, sn_cursor = 0, sn_snapshot = Some None, sn_events = [], sn_missed = 0\<rparr>"
  define f1 where "f1 = (behind m1 m2)\<lparr>fo_sessions := [7 \<mapsto> got_lag 1 ?s]\<rparr>"
  have r: "ring_recv 1 [m1, m2] 0 = Recv_Lagged 1" "ring_recv 1 [m1, m2] 1 = Recv_Message m2"
    by (simp_all add: ring_recv_def)
  have "fanout_step (ring_recv 1) (behind m1 m2) f1"
    using fanout_step.Get_lagged [of "behind m1 m2" 7 ?s "ring_recv 1" 1] r(1)
    by (simp add: f1_def) (simp add: behind_def)
  moreover have "fanout_step (ring_recv 1) f1 (caught m1 m2)"
    using fanout_step.Get_message [of f1 7 "got_lag 1 ?s" "ring_recv 1" m2] r(2)
    by (simp add: f1_def caught_def got_lag_def got_message_def numeral_2_eq_2)
  ultimately show ?thesis using behind_reachable [of "ring_recv 1" m1 m2] unfolding fanout_reachable_def
    by (meson rtranclp.rtrancl_into_rtrancl)
qed

text \<open>A session that received the only message from the channel.\<close>

definition received_one :: "server_message \<Rightarrow> fanout" where
  "received_one m = \<lparr>fo_entry = publish (StreamEntry_new [] []) m, fo_pending = None,
     fo_sessions = [7 \<mapsto> \<lparr>sn_joined = 0, sn_cursor = 1, sn_snapshot = Some None, sn_events = [Received m], sn_missed = 0\<rparr>]\<rparr>"

lemma received_one_reachable:
  assumes "0 < cap" shows "fanout_reachable (ring_recv cap) [] [] (received_one m)"
proof -
  let ?s = "(join_session (fanout_start [] []))\<lparr>sn_snapshot := Some None\<rparr>"
  define f1 where "f1 = joined_one\<lparr>fo_entry := publish (fo_entry joined_one) m\<rparr>"
  have "(fanout_step (ring_recv cap))\<^sup>*\<^sup>* joined_one f1" unfolding f1_def
    by (rule fanout_publish) (simp add: joined_one_def fanout_start_def)
  moreover have "fanout_step (ring_recv cap) f1 (received_one m)"
    using fanout_step.Get_message [of f1 7 ?s "ring_recv cap" m] assms
    by (simp add: f1_def joined_one_def received_one_def ring_recv_def got_message_def join_session_def fanout_start_def
        publish_def broadcast_send_def record_last_def StreamEntry_new_def)
  ultimately show ?thesis using joined_one_reachable [of "ring_recv cap"] unfolding fanout_reachable_def
    by (meson rtranclp.rtrancl_into_rtrancl rtranclp_trans)
qed


theorem fanout_delivery_witness:
  "\<exists>s. fo_sessions (caught (Heartbeat 1) (Heartbeat 2)) 7 = Some s \<and> received (sn_events s) = [Heartbeat 2] \<and>
    sn_missed s = 1 \<and> last (session_messages s) = Heartbeat 2"
proof -
  let ?f = "caught (Heartbeat 1) (Heartbeat 2)"
  let ?s = "\<lparr>sn_joined = 0, sn_cursor = 2, sn_snapshot = Some None, sn_events = [Lagged 1, Received (Heartbeat 2)], sn_missed = 1\<rparr>"
  have s: "fo_sessions ?f 7 = Some ?s" "sn_snapshot ?s = Some None" by (simp_all add: caught_def)
  have "ring_recv 1 (fo_sent ?f) (sn_cursor ?s) = Recv_Pending" by (simp add: ring_recv_def)
  then show ?thesis using fanout_delivery [OF ring_recv_laws caught_reachable s] s(1) by simp
qed

theorem fanout_recovers_witness:
  "\<exists>f' s'. (fanout_step (ring_recv 1))\<^sup>*\<^sup>* (behind (Heartbeat 1) (Heartbeat 2)) f' \<and> fo_sessions f' 7 = Some s' \<and>
    length (sn_events s') \<le> 2 \<and> last (session_messages s') = Heartbeat 2"
proof -
  let ?f = "behind (Heartbeat 1) (Heartbeat 2)"
  let ?s = "\<lparr>sn_joined = 0, sn_cursor = 0, sn_snapshot = Some None, sn_events = [], sn_missed = 0\<rparr>"
  have s: "fo_sessions ?f 7 = Some ?s" "sn_snapshot ?s = Some None" by (simp_all add: behind_def)
  have ne: "fo_sent ?f \<noteq> []" by simp
  from fanout_recovers [OF ring_recv_laws behind_reachable s behind_parts(2) ne, of 1]
  obtain f' s' where "(fanout_step (ring_recv 1))\<^sup>*\<^sup>* ?f f'" "fo_sessions f' 7 = Some s'"
    "length (sn_events s') \<le> 2" "last (session_messages s') = Heartbeat 2" by auto
  then show ?thesis by blast
qed

end
