(* ===== verification/Client.thy ===== *)
theory Client
  imports Server
begin

text \<open>
  \<open>crates/toxicity-client-rs/src\<close>: the state a consumer reads and the background task that keeps it. A
  session is driven by the list of what its \<open>select!\<close> picks, each with the time on the clock of
  \<open>tokio\<close> (nanoseconds); the JSON decoder and the sockets are parameters. The \<open>watch\<close> channel is its
  current value. A frame event carries the error of the write it causes, if that write fails.
\<close>

subsection \<open>State\<close>

datatype toxicity_state =
    Connecting
  | Warming u32
  | Live f64 "f64 option" u32
  | Stale

fun is_live :: "toxicity_state \<Rightarrow> bool" where
  "is_live (Live _ _ _) = True"
| "is_live _ = False"

definition is_stale :: "toxicity_state \<Rightarrow> bool" where
  "is_stale s \<longleftrightarrow> s = Stale"

record client =
  cl_state :: toxicity_state
  cl_backoff :: exponential_backoff
  cl_out :: "ws_frame list"

datatype client_error = Client_WebSocket str | Client_Json str

fun apply_message :: "server_message \<Rightarrow> toxicity_state \<Rightarrow> toxicity_state" where
  "apply_message (Reading e s b ts n vpin vpin_cdf) state =
     (case vpin of Some v \<Rightarrow> Live v vpin_cdf n | None \<Rightarrow> Warming n)"
| "apply_message (Heartbeat ts) state = (if state = Stale \<or> state = Connecting then Warming 0 else state)"
| "apply_message (Error_Message msg) state = state"

definition handle_message :: "(str \<Rightarrow> str + server_message) \<Rightarrow> str \<Rightarrow> toxicity_state \<Rightarrow> toxicity_state" where
  "handle_message parse t state = (case parse t of Inl e \<Rightarrow> state | Inr msg \<Rightarrow> apply_message msg state)"

subsection \<open>Sessions and the reconnect loop\<close>

datatype client_event =
    Staleness_Tick
  | Client_Frame ws_frame "str option"
  | Client_Error str
  | Client_End

fun client_loop :: "(str \<Rightarrow> str + server_message) \<Rightarrow> duration \<Rightarrow> (nat \<times> client_event) list \<Rightarrow> nat \<Rightarrow> client \<Rightarrow>
    (client_error + unit) option \<times> client" where
  "client_loop parse stale_after [] last_msg_at st = (None, st)"
| "client_loop parse stale_after ((now, Staleness_Tick) # evs) last_msg_at st =
     client_loop parse stale_after evs last_msg_at
       (if stale_after < now - last_msg_at then st\<lparr>cl_state := Stale\<rparr> else st)"
| "client_loop parse stale_after ((now, Client_Frame frame err) # evs) last_msg_at st =
     (case frame of
        TextFrame t \<Rightarrow> client_loop parse stale_after evs now (st\<lparr>cl_state := handle_message parse t (cl_state st)\<rparr>)
      | PingFrame payload \<Rightarrow> (case err of Some e \<Rightarrow> (Some (Inl (Client_WebSocket e)), st)
          | None \<Rightarrow> client_loop parse stale_after evs last_msg_at (st\<lparr>cl_out := cl_out st @ [PongFrame payload]\<rparr>))
      | CloseFrame \<Rightarrow> (Some (Inr ()), st)
      | _ \<Rightarrow> client_loop parse stale_after evs last_msg_at st)"
| "client_loop parse stale_after ((now, Client_Error e) # evs) last_msg_at st = (Some (Inl (Client_WebSocket e)), st)"
| "client_loop parse stale_after ((now, Client_End) # evs) last_msg_at st = (Some (Inr ()), st)"

text \<open>What one round meets: the error of the connect and of the subscription, if any, the time the session
  starts, and its events.\<close>

record client_script =
  cs_connect_error :: "str option"
  cs_subscribe_error :: "str option"
  cs_started_at :: nat
  cs_events :: "(nat \<times> client_event) list"

definition client_run_once :: "(str \<Rightarrow> str + server_message) \<Rightarrow> (subscribe_request \<Rightarrow> str) \<Rightarrow> str \<Rightarrow> str \<Rightarrow> duration \<Rightarrow>
    client_script \<Rightarrow> client \<Rightarrow> (client_error + unit) option \<times> client" where
  "client_run_once parse json exch symbol stale_after script st =
     (case cs_connect_error script of Some e \<Rightarrow> (Some (Inl (Client_WebSocket e)), st)
      | None \<Rightarrow> (let st1 = st\<lparr>cl_backoff := backoff_reset (cl_backoff st)\<rparr>;
                   sub = \<lparr>sr_exchange = exch, sr_symbol = symbol\<rparr>
          in case cs_subscribe_error script of Some e \<Rightarrow> (Some (Inl (Client_WebSocket e)), st1)
             | None \<Rightarrow> client_loop parse stale_after (cs_events script) (cs_started_at script)
                 (st1\<lparr>cl_out := cl_out st1 @ [TextFrame (json sub)]\<rparr>)))"

text \<open>The period of the staleness check.\<close>

definition staleness_period :: "duration \<Rightarrow> duration" where
  "staleness_period stale_after = max (stale_after div 2) (millis 1)"

text \<open>\<open>run\<close>: for as many rounds as scripts are given; a round whose session is still running is the last.
  The result is the sleeps and the client.\<close>

fun client_run :: "(str \<Rightarrow> str + server_message) \<Rightarrow> (subscribe_request \<Rightarrow> str) \<Rightarrow> str \<Rightarrow> str \<Rightarrow> duration \<Rightarrow>
    client_script list \<Rightarrow> client \<Rightarrow> duration list \<times> client" where
  "client_run parse json exch symbol stale_after [] st = ([], st)"
| "client_run parse json exch symbol stale_after (s # ss) st =
     (case client_run_once parse json exch symbol stale_after s (st\<lparr>cl_state := Connecting\<rparr>) of
        (None, st1) \<Rightarrow> ([], st1)
      | (Some result, st1) \<Rightarrow>
          (case next_delay (cl_backoff st1) of (delay, b) \<Rightarrow>
           case client_run parse json exch symbol stale_after ss (st1\<lparr>cl_state := Stale, cl_backoff := b\<rparr>) of
             (sleeps, st2) \<Rightarrow> (delay # sleeps, st2)))"

definition client_connect :: "backoff_config \<Rightarrow> client" where
  "client_connect cfg = \<lparr>cl_state = Connecting, cl_backoff = BackoffConfig_build cfg, cl_out = []\<rparr>"

text \<open>The handle: it owns the task, and dropping it aborts the task, which then does nothing more.\<close>

record toxicity_client =
  tc_task :: client
  tc_aborted :: bool

definition ToxicityClient_connect :: "backoff_config \<Rightarrow> toxicity_client" where
  "ToxicityClient_connect cfg = \<lparr>tc_task = client_connect cfg, tc_aborted = False\<rparr>"

definition ToxicityClient_state :: "toxicity_client \<Rightarrow> toxicity_state" where
  "ToxicityClient_state c = cl_state (tc_task c)"

definition ToxicityClient_drop :: "toxicity_client \<Rightarrow> toxicity_client" where
  "ToxicityClient_drop c = c\<lparr>tc_aborted := True\<rparr>"

subsection \<open>What the state says\<close>

text \<open>The messages a stretch of events delivers, with their times.\<close>

fun texts :: "(nat \<times> client_event) list \<Rightarrow> (nat \<times> str) list" where
  "texts [] = []"
| "texts ((now, Client_Frame (TextFrame t) err) # evs) = (now, t) # texts evs"
| "texts (_ # evs) = texts evs"

definition vpin_of_text :: "(str \<Rightarrow> str + server_message) \<Rightarrow> str \<Rightarrow> (f64 \<times> f64 option \<times> u32) option" where
  "vpin_of_text parse t = (case parse t of Inr (Reading e s b ts n (Some v) c) \<Rightarrow> Some (v, c, n) | _ \<Rightarrow> None)"

definition is_reading_text :: "(str \<Rightarrow> str + server_message) \<Rightarrow> str \<Rightarrow> bool" where
  "is_reading_text parse t = (case parse t of Inr msg \<Rightarrow> is_reading msg | _ \<Rightarrow> False)"

lemma texts_append [simp]: "texts (xs @ ys) = texts xs @ texts ys"
  by (induction xs rule: texts.induct) simp_all

text \<open>When the last message of a stretch came.\<close>

fun last_at :: "nat \<Rightarrow> (nat \<times> client_event) list \<Rightarrow> nat" where
  "last_at t0 [] = t0"
| "last_at t0 ((now, Client_Frame (TextFrame t) err) # evs) = last_at now evs"
| "last_at t0 (_ # evs) = last_at t0 evs"

lemma last_at_texts: "last_at t0 evs = (if texts evs = [] then t0 else fst (last (texts evs)))"
  by (induction t0 evs rule: last_at.induct) auto

text \<open>The state a session leaves, without the rest of the client: what each event does to it.\<close>

fun state_after :: "(str \<Rightarrow> str + server_message) \<Rightarrow> duration \<Rightarrow> (nat \<times> client_event) list \<Rightarrow> nat \<Rightarrow>
    toxicity_state \<Rightarrow> toxicity_state" where
  "state_after parse sa [] t0 s = s"
| "state_after parse sa ((now, Staleness_Tick) # evs) t0 s =
     state_after parse sa evs t0 (if sa < now - t0 then Stale else s)"
| "state_after parse sa ((now, Client_Frame (TextFrame t) err) # evs) t0 s =
     state_after parse sa evs now (handle_message parse t s)"
| "state_after parse sa (_ # evs) t0 s = state_after parse sa evs t0 s"

lemma client_loop_state: "client_loop parse sa evs t0 st = (None, st') \<Longrightarrow>
    cl_state st' = state_after parse sa evs t0 (cl_state st)"
proof (induction evs arbitrary: t0 st)
  case (Cons x xs)
  obtain now e where x: "x = (now, e)" by force
  show ?case unfolding x
  proof (cases e)
    case (Client_Frame f err)
    then show "cl_state st' = state_after parse sa ((now, e) # xs) t0 (cl_state st)"
      using Cons.IH Cons.prems x by (cases f) (auto split: option.splits)
  qed (use Cons.IH Cons.prems x in \<open>auto split: if_splits\<close>)
qed simp

lemma state_after_append:
  "state_after parse sa (xs @ ys) t0 s = state_after parse sa ys (last_at t0 xs) (state_after parse sa xs t0 s)"
  by (induction parse sa xs t0 s rule: state_after.induct) simp_all

text \<open>Where a live state comes from.\<close>

lemma handle_message_live:
  "handle_message parse t s = Live v c n \<longleftrightarrow> vpin_of_text parse t = Some (v, c, n) \<or>
     s = Live v c n \<and> \<not> is_reading_text parse t"
  by (cases "parse t"; cases "\<exists>msg. parse t = Inr msg")
    (auto simp: handle_message_def vpin_of_text_def is_reading_text_def
      split: server_message.splits option.splits)

lemma state_after_live:
  assumes "state_after parse sa evs t0 s = Live v c n"
  shows "(s = Live v c n \<and> (\<forall>(u, t) \<in> set (texts evs). \<not> is_reading_text parse t)) \<or>
    (\<exists>pre u t post. texts evs = pre @ (u, t) # post \<and> vpin_of_text parse t = Some (v, c, n) \<and>
      (\<forall>(u', t') \<in> set post. \<not> is_reading_text parse t'))"
  using assms
proof (induction parse sa evs t0 s rule: state_after.induct)
  case (3 parse sa now t err evs t0 s)
  from "3.IH" [OF "3.prems" [simplified]] show ?case
  proof
    assume a: "handle_message parse t s = Live v c n \<and> (\<forall>(u, t) \<in> set (texts evs). \<not> is_reading_text parse t)"
    then show ?thesis
    proof (cases "vpin_of_text parse t = Some (v, c, n)")
      case True
      then show ?thesis using a by (intro disjI2 exI [of _ "[]"] exI [of _ now] exI [of _ t] exI [of _ "texts evs"]) simp
    next
      case False
      then show ?thesis using a handle_message_live by auto
    qed
  next
    assume "\<exists>pre u t post. texts evs = pre @ (u, t) # post \<and> vpin_of_text parse t = Some (v, c, n) \<and>
      (\<forall>(u', t') \<in> set post. \<not> is_reading_text parse t')"
    then obtain pre u t' post where "texts evs = pre @ (u, t') # post" "vpin_of_text parse t' = Some (v, c, n)"
      "\<forall>(u', t') \<in> set post. \<not> is_reading_text parse t'" by blast
    then show ?thesis by (intro disjI2 exI [of _ "(now, t) # pre"] exI [of _ u] exI [of _ t'] exI [of _ post]) simp
  qed
qed (auto split: if_splits)

text \<open>The checks of a stretch all find a recent message.\<close>

fun fresh_checks :: "duration \<Rightarrow> (nat \<times> client_event) list \<Rightarrow> nat \<Rightarrow> bool" where
  "fresh_checks sa [] t0 \<longleftrightarrow> True"
| "fresh_checks sa ((now, Staleness_Tick) # evs) t0 \<longleftrightarrow> now - t0 \<le> sa \<and> fresh_checks sa evs t0"
| "fresh_checks sa ((now, Client_Frame (TextFrame t) err) # evs) t0 \<longleftrightarrow> fresh_checks sa evs now"
| "fresh_checks sa (_ # evs) t0 \<longleftrightarrow> fresh_checks sa evs t0"

lemma fresh_checks_keep:
  "fresh_checks sa evs t0 \<Longrightarrow> (\<forall>(u, t) \<in> set (texts evs). handle_message parse t s = s) \<Longrightarrow>
    state_after parse sa evs t0 s = s"
  by (induction sa evs t0 rule: fresh_checks.induct) auto

text \<open>What a running client shows: its last round, if that is still running, started from \<open>Connecting\<close>.\<close>

lemma client_run_state:
  "client_run parse json exch symbol sa ss st = (sleeps, st') \<Longrightarrow>
    ss = [] \<and> st' = st \<or> ss \<noteq> [] \<and> cl_state st' = Stale \<or>
    (\<exists>s \<in> set ss. cs_connect_error s = None \<and> cs_subscribe_error s = None \<and>
      cl_state st' = state_after parse sa (cs_events s) (cs_started_at s) Connecting)"
proof (induction ss arbitrary: st sleeps)
  case (Cons s ss)
  obtain r st1 where r: "client_run_once parse json exch symbol sa s (st\<lparr>cl_state := Connecting\<rparr>) = (r, st1)" by force
  show ?case
  proof (cases r)
    case None
    then have "st' = st1" using Cons.prems r by simp
    moreover have "cs_connect_error s = None" "cs_subscribe_error s = None"
      using r None by (auto simp: client_run_once_def Let_def split: option.splits)
    moreover from this have "cl_state st1 = state_after parse sa (cs_events s) (cs_started_at s) Connecting"
      using r None by (auto simp: client_run_once_def Let_def dest!: client_loop_state)
    ultimately show ?thesis by auto
  next
    case (Some res)
    obtain d b where d: "next_delay (cl_backoff st1) = (d, b)" by force
    obtain sl where "client_run parse json exch symbol sa ss (st1\<lparr>cl_state := Stale, cl_backoff := b\<rparr>) = (sl, st')"
      using Cons.prems r Some d by (auto split: prod.splits)
    from Cons.IH [OF this] show ?thesis by auto
  qed
qed simp


text \<open>silence is noticed: at the first check later than \<open>stale_after\<close> after the last message the state
  becomes \<open>Stale\<close>, whatever it was, and it stays so until the next text message.\<close>

theorem client_goes_stale:
  assumes "client_loop parse sa (evs @ (now, Staleness_Tick) # quiet) t0 st = (None, st')"
    and "sa < now - last_at t0 evs" "texts quiet = []"
  shows "cl_state st' = Stale"
proof -
  have stay: "state_after parse sa quiet t Stale = Stale" if "texts quiet = []" for quiet t
    using that by (induction parse sa quiet t Stale rule: state_after.induct) (auto split: if_splits)
  show ?thesis using client_loop_state [OF assms(1)] assms(2,3) by (simp add: state_after_append stay)
qed

text \<open>any text message counts as a sign of life: malformed texts and errors from the service refresh the
  clock without touching the state, so a client that receives nothing else goes on showing its last
  live score, however long ago the last reading or heartbeat came.\<close>

theorem client_garbage_keeps_state:
  assumes "client_loop parse sa evs t0 st = (None, st')" "fresh_checks sa evs t0"
    and "\<forall>(u, t) \<in> set (texts evs). is_err (parse t) \<or> (\<exists>msg. parse t = Inr (Error_Message msg))"
  shows "cl_state st' = cl_state st"
proof -
  have "\<forall>(u, t) \<in> set (texts evs). handle_message parse t (cl_state st) = cl_state st"
    using assms(3) by (fastforce simp: handle_message_def is_err_def split: sum.splits)
  then show ?thesis using client_loop_state [OF assms(1)] fresh_checks_keep [OF assms(2)] by simp
qed

lemma client_no_connect:
  assumes "eb_attempt (cl_backoff st) = of_nat k"
  shows "k + length ss \<le> 2 ^ 32 \<Longrightarrow> (\<forall>s \<in> set ss. cs_connect_error s \<noteq> None) \<Longrightarrow>
    fst (client_run parse json exch symbol sa ss st) =
      map (delay_at (eb_base (cl_backoff st)) (eb_max (cl_backoff st))) [k..<k + length ss] \<and>
    (ss \<noteq> [] \<longrightarrow> cl_state (snd (client_run parse json exch symbol sa ss st)) = Stale)"
  using assms
proof (induction ss arbitrary: st k)
  case (Cons s ss)
  let ?b = "cl_backoff st"
  obtain e where e: "cs_connect_error s = Some e" using Cons.prems(2) by auto
  have d: "next_delay ?b = (delay_at (eb_base ?b) (eb_max ?b) k, ?b\<lparr>eb_attempt := of_nat (Suc k)\<rparr>)"
    using next_delay_at [of ?b k] Cons.prems(1,3) by (simp add: prod_eq_iff del: of_nat_Suc)
  let ?st = "st\<lparr>cl_state := Stale, cl_backoff := ?b\<lparr>eb_attempt := of_nat (Suc k)\<rparr>\<rparr>"
  obtain sl st2 where r: "client_run parse json exch symbol sa ss ?st = (sl, st2)" by force
  have "client_run parse json exch symbol sa (s # ss) st = (delay_at (eb_base ?b) (eb_max ?b) k # sl, st2)"
    using r by (simp add: client_run_once_def e d)
  moreover have "sl = map (delay_at (eb_base ?b) (eb_max ?b)) [Suc k..<Suc k + length ss]"
    "ss \<noteq> [] \<longrightarrow> cl_state st2 = Stale"
    using Cons.IH [of "Suc k" ?st] Cons.prems r by simp_all
  moreover have "ss = [] \<longrightarrow> st2 = ?st" using r by auto
  moreover have "[k..<k + length (s # ss)] = k # [Suc k..<Suc k + length ss]" by (subst upt_conv_Cons) simp_all
  moreover have "cl_state st2 = Stale" using calculation by (cases "ss = []") simp_all
  ultimately show ?case by (simp only: fst_conv snd_conv list.map simp_thms)
qed simp

text \<open>before the first connect succeeds the client waits the growing delays of the backoff, and between the
  attempts its state is \<open>Stale\<close>, not \<open>Connecting\<close>: a feed that has never worked reads as one that
  worked and went dark.\<close>

theorem client_never_connected:
  assumes "ss \<noteq> []" "length ss \<le> 2 ^ 32" "\<forall>s \<in> set ss. cs_connect_error s \<noteq> None"
  shows "fst (client_run parse json exch symbol sa ss (client_connect cfg)) =
      map (delay_at (bc_base cfg) (bc_max cfg)) [0..<length ss] \<and>
    is_stale (cl_state (snd (client_run parse json exch symbol sa ss (client_connect cfg))))"
  using client_no_connect [of "client_connect cfg" 0 ss parse json exch symbol sa] assms
  by (simp add: client_connect_def BackoffConfig_build_def ExponentialBackoff_new_def is_stale_def)

subsection \<open>Instances\<close>

text \<open>A decoder that knows three texts.\<close>

definition parse_small :: "str \<Rightarrow> str + server_message" where
  "parse_small t = (if t = [1] then Inr (Reading [] [] 1 2 3 (Some f64_one) None)
     else if t = [2] then Inr (Heartbeat 4) else Inl [])"

definition script_small :: "(nat \<times> client_event) list \<Rightarrow> client_script" where
  "script_small evs = \<lparr>cs_connect_error = None, cs_subscribe_error = None, cs_started_at = 0, cs_events = evs\<rparr>"


theorem client_goes_stale_witness:
  "cl_state (snd (client_loop parse_small 9 [(5, Client_Frame (TextFrame [1]) None), (15, Staleness_Tick)] 0
     (client_connect BackoffConfig_default))) = Stale"
proof -
  let ?evs = "[(5, Client_Frame (TextFrame [1]) None)] @ (15, Staleness_Tick) # []"
  obtain st where r: "client_loop parse_small 9 ?evs 0 (client_connect BackoffConfig_default) = (None, st)" by simp
  have "9 < 15 - last_at 0 [(5, Client_Frame (TextFrame [1]) None)]" by simp
  from client_goes_stale [OF r this] show ?thesis using r by simp
qed

theorem client_garbage_keeps_state_witness:
  "cl_state (snd (client_loop parse_small 9 [(8, Client_Frame (TextFrame [7]) None), (15, Staleness_Tick),
     (16, Client_Frame (TextFrame [7]) None), (24, Staleness_Tick)] 0
     ((client_connect BackoffConfig_default)\<lparr>cl_state := Live f64_one None 3\<rparr>))) = Live f64_one None 3"
proof -
  let ?evs = "[(8, Client_Frame (TextFrame [7]) None), (15, Staleness_Tick),
     (16, Client_Frame (TextFrame [7]) None), (24, Staleness_Tick)]"
  let ?st = "(client_connect BackoffConfig_default)\<lparr>cl_state := Live f64_one None 3\<rparr>"
  obtain st where r: "client_loop parse_small 9 ?evs 0 ?st = (None, st)" by simp
  have "cl_state st = cl_state ?st"
    by (rule client_garbage_keeps_state [OF r]) (simp_all add: parse_small_def)
  then show ?thesis using r by simp
qed

theorem client_never_connected_witness:
  "fst (client_run parse_small (\<lambda>sub. []) [] [] 9 [(script_small [])\<lparr>cs_connect_error := Some []\<rparr>]
      (client_connect \<lparr>bc_base = 10, bc_max = 35\<rparr>)) = [10]"
proof -
  let ?ss = "[(script_small [])\<lparr>cs_connect_error := Some []\<rparr>]"
  have "?ss \<noteq> []" "length ?ss \<le> 2 ^ 32" "\<forall>s \<in> set ?ss. cs_connect_error s \<noteq> None" by simp_all
  from client_never_connected [OF this] show ?thesis
    by (simp add: delay_at_def duration_saturating_mul_def duration_max_def)
qed

end
