(* ===== verification/Json_Values.thy ===== *)
theory Json_Values
  imports Strings F64
begin

text \<open>
  The values that \<open>serde_json::json!\<close> builds in the code: adapters subscribe with them, the health endpoint and the
  calibration tool report with them. Their text is a parameter where it matters.
\<close>

datatype json = JNull | JBool bool | JNumber u64 | JCount usize | JFloat f64 | JString str | JArray "json list"
  | JObject "(str \<times> json) list"

end
