(* ===== verification/Ingest.thy ===== *)
theory Ingest
  imports Capture Backoff Json_Values
begin

text \<open>
  The three exchange adapters of \<open>crates/trade-ingest/src\<close> (\<open>binance.rs\<close>, \<open>bybit.rs\<close>,
  \<open>hyperliquid.rs\<close>): decoding a text message into trades, the receive loop of one session, and the
  reconnect loop around it. JSON parsing is \<open>serde_json\<close>'s and enters as parameters, one per
  deserialization the code asks for; \<open>clock\<close> gives the receive time taken for the trade with a
  given sequence number. A session is the list of what the socket and the timer deliver; its end is
  the end of the stream. The locale \<open>venue_decoder\<close> is what the session loop needs of a decoder.
\<close>

subsection \<open>Decoding\<close>

record agg_trade =
  agg_trade_time_ms :: u64
  agg_price :: str
  agg_qty :: str
  agg_buyer_is_maker :: bool

record bybit_trade =
  by_time_ms :: u64
  by_side :: str
  by_price :: str
  by_qty :: str

record ws_trade =
  wt_side :: str
  wt_px :: str
  wt_sz :: str
  wt_time :: u64

type_synonym ('p, 'q, 's) decoded = "(ingest_error + ('p, 'q, 's) normalized_trade list) \<times> u64"

definition make_trade :: "('p, 'q, 's) feedhandler \<Rightarrow> (u64 \<Rightarrow> u64) \<Rightarrow> 's \<Rightarrow> exchange \<Rightarrow> str \<Rightarrow> str \<Rightarrow> u64 \<Rightarrow>
    taker_side \<Rightarrow> u64 \<Rightarrow> ingest_error + ('p, 'q, 's) normalized_trade" where
  "make_trade fh clock symbol exch price qty time_ms side seq =
     result_bind (parse_price fh price) (\<lambda>p. result_bind (parse_qty fh qty) (\<lambda>q.
       Inr \<lparr>nt_price = p, nt_qty = q, nt_ts_exchange_ns = saturating_mul_u64 time_ms 1000000,
            nt_ts_recv_ns = clock seq, nt_symbol = symbol, nt_exchange = exch,
            nt_taker_side = side, nt_sequence = seq\<rparr>))"

definition binance_decode :: "(str \<Rightarrow> str + agg_trade) \<Rightarrow> ('p, 'q, 's) feedhandler \<Rightarrow> (u64 \<Rightarrow> u64) \<Rightarrow>
    's \<Rightarrow> str \<Rightarrow> u64 \<Rightarrow> (ingest_error + ('p, 'q, 's) normalized_trade) \<times> u64" where
  "binance_decode envelope fh clock symbol text seq =
     (case envelope text of Inl e \<Rightarrow> (Inl (Json e), seq)
      | Inr t \<Rightarrow> (make_trade fh clock symbol Binance (agg_price t) (agg_qty t) (agg_trade_time_ms t)
                    (if agg_buyer_is_maker t then Sell else Buy) seq, seq + 1))"

text \<open>\<open>into_iter().map(..).collect()\<close> into a \<open>Result\<close>: it stops at the first error, the sequence number
  of the failed trade being spent already.\<close>

fun collect_trades :: "('t \<Rightarrow> u64 \<Rightarrow> ingest_error + 'n) \<Rightarrow> 't list \<Rightarrow> u64 \<Rightarrow> (ingest_error + 'n list) \<times> u64" where
  "collect_trades f [] seq = (Inr [], seq)"
| "collect_trades f (t # ts) seq = (case f t seq of
      Inl e \<Rightarrow> (Inl e, seq + 1)
    | Inr x \<Rightarrow> (case collect_trades f ts (seq + 1) of
        (Inl e, s) \<Rightarrow> (Inl e, s) | (Inr xs, s) \<Rightarrow> (Inr (x # xs), s)))"

definition bybit_side :: "str \<Rightarrow> taker_side" where
  "bybit_side s = (if s = str_of ''Buy'' then Buy else Sell)"

definition bybit_decode :: "(str \<Rightarrow> str + 'v) \<Rightarrow> ('v \<Rightarrow> bool) \<Rightarrow> ('v \<Rightarrow> str + str \<times> bybit_trade list) \<Rightarrow>
    ('p, 'q, 's) feedhandler \<Rightarrow> (u64 \<Rightarrow> u64) \<Rightarrow> 's \<Rightarrow> str \<Rightarrow> u64 \<Rightarrow> ('p, 'q, 's) decoded" where
  "bybit_decode value has_topic envelope fh clock symbol text seq =
     (case value text of Inl e \<Rightarrow> (Inl (Json e), seq)
      | Inr v \<Rightarrow> if \<not> has_topic v then (Inr [], seq)
        else case envelope v of Inl e \<Rightarrow> (Inl (Json e), seq)
        | Inr (topic, data) \<Rightarrow>
            if \<not> starts_with topic (str_of ''publicTrade.'') then (Inr [], seq)
            else collect_trades (\<lambda>t seq. make_trade fh clock symbol Bybit (by_price t) (by_qty t)
                   (by_time_ms t) (bybit_side (by_side t)) seq) data seq)"

definition hyperliquid_side :: "str \<Rightarrow> taker_side" where
  "hyperliquid_side s = (if s = str_of ''B'' then Buy else Sell)"

definition hyperliquid_decode :: "(str \<Rightarrow> str + str \<times> 'v) \<Rightarrow> ('v \<Rightarrow> str + ws_trade list) \<Rightarrow>
    ('p, 'q, 's) feedhandler \<Rightarrow> (u64 \<Rightarrow> u64) \<Rightarrow> 's \<Rightarrow> str \<Rightarrow> u64 \<Rightarrow> ('p, 'q, 's) decoded" where
  "hyperliquid_decode envelope ws_trades fh clock symbol text seq =
     (case envelope text of Inl e \<Rightarrow> (Inl (Json e), seq)
      | Inr (channel, data) \<Rightarrow>
          if channel \<noteq> str_of ''trades'' then (Inr [], seq)
          else case ws_trades data of Inl e \<Rightarrow> (Inl (Json e), seq)
          | Inr trades \<Rightarrow> collect_trades (\<lambda>t seq. make_trade fh clock symbol Hyperliquid (wt_px t) (wt_sz t)
               (wt_time t) (hyperliquid_side (wt_side t)) seq) trades seq)"

subsection \<open>One session, and the reconnect loop\<close>

datatype 'b ws_event =
    WsText str
  | WsPing 'b "str option"
  | WsClose
  | WsError str
  | WsOther
  | WsTick "str option"

datatype 'b out_msg = Pong 'b | OutText str

record ('n, 'b) adapter =
  ad_sequence :: u64
  ad_backoff :: exponential_backoff
  ad_sent :: "'n list"
  ad_out :: "'b out_msg list"

text \<open>\<open>for trade in .. { if tx.send(trade).is_err() { return Ok(()) } }\<close>; \<open>rx n\<close> says whether the
  receiver is still there when \<open>n\<close> trades have been sent.\<close>

fun deliver :: "(nat \<Rightarrow> bool) \<Rightarrow> 'n list \<Rightarrow> 'n list \<Rightarrow> 'n list \<times> bool" where
  "deliver rx [] sent = (sent, True)"
| "deliver rx (t # ts) sent = (if rx (length sent) then deliver rx ts (sent @ [t]) else (sent, False))"

text \<open>The receive loop. \<open>app_ping\<close> is the application-level ping the timer branch writes, \<open>None\<close> for
  Binance, whose loop has no such branch. A \<open>Some\<close> in an event is the error of the write it causes.\<close>

fun session_loop :: "(str \<Rightarrow> u64 \<Rightarrow> (ingest_error + 'n list) \<times> u64) \<Rightarrow> (nat \<Rightarrow> bool) \<Rightarrow> str option \<Rightarrow>
    'b ws_event list \<Rightarrow> ('n, 'b) adapter \<Rightarrow> (ingest_error + unit) \<times> ('n, 'b) adapter" where
  "session_loop decode rx app_ping [] st = (Inr (), st)"
| "session_loop decode rx app_ping (WsText text # es) st =
     (case decode text (ad_sequence st) of
        (Inl e, seq) \<Rightarrow> (Inl e, st\<lparr>ad_sequence := seq\<rparr>)
      | (Inr ts, seq) \<Rightarrow> (case deliver rx ts (ad_sent st) of (sent, open_rx) \<Rightarrow>
          (let st' = st\<lparr>ad_sequence := seq, ad_sent := sent\<rparr>
           in if open_rx then session_loop decode rx app_ping es st' else (Inr (), st'))))"
| "session_loop decode rx app_ping (WsPing payload err # es) st =
     (case err of Some e \<Rightarrow> (Inl (WebSocket e), st)
      | None \<Rightarrow> session_loop decode rx app_ping es (st\<lparr>ad_out := ad_out st @ [Pong payload]\<rparr>))"
| "session_loop decode rx app_ping (WsClose # es) st = (Inr (), st)"
| "session_loop decode rx app_ping (WsError e # es) st = (Inl (WebSocket e), st)"
| "session_loop decode rx app_ping (WsOther # es) st = session_loop decode rx app_ping es st"
| "session_loop decode rx app_ping (WsTick err # es) st =
     (case app_ping of None \<Rightarrow> session_loop decode rx app_ping es st
      | Some ping \<Rightarrow> (case err of Some e \<Rightarrow> (Inl (WebSocket e), st)
        | None \<Rightarrow> session_loop decode rx app_ping es (st\<lparr>ad_out := ad_out st @ [OutText ping]\<rparr>)))"

text \<open>What one call of \<open>run_once\<close> meets: the error of the connect and of the subscription, if any, and
  then the events. \<open>subscribe\<close> is the subscription message, \<open>None\<close> for Binance, which subscribes in
  the URL.\<close>

record 'b session_script =
  ss_connect_error :: "str option"
  ss_subscribe_error :: "str option"
  ss_events :: "'b ws_event list"

definition run_once :: "(str \<Rightarrow> u64 \<Rightarrow> (ingest_error + 'n list) \<times> u64) \<Rightarrow> (nat \<Rightarrow> bool) \<Rightarrow> str option \<Rightarrow>
    str option \<Rightarrow> 'b session_script \<Rightarrow> ('n, 'b) adapter \<Rightarrow> (ingest_error + unit) \<times> ('n, 'b) adapter" where
  "run_once decode rx subscribe app_ping script st =
     (case ss_connect_error script of Some e \<Rightarrow> (Inl (WebSocket e), st)
      | None \<Rightarrow> (let st1 = st\<lparr>ad_backoff := backoff_reset (ad_backoff st)\<rparr> in
          case subscribe of None \<Rightarrow> session_loop decode rx app_ping (ss_events script) st1
          | Some sub \<Rightarrow> (case ss_subscribe_error script of Some e \<Rightarrow> (Inl (WebSocket e), st1)
            | None \<Rightarrow> session_loop decode rx app_ping (ss_events script)
                (st1\<lparr>ad_out := ad_out st1 @ [OutText sub]\<rparr>))))"

text \<open>\<open>run\<close>: a session whatever its result, then a sleep, for as many rounds as scripts are given. The
  result is the waits and the adapter.\<close>

fun run_adapter :: "(str \<Rightarrow> u64 \<Rightarrow> (ingest_error + 'n list) \<times> u64) \<Rightarrow> (nat \<Rightarrow> bool) \<Rightarrow> str option \<Rightarrow>
    str option \<Rightarrow> 'b session_script list \<Rightarrow> ('n, 'b) adapter \<Rightarrow> duration list \<times> ('n, 'b) adapter" where
  "run_adapter decode rx subscribe app_ping [] st = ([], st)"
| "run_adapter decode rx subscribe app_ping (s # ss) st =
     (case run_once decode rx subscribe app_ping s st of (result, st1) \<Rightarrow>
      case next_delay (ad_backoff st1) of (delay, b) \<Rightarrow>
      case run_adapter decode rx subscribe app_ping ss (st1\<lparr>ad_backoff := b\<rparr>) of (sleeps, st2) \<Rightarrow>
        (delay # sleeps, st2))"

definition adapter_init :: "backoff_config \<Rightarrow> ('n, 'b) adapter" where
  "adapter_init cfg = \<lparr>ad_sequence = 0, ad_backoff = BackoffConfig_build cfg, ad_sent = [], ad_out = []\<rparr>"

text \<open>The three venues' \<open>run\<close>. Binance's decoder gives one trade per message.\<close>

definition binance_symbol :: "('p, 'q, 's) feedhandler \<Rightarrow> (str \<Rightarrow> u8 list) \<Rightarrow> str \<Rightarrow> 's" where
  "binance_symbol fh as_bytes symbol = symbol_from_bytes fh (as_bytes (to_ascii_uppercase symbol))"

definition binance_url :: "str \<Rightarrow> str" where
  "binance_url symbol_lower =
     str_of ''wss://fstream.binance.com/market/stream?streams='' @ symbol_lower @ str_of ''@aggTrade''"

definition one_trade :: "(ingest_error + 'n) \<times> u64 \<Rightarrow> (ingest_error + 'n list) \<times> u64" where
  "one_trade r = (map_sum id (\<lambda>t. [t]) (fst r), snd r)"

definition binance_run :: "(str \<Rightarrow> str + agg_trade) \<Rightarrow> ('p, 'q, 's) feedhandler \<Rightarrow> (u64 \<Rightarrow> u64) \<Rightarrow> (str \<Rightarrow> u8 list) \<Rightarrow>
    str \<Rightarrow> (nat \<Rightarrow> bool) \<Rightarrow> backoff_config \<Rightarrow> 'b session_script list \<Rightarrow>
    duration list \<times> (('p, 'q, 's) normalized_trade, 'b) adapter" where
  "binance_run envelope fh clock as_bytes symbol rx cfg scripts =
     run_adapter (\<lambda>text seq. one_trade (binance_decode envelope fh clock (binance_symbol fh as_bytes symbol) text seq))
       rx None None scripts (adapter_init cfg)"

text \<open>The other two subscribe with a message; \<open>to_text\<close> is \<open>to_string\<close> of \<open>serde_json::Value\<close>.\<close>

definition bybit_subscription :: "str \<Rightarrow> json" where
  "bybit_subscription symbol = JObject [(str_of ''op'', JString (str_of ''subscribe'')),
     (str_of ''args'', JArray [JString (str_of ''publicTrade.'' @ symbol)])]"

definition hyperliquid_subscription :: "str \<Rightarrow> json" where
  "hyperliquid_subscription coin = JObject [(str_of ''method'', JString (str_of ''subscribe'')),
     (str_of ''subscription'', JObject [(str_of ''type'', JString (str_of ''trades'')), (str_of ''coin'', JString coin)])]"

definition bybit_run :: "(str \<Rightarrow> str + 'v) \<Rightarrow> ('v \<Rightarrow> bool) \<Rightarrow> ('v \<Rightarrow> str + str \<times> bybit_trade list) \<Rightarrow>
    (json \<Rightarrow> str) \<Rightarrow> ('p, 'q, 's) feedhandler \<Rightarrow> (u64 \<Rightarrow> u64) \<Rightarrow> (str \<Rightarrow> u8 list) \<Rightarrow> str \<Rightarrow> (nat \<Rightarrow> bool) \<Rightarrow>
    backoff_config \<Rightarrow> 'b session_script list \<Rightarrow> duration list \<times> (('p, 'q, 's) normalized_trade, 'b) adapter" where
  "bybit_run value has_topic envelope to_text fh clock as_bytes symbol rx cfg scripts =
     run_adapter (bybit_decode value has_topic envelope fh clock (symbol_from_bytes fh (as_bytes symbol)))
       rx (Some (to_text (bybit_subscription symbol))) (Some (str_of ''{\"op\":\"ping\"}'')) scripts (adapter_init cfg)"

definition hyperliquid_run :: "(str \<Rightarrow> str + str \<times> 'v) \<Rightarrow> ('v \<Rightarrow> str + ws_trade list) \<Rightarrow> (json \<Rightarrow> str) \<Rightarrow>
    ('p, 'q, 's) feedhandler \<Rightarrow> (u64 \<Rightarrow> u64) \<Rightarrow> (str \<Rightarrow> u8 list) \<Rightarrow> str \<Rightarrow> (nat \<Rightarrow> bool) \<Rightarrow>
    backoff_config \<Rightarrow> 'b session_script list \<Rightarrow> duration list \<times> (('p, 'q, 's) normalized_trade, 'b) adapter" where
  "hyperliquid_run envelope ws_trades to_text fh clock as_bytes coin rx cfg scripts =
     run_adapter (hyperliquid_decode envelope ws_trades fh clock (symbol_from_bytes fh (as_bytes coin)))
       rx (Some (to_text (hyperliquid_subscription coin))) (Some (str_of ''{\"method\":\"ping\"}'')) scripts (adapter_init cfg)"

subsection \<open>The interface: what a session needs of a decoder\<close>

text \<open>A successful message is numbered consecutively from the counter; a failed one may have spent
  numbers, but never gives any back; and every trade has the stream's own attributes.\<close>

locale venue_decoder =
  fixes decode :: "str \<Rightarrow> u64 \<Rightarrow> (ingest_error + 'n list) \<times> u64"
    and seq_of :: "'n \<Rightarrow> u64"
    and own :: "'n \<Rightarrow> bool"
  assumes decode_ok: "decode text s = (Inr ts, s') \<Longrightarrow>
      map seq_of ts = map (\<lambda>k. s + of_nat k) [0..<length ts] \<and> s' = s + of_nat (length ts)"
    and decode_err: "decode text s = (Inl e, s') \<Longrightarrow> \<exists>n. s' = s + of_nat n"
    and decode_own: "decode text s = (Inr ts, s') \<Longrightarrow> t \<in> set ts \<Longrightarrow> own t"
begin

definition numbered :: "('n, 'b) adapter \<Rightarrow> nat \<Rightarrow> bool" where
  "numbered st c \<longleftrightarrow> ad_sequence st = of_nat c \<and> (\<forall>t \<in> set (ad_sent st). own t) \<and>
     (\<exists>offs. sorted_wrt (<) offs \<and> (\<forall>n \<in> set offs. n < c) \<and> map seq_of (ad_sent st) = map of_nat offs)"

lemma deliver_take:
  "deliver rx ts sent = (sent', ok) \<Longrightarrow> \<exists>k \<le> length ts. sent' = sent @ take k ts \<and> (ok \<longrightarrow> k = length ts)"
proof (induction ts arbitrary: sent)
  case (Cons t ts)
  show ?case
  proof (cases "rx (length sent)")
    case True
    then have "deliver rx ts (sent @ [t]) = (sent', ok)" using Cons.prems by simp
    then obtain k where "k \<le> length ts" "sent' = (sent @ [t]) @ take k ts" "ok \<longrightarrow> k = length ts"
      using Cons.IH by blast
    then show ?thesis by (intro exI [of _ "Suc k"]) simp
  qed (use Cons.prems in auto)
qed simp

lemma numbered_deliver:
  assumes "numbered st c" "decode text (ad_sequence st) = (Inr ts, seq)" "deliver rx ts (ad_sent st) = (sent, ok)"
  shows "numbered (st\<lparr>ad_sequence := seq, ad_sent := sent\<rparr>) (c + length ts)"
proof -
  obtain offs where o: "sorted_wrt (<) offs" "\<forall>n \<in> set offs. n < c" "map seq_of (ad_sent st) = map of_nat offs"
    and c: "ad_sequence st = of_nat c" "\<forall>t \<in> set (ad_sent st). own t"
    using assms(1) unfolding numbered_def by blast
  note d = decode_ok [OF assms(2)]
  obtain k where k: "k \<le> length ts" "sent = ad_sent st @ take k ts" using deliver_take [OF assms(3)] by blast
  have "map seq_of (take k ts) = take k (map (\<lambda>k. ad_sequence st + of_nat k) [0..<length ts])"
    using d by (simp add: take_map [symmetric])
  also have "\<dots> = map of_nat [c ..< c + k]"
    using k(1) by (intro nth_equalityI) (simp_all add: take_map c)
  finally have "map seq_of sent = map of_nat (offs @ [c ..< c + k])" using k o(3) by simp
  moreover have "sorted_wrt (<) (offs @ [c ..< c + k])"
    using o(1,2) by (auto simp: sorted_wrt_append less_imp_le intro: less_le_trans)
  moreover have "\<forall>n \<in> set (offs @ [c ..< c + k]). n < c + length ts" using o(2) k(1) by auto
  moreover have "\<forall>t \<in> set sent. own t" using k(2) c(2) decode_own [OF assms(2)] by (auto dest: in_set_takeD)
  moreover have "seq = of_nat (c + length ts)" using d c(1) by simp
  ultimately show ?thesis unfolding numbered_def by (auto intro!: exI [of _ "offs @ [c ..< c + k]"])
qed

lemma numbered_error:
  assumes "numbered st c" "decode text (ad_sequence st) = (Inl e, seq)"
  shows "\<exists>n. numbered (st\<lparr>ad_sequence := seq\<rparr>) (c + n)"
proof -
  obtain n where "seq = ad_sequence st + of_nat n" using decode_err [OF assms(2)] by blast
  then have "numbered (st\<lparr>ad_sequence := seq\<rparr>) (c + n)"
    using assms(1) by (fastforce simp: numbered_def)
  then show ?thesis by blast
qed

lemma numbered_out [simp]: "numbered (st\<lparr>ad_out := x\<rparr>) c = numbered st c"
  "numbered (st\<lparr>ad_backoff := b\<rparr>) c = numbered st c"
  by (simp_all add: numbered_def)

lemma numbered_session:
  "numbered st c \<Longrightarrow> \<exists>n. numbered (snd (session_loop decode rx app_ping es st)) n"
proof (induction es arbitrary: st c)
  case (Cons ev es)
  show ?case
  proof (cases ev)
    case (WsText msg)
    obtain r seq where d: "decode msg (ad_sequence st) = (r, seq)" by force
    show ?thesis
    proof (cases r)
      case (Inl e)
      then show ?thesis using numbered_error [OF Cons.prems, of msg e seq] d by (auto simp: WsText)
    next
      case (Inr ts)
      obtain sent ok where v: "deliver rx ts (ad_sent st) = (sent, ok)" by force
      from numbered_deliver [OF Cons.prems d [unfolded Inr] v] Cons.IH
      show ?thesis by (auto simp: WsText d Inr v Let_def)
    qed
  qed (use Cons in \<open>auto split: option.splits\<close>)
qed auto

lemma numbered_run_once:
  "numbered st c \<Longrightarrow> \<exists>n. numbered (snd (run_once decode rx subscribe app_ping s st)) n"
  by (cases "ss_connect_error s"; cases subscribe; cases "ss_subscribe_error s")
    (auto simp: run_once_def Let_def intro!: numbered_session)

lemma numbered_run:
  "numbered st c \<Longrightarrow> \<exists>n. numbered (snd (run_adapter decode rx subscribe app_ping ss st)) n"
proof (induction ss arbitrary: st c)
  case (Cons s ss)
  obtain r st1 where o: "run_once decode rx subscribe app_ping s st = (r, st1)" by force
  then obtain n where "numbered st1 n" using numbered_run_once [OF Cons.prems, of rx subscribe app_ping s] by auto
  then have "\<exists>n. numbered (snd (run_adapter decode rx subscribe app_ping ss
      (st1\<lparr>ad_backoff := snd (next_delay (ad_backoff st1))\<rparr>))) n"
    by (intro Cons.IH) simp
  then show ?case by (simp add: o split_beta)
qed auto

lemma sequences_of_run:
  "\<exists>offs. sorted_wrt (<) offs \<and>
    map seq_of (ad_sent (snd (run_adapter decode rx subscribe app_ping ss (adapter_init cfg)))) = map of_nat offs"
  and own_run:
  "\<forall>t \<in> set (ad_sent (snd (run_adapter decode rx subscribe app_ping ss (adapter_init cfg)))). own t"
proof -
  have "numbered (adapter_init cfg) 0" by (simp add: numbered_def adapter_init_def)
  from numbered_run [OF this] show
    "\<exists>offs. sorted_wrt (<) offs \<and>
      map seq_of (ad_sent (snd (run_adapter decode rx subscribe app_ping ss (adapter_init cfg)))) = map of_nat offs"
    "\<forall>t \<in> set (ad_sent (snd (run_adapter decode rx subscribe app_ping ss (adapter_init cfg)))). own t"
    unfolding numbered_def by blast+
qed

end

subsection \<open>The three venues provide it\<close>

text \<open>What every trade of a stream has in common.\<close>

definition stamped :: "(u64 \<Rightarrow> u64) \<Rightarrow> 's \<Rightarrow> exchange \<Rightarrow> ('p, 'q, 's) normalized_trade \<Rightarrow> bool" where
  "stamped clock symbol exch t \<longleftrightarrow> nt_symbol t = symbol \<and> nt_exchange t = exch \<and>
     nt_ts_recv_ns t = clock (nt_sequence t)"

lemma make_trade_stamped:
  "make_trade fh clock symbol exch price qty ms side seq = Inr t \<Longrightarrow>
    nt_sequence t = seq \<and> stamped clock symbol exch t"
  by (auto simp: make_trade_def result_bind_Inr stamped_def)

lemma collect_trades_ok:
  assumes "\<And>t s x. f t s = Inr x \<Longrightarrow> seq_of x = s \<and> own x"
  shows "collect_trades f ts s = (Inr xs, s') \<Longrightarrow>
    map seq_of xs = map (\<lambda>k. s + of_nat k) [0..<length xs] \<and> s' = s + of_nat (length xs) \<and>
    (\<forall>x \<in> set xs. own x) \<and> length xs = length ts"
proof (induction ts arbitrary: s xs)
  case (Cons t ts)
  obtain x ys where x: "f t s = Inr x" "collect_trades f ts (s + 1) = (Inr ys, s')" "xs = x # ys"
    using Cons.prems by (auto split: sum.splits prod.splits)
  have "map (\<lambda>k. s + of_nat k) [0..<length xs] = s # map (\<lambda>k. (s + 1) + of_nat k) [0..<length ys]"
    unfolding x(3) by (simp add: upt_conv_Cons map_Suc_upt [symmetric] comp_def add.assoc del: upt_Suc map_Suc_upt)
  then show ?case using Cons.IH [OF x(2)] assms [OF x(1)] x(3) by (simp add: add.commute add.left_commute)
qed simp

lemma collect_trades_err:
  "collect_trades f ts s = (Inl e, s') \<Longrightarrow>
    \<exists>k < length ts. f (ts ! k) (s + of_nat k) = Inl e \<and> s' = s + of_nat (Suc k) \<and>
      (\<forall>j < k. \<exists>x. f (ts ! j) (s + of_nat j) = Inr x)"
proof (induction ts arbitrary: s)
  case (Cons t ts)
  show ?case
  proof (cases "f t s")
    case (Inl e')
    then show ?thesis using Cons.prems by (intro exI [of _ 0]) simp
  next
    case (Inr x)
    then have "collect_trades f ts (s + 1) = (Inl e, s')" using Cons.prems by (auto split: sum.splits prod.splits)
    from Cons.IH [OF this] obtain k where k: "k < length ts" "f (ts ! k) (s + 1 + of_nat k) = Inl e"
      "s' = s + 1 + of_nat (Suc k)" "\<forall>j < k. \<exists>x. f (ts ! j) (s + 1 + of_nat j) = Inr x" by blast
    have "\<exists>y. f ((t # ts) ! j) (s + of_nat j) = Inr y" if "j < Suc k" for j
      using that k(4) Inr by (cases j) (auto simp: add.assoc)
    then show ?thesis using k by (intro exI [of _ "Suc k"]) (simp add: add.assoc)
  qed
qed simp

lemma binance_decode_cases:
  obtains e n where "binance_decode envelope fh clock symbol msg s = (Inl e, s + of_nat n)"
  | t where "binance_decode envelope fh clock symbol msg s = (Inr t, s + 1)" "nt_sequence t = s"
      "stamped clock symbol Binance t"
proof (cases "envelope msg")
  case (Inl e)
  then show ?thesis using that(1) [of "Json e" 0] by (simp add: binance_decode_def)
next
  case (Inr a)
  show ?thesis
  proof (cases "make_trade fh clock symbol Binance (agg_price a) (agg_qty a) (agg_trade_time_ms a)
      (if agg_buyer_is_maker a then Sell else Buy) s")
    case (Inl e)
    then show ?thesis using that(1) [of e 1] \<open>envelope msg = Inr a\<close> by (simp add: binance_decode_def)
  next
    case (Inr t)
    then show ?thesis using that(2) [of t] make_trade_stamped [OF Inr] \<open>envelope msg = Inr a\<close>
      by (simp add: binance_decode_def)
  qed
qed

interpretation binance: venue_decoder
    "\<lambda>msg seq. one_trade (binance_decode envelope fh clock symbol msg seq)" nt_sequence
    "stamped clock symbol Binance" for envelope fh clock symbol
proof unfold_locales
  fix msg s ts s' e t
  let ?d = "\<lambda>msg seq. one_trade (binance_decode envelope fh clock symbol msg seq)"
  show "map nt_sequence ts = map (\<lambda>k. s + of_nat k) [0..<length ts] \<and> s' = s + of_nat (length ts)"
    if "?d msg s = (Inr ts, s')"
    using that by (cases rule: binance_decode_cases [of envelope fh clock symbol msg s]) (auto simp: one_trade_def)
  show "\<exists>n. s' = s + of_nat n" if "?d msg s = (Inl e, s')"
    using that by (cases rule: binance_decode_cases [of envelope fh clock symbol msg s]) (auto simp: one_trade_def)
  show "stamped clock symbol Binance t" if "?d msg s = (Inr ts, s')" "t \<in> set ts"
    using that by (cases rule: binance_decode_cases [of envelope fh clock symbol msg s]) (auto simp: one_trade_def)
qed

text \<open>Both other venues decode to nothing, fail before numbering anything, or collect a batch.\<close>

lemma batch_decoder:
  assumes "\<And>msg s. (\<exists>e. decode msg s = (Inl e, s)) \<or> decode msg s = (Inr [], s) \<or>
      (\<exists>ts. decode msg s = collect_trades (f :: 't \<Rightarrow> u64 \<Rightarrow> ingest_error + 'n) ts s)"
    and "\<And>t s x. f t s = Inr x \<Longrightarrow> seq_of x = s \<and> own x"
  shows "venue_decoder decode seq_of own"
proof
  fix msg s ts s' e t
  have ok: "map seq_of xs = map (\<lambda>k. s + of_nat k) [0..<length xs] \<and> s' = s + of_nat (length xs) \<and>
      (\<forall>x \<in> set xs. own x)" if "collect_trades f bs s = (Inr xs, s')" for bs xs s s'
    using collect_trades_ok [of f seq_of own bs s xs s'] assms(2) that by blast
  show "map seq_of ts = map (\<lambda>k. s + of_nat k) [0..<length ts] \<and> s' = s + of_nat (length ts)"
    if "decode msg s = (Inr ts, s')" using assms(1) [of msg s] ok [of _ s ts s'] that by auto
  show "\<exists>n. s' = s + of_nat n" if d: "decode msg s = (Inl e, s')"
    using assms(1) [of msg s]
  proof (elim disjE exE)
    fix bs assume "decode msg s = collect_trades f bs s"
    then obtain k where "s' = s + of_nat (Suc k)" using d collect_trades_err [of f bs s e s'] by auto
    then show ?thesis by blast
  qed (use d in \<open>auto intro: exI [of _ 0]\<close>)
  show "own t" if "decode msg s = (Inr ts, s')" "t \<in> set ts"
    using assms(1) [of msg s] ok [of _ s ts s'] that by auto
qed

interpretation bybit: venue_decoder "bybit_decode value has_topic envelope fh clock symbol" nt_sequence
    "stamped clock symbol Bybit" for "value" has_topic envelope fh clock symbol
proof (rule batch_decoder)
  let ?f = "\<lambda>(t :: bybit_trade) seq. make_trade fh clock symbol Bybit (by_price t) (by_qty t) (by_time_ms t) (bybit_side (by_side t)) seq"
  let ?d = "bybit_decode value has_topic envelope fh clock symbol"
  show "(\<exists>e. bybit_decode value has_topic envelope fh clock symbol msg s = (Inl e, s)) \<or>
      bybit_decode value has_topic envelope fh clock symbol msg s = (Inr [], s) \<or>
      (\<exists>ts. bybit_decode value has_topic envelope fh clock symbol msg s = collect_trades ?f ts s)" for msg s
  proof (cases "\<exists>v topic data. value msg = Inr v \<and> has_topic v \<and> envelope v = Inr (topic, data) \<and>
      starts_with topic (str_of ''publicTrade.'')")
    case True
    then obtain v topic data where "value msg = Inr v" "has_topic v" "envelope v = Inr (topic, data)"
      "starts_with topic (str_of ''publicTrade.'')" by blast
    then have "?d msg s = collect_trades ?f data s" by (simp add: bybit_decode_def)
    then show ?thesis by (intro disjI2 exI)
  qed (auto simp: bybit_decode_def split: sum.splits)
  show "nt_sequence x = s \<and> stamped clock symbol Bybit x" if "?f t s = Inr x" for t s x
    using that by (rule make_trade_stamped)
qed

interpretation hyperliquid: venue_decoder "hyperliquid_decode envelope ws_trades fh clock symbol" nt_sequence
    "stamped clock symbol Hyperliquid" for envelope ws_trades fh clock symbol
proof (rule batch_decoder)
  let ?f = "\<lambda>(t :: ws_trade) seq. make_trade fh clock symbol Hyperliquid (wt_px t) (wt_sz t) (wt_time t) (hyperliquid_side (wt_side t)) seq"
  show "(\<exists>e. hyperliquid_decode envelope ws_trades fh clock symbol msg s = (Inl e, s)) \<or>
      hyperliquid_decode envelope ws_trades fh clock symbol msg s = (Inr [], s) \<or>
      (\<exists>ts. hyperliquid_decode envelope ws_trades fh clock symbol msg s = collect_trades ?f ts s)" for msg s
  proof (cases "\<exists>data trades. envelope msg = Inr (str_of ''trades'', data) \<and> ws_trades data = Inr trades")
    case True
    then obtain data trades where "envelope msg = Inr (str_of ''trades'', data)" "ws_trades data = Inr trades"
      by blast
    then have "hyperliquid_decode envelope ws_trades fh clock symbol msg s = collect_trades ?f trades s"
      by (simp add: hyperliquid_decode_def)
    then show ?thesis by (intro disjI2 exI)
  qed (auto simp: hyperliquid_decode_def split: sum.splits)
  show "nt_sequence x = s \<and> stamped clock symbol Hyperliquid x" if "?f t s = Inr x" for t s x
    using that by (rule make_trade_stamped)
qed

subsection \<open>Properties of the adapters\<close>

text \<open>Numbers that start at or after zero and only grow, as 64-bit words.\<close>

definition stream_numbers :: "u64 list \<Rightarrow> bool" where
  "stream_numbers ns \<longleftrightarrow> (\<exists>offs. sorted_wrt (<) offs \<and> ns = map of_nat offs)"


definition one_agg :: agg_trade where
  "one_agg = \<lparr>agg_trade_time_ms = 3, agg_price = str_of ''1'', agg_qty = str_of ''2'', agg_buyer_is_maker = True\<rparr>"


text \<open>a Bybit batch is all or nothing, but not for the numbers: when the trade at position \<open>k\<close> of a
  batch has a malformed price or quantity, the session ends with that error, none of the batch's
  trades is handed on, not even the \<open>k\<close> before it, and the counter has moved past all of them. So the
  sequence is not the count of emitted trades its documentation says it is.\<close>

theorem bybit_batch_dropped:
  assumes "val msg = Inr v" "topic v" "benv v = Inr (name, data)" "starts_with name (str_of ''publicTrade.'')"
    and "k < length data" "parse_price fh (by_price (data ! k)) = Inl e"
    and "\<forall>t \<in> set (take k data). \<not> is_err (parse_price fh (by_price t)) \<and> \<not> is_err (parse_qty fh (by_qty t))"
  shows "session_loop (bybit_decode val topic benv fh clock symbol) rx ping (WsText msg # es) st =
    (Inl e, st\<lparr>ad_sequence := ad_sequence st + of_nat (Suc k)\<rparr>)"
proof -
  let ?f = "\<lambda>(t :: bybit_trade) seq. make_trade fh clock symbol Bybit (by_price t) (by_qty t) (by_time_ms t) (bybit_side (by_side t)) seq"
  have bad: "?f (data ! k) s = Inl e" for s using assms(6) by (simp add: make_trade_def)
  have good: "\<exists>x. ?f t s = Inr x" if "t \<in> set (take k data)" for t s
    using assms(7) that unfolding make_trade_def is_err_def result_bind_def
    by (fastforce split: sum.splits)
  have "collect_trades ?f ts s = (Inl e, s + of_nat (Suc k))"
    if "k < length ts" "?f (ts ! k) = (\<lambda>s. Inl e)" "\<forall>t \<in> set (take k ts). \<forall>s. \<exists>x. ?f t s = Inr x" for ts s k
    using that
  proof (induction ts arbitrary: s k)
    case (Cons t ts)
    show ?case
    proof (cases k)
      case 0
      then show ?thesis using Cons.prems(2) by (simp add: fun_eq_iff)
    next
      case (Suc j)
      then obtain x where x: "?f t s = Inr x" using Cons.prems(3) by force
      have "collect_trades ?f ts (s + 1) = (Inl e, s + 1 + of_nat (Suc j))"
        using Cons.prems Suc by (intro Cons.IH) auto
      then show ?thesis using x by (simp add: Suc add.assoc)
    qed
  qed simp
  from this [OF assms(5)] have "collect_trades ?f data (ad_sequence st) = (Inl e, ad_sequence st + of_nat (Suc k))"
    using bad good by blast
  then show ?thesis using assms(1-4) by (simp add: bybit_decode_def)
qed

subsection \<open>Reconnect delays\<close>

lemma session_loop_backoff:
  "ad_backoff (snd (session_loop decode rx app_ping es st)) = ad_backoff st"
proof (induction es arbitrary: st)
  case (Cons ev es)
  then show ?case by (cases ev) (auto simp: Let_def split: sum.splits prod.splits option.splits)
qed simp

lemma run_once_backoff:
  "ad_backoff (snd (run_once decode rx subscribe app_ping s st)) =
    (if ss_connect_error s = None then backoff_reset (ad_backoff st) else ad_backoff st)"
  by (auto simp: run_once_def Let_def session_loop_backoff split: option.splits)

text \<open>The number of connects that have failed in a row at each wait; \<open>oks\<close> says which connects
  succeeded.\<close>

fun failures_before :: "bool list \<Rightarrow> nat \<Rightarrow> nat list" where
  "failures_before [] k = []"
| "failures_before (ok # oks) k = (let j = if ok then 0 else k in j # failures_before oks (Suc j))"

lemma failures_all_connected: "\<forall>ok \<in> set oks. ok \<Longrightarrow> failures_before oks k = replicate (length oks) 0"
  by (induction oks arbitrary: k) (auto simp: Let_def)

lemma run_adapter_sleeps:
  "eb_attempt (ad_backoff st) = of_nat k \<Longrightarrow> k + length ss \<le> 2 ^ 32 \<Longrightarrow>
    fst (run_adapter decode rx subscribe app_ping ss st) =
      map (delay_at (eb_base (ad_backoff st)) (eb_max (ad_backoff st)))
        (failures_before (map (\<lambda>s. ss_connect_error s = None) ss) k)"
proof (induction ss arbitrary: st k)
  case (Cons s ss)
  define j where "j = (if ss_connect_error s = None then 0 else k)"
  obtain r st1 where o: "run_once decode rx subscribe app_ping s st = (r, st1)" by force
  have b: "ad_backoff st1 = (ad_backoff st)\<lparr>eb_attempt := of_nat j\<rparr>"
    using run_once_backoff [of decode rx subscribe app_ping s st] Cons.prems(1)
    by (simp add: o j_def backoff_reset_def)
  then have j: "eb_attempt (ad_backoff st1) = of_nat j" "j < 2 ^ 32" "Suc j + length ss \<le> 2 ^ 32"
    using Cons.prems(2) by (auto simp: j_def)
  note d = next_delay_at [OF j(1,2)]
  let ?st2 = "st1\<lparr>ad_backoff := snd (next_delay (ad_backoff st1))\<rparr>"
  have b2: "snd (next_delay (ad_backoff st1)) = (ad_backoff st)\<lparr>eb_attempt := of_nat (Suc j)\<rparr>"
    using d(2) b by simp
  have "fst (run_adapter decode rx subscribe app_ping ss ?st2) =
      map (delay_at (eb_base (ad_backoff st)) (eb_max (ad_backoff st)))
        (failures_before (map (\<lambda>s. ss_connect_error s = None) ss) (Suc j))"
    using Cons.IH [of ?st2 "Suc j"] j(3) unfolding b2 by simp
  then show ?case using d(1) b
    by (simp only: run_adapter.simps o prod.case split_beta fst_conv list.map failures_before.simps
        Let_def j_def [symmetric]) simp
qed simp

text \<open>C38: the waits of an adapter's reconnect loop: the wait after a round is \<open>base * 2 ^ min k 20\<close>
  capped at \<open>max\<close>, where \<open>k\<close> counts the connects that failed in a row before it, whatever happened
  inside the sessions and whether or not anyone still receives the trades. In particular the backoff
  never grows while connects succeed: a stream whose sessions fail right after connecting, or whose
  receiver is gone, reconnects after every \<open>base\<close> forever.\<close>

theorem reconnect_delays:
  assumes "length ss \<le> 2 ^ 32"
  shows "fst (run_adapter decode rx subscribe app_ping ss (adapter_init cfg)) =
      map (delay_at (bc_base cfg) (bc_max cfg)) (failures_before (map (\<lambda>s. ss_connect_error s = None) ss) 0) \<and>
    ((\<forall>s \<in> set ss. ss_connect_error s = None) \<longrightarrow>
      fst (run_adapter decode rx subscribe app_ping ss (adapter_init cfg)) =
        replicate (length ss) (delay_at (bc_base cfg) (bc_max cfg) 0))"
proof -
  have "fst (run_adapter decode rx subscribe app_ping ss (adapter_init cfg)) =
      map (delay_at (bc_base cfg) (bc_max cfg)) (failures_before (map (\<lambda>s. ss_connect_error s = None) ss) 0)"
    using run_adapter_sleeps [of "adapter_init cfg" 0 ss decode rx subscribe app_ping] assms
    by (simp add: adapter_init_def BackoffConfig_build_def ExponentialBackoff_new_def)
  then show ?thesis by (simp add: failures_all_connected map_replicate)
qed

text \<open>Two sessions of a Bybit stream: the first ends with a batch whose second trade is malformed.\<close>

definition bad_batch :: "bybit_trade list" where
  "bad_batch = [\<lparr>by_time_ms = 1, by_side = str_of ''Buy'', by_price = str_of ''1'', by_qty = str_of ''2''\<rparr>,
     \<lparr>by_time_ms = 1, by_side = str_of ''Buy'', by_price = str_of ''x'', by_qty = str_of ''2''\<rparr>]"

theorem bybit_batch_dropped_witness:
  "session_loop (bybit_decode (\<lambda>msg. Inr ()) (\<lambda>v. True) (\<lambda>v. Inr (str_of ''publicTrade.BTC'', bad_batch)) fh_words id 7)
      (\<lambda>n. True) None [WsText [], WsClose] (adapter_init BackoffConfig_default) =
    (Inl (BadDecimal (str_of ''x'')), (adapter_init BackoffConfig_default)\<lparr>ad_sequence := 2\<rparr>)"
proof -
  have w: "\<not> white_space 120" "\<not> white_space 49" "\<not> white_space 50" by (simp_all add: white_space_def)
  have p: "parse_fixed8 [120] = Inl (BadDecimal [120])" "\<not> is_err (parse_fixed8 [49])" "\<not> is_err (parse_fixed8 [50])"
    by (simp_all add: parse_fixed8_def Let_def trim_def w starts_with_def utf8_len_def utf8_width_def
        parse_u64_def strip_plus_def is_digit_def checked_mul_u64_def checked_add_u64_def)
  have q: "is_err (map_sum id f r) = is_err r" for f r by (cases r) simp_all
  have "1 < length bad_batch" "parse_price fh_words (by_price (bad_batch ! 1)) = Inl (BadDecimal (str_of ''x''))"
    "\<forall>t \<in> set (take 1 bad_batch). \<not> is_err (parse_price fh_words (by_price t)) \<and> \<not> is_err (parse_qty fh_words (by_qty t))"
    using p by (simp_all add: bad_batch_def parse_price_def parse_qty_def str_of_def q)
  moreover have "starts_with (str_of ''publicTrade.BTC'') (str_of ''publicTrade.'')"
    by (simp add: starts_with_def str_of_def)
  moreover have "ad_sequence (adapter_init BackoffConfig_default) + of_nat (Suc 1) = 2" by (simp add: adapter_init_def)
  ultimately show ?thesis
    using bybit_batch_dropped [where val = "\<lambda>msg. Inr ()" and topic = "\<lambda>v. True" and
        benv = "\<lambda>v. Inr (str_of ''publicTrade.BTC'', bad_batch)" and k = 1 and fh = fh_words and st = "adapter_init BackoffConfig_default",
        OF refl TrueI refl] by metis
qed

definition quick_close :: "unit session_script" where
  "quick_close = \<lparr>ss_connect_error = None, ss_subscribe_error = None, ss_events = [WsClose]\<rparr>"

theorem reconnect_delays_witness:
  "fst (run_adapter (\<lambda>text seq. (Inl (Json text) :: ingest_error + unit list, seq)) (\<lambda>n. False) None None (replicate 3 quick_close) (adapter_init BackoffConfig_default)) =
    replicate 3 (millis 250)"
proof -
  have l: "length (replicate 3 quick_close) \<le> 2 ^ 32"
    and c: "\<forall>s \<in> set (replicate 3 quick_close). ss_connect_error s = None" by (simp_all add: quick_close_def)
  have "delay_at (bc_base BackoffConfig_default) (bc_max BackoffConfig_default) 0 = millis 250"
    by (simp add: delay_at_def duration_saturating_mul_def duration_max_def BackoffConfig_default_def)
  then show ?thesis using reconnect_delays [OF l, THEN conjunct2, THEN mp, OF c] by (metis length_replicate)
qed

end
