(* ===== verification/Calibrate.thy ===== *)
theory Calibrate
  imports Engine Capture
begin

text \<open>
  The parameter sweep of \<open>tools/calibrate/src/main.rs\<close>: loading a captured tape, replaying it through
  the engine for every combination of parameters, comparing the bulk classification with the taker
  sides the exchange reported, and the significance test between configurations. A panic is \<open>None\<close>;
  the results show that there is none. Command line and output are in \<open>Calibrate_Cli\<close>.
\<close>

subsection \<open>The tape\<close>

record calib_trade =
  ct_price :: f64
  ct_volume :: f64
  ct_ts_ns :: u64
  ct_taker_side :: taker_side

text \<open>\<open>collect\<close> into a \<open>Result\<close>: the first error ends it.\<close>

fun collect_results :: "('e + 'a) list \<Rightarrow> 'e + 'a list" where
  "collect_results [] = Inr []"
| "collect_results (Inl e # rs) = Inl e"
| "collect_results (Inr x # rs) = result_bind (collect_results rs) (\<lambda>xs. Inr (x # xs))"

definition calib_trade_of :: "('p, 'q, 's) feedhandler \<Rightarrow> ('p, 'q, 's) normalized_trade \<Rightarrow> calib_trade" where
  "calib_trade_of fh t = \<lparr>ct_price = f64_div (f64_of_nat (unat (price_raw fh (nt_price t)))) (f64_of_nat 100000000),
     ct_volume = f64_div (f64_of_nat (unat (qty_raw fh (nt_qty t)))) (f64_of_nat 100000000),
     ct_ts_ns = nt_ts_exchange_ns t, ct_taker_side = nt_taker_side t\<rparr>"

datatype load_trades_error = Opening str capture_error | Reading_Tape str capture_error

text \<open>What the operating system says of the file: it cannot be opened, or its content, of which opening
  reads the header, and what the reads after the header return.\<close>

type_synonym capture_file = "capture_error + u8 list \<times> read_event list"

definition load_trades :: "('p, 'q, 's) feedhandler \<Rightarrow> str \<Rightarrow> capture_file \<Rightarrow> load_trades_error + calib_trade list" where
  "load_trades fh path file =
     (case result_bind file (\<lambda>(content, reads). result_bind (TradeReader_open content) (\<lambda>_. Inr reads)) of
        Inl e \<Rightarrow> Inl (Opening path e)
      | Inr reads \<Rightarrow> (case collect_results (map (map_sum id (calib_trade_of fh)) (read_all fh reads)) of
          Inl e \<Rightarrow> Inl (Reading_Tape path e) | Inr ts \<Rightarrow> Inr ts))"

subsection \<open>Statistics of one configuration\<close>

record bvc_stats =
  bv_accuracy :: f64
  bv_mean_abs_error :: f64
  bv_compared :: u64

record calib_stats =
  st_bucket_volume :: f64
  st_sigma_window :: usize
  st_vpin_window :: usize
  st_total_buckets :: u64
  st_non_warmup_readings :: u64
  st_vpin_mean :: f64
  st_vpin_min :: f64
  st_vpin_max :: f64
  st_vpin_stddev :: f64
  st_avg_bucket_interval_ms :: f64
  st_bvc_accuracy :: f64
  st_bvc_mean_abs_error :: f64
  st_bvc_compared :: u64
  st_bvc_accuracy_p_value :: f64

definition summarize :: "f64 list \<Rightarrow> f64 \<times> f64 \<times> f64 \<times> f64" where
  "summarize values =
     (if values = [] then (NaN, NaN, NaN, NaN)
      else let mean = f64_div (f64_sum values) (f64_of_nat (length values));
               mn = foldl f64_min f64_inf values;
               mx = foldl f64_max f64_neg_inf values;
               stddev = (if 1 < length values
                 then f64_sqrt (f64_div (f64_sum (map (\<lambda>v. f64_powi2 (f64_sub v mean)) values))
                        (f64_of_nat (length values - 1)))
                 else f64_zero)
           in (mean, mn, mx, stddev))"

definition mean_interval_ms :: "u64 list \<Rightarrow> f64" where
  "mean_interval_ms close_times_ns =
     (if length close_times_ns < 2 then NaN
      else let span_ns = saturating_sub_u64 (last close_times_ns) (hd close_times_ns)
           in f64_div (f64_div (f64_of_nat (unat span_ns)) (f64_of_nat (length close_times_ns - 1)))
                (f64_of_nat 1000000))"

text \<open>The replay loop of \<open>calibrate_one\<close>: the counter, the VPIN values and the closing times.\<close>

fun calibrate_loop :: "(f64 \<Rightarrow> f64) \<Rightarrow> vpin_engine \<Rightarrow> calib_trade list \<Rightarrow> u64 \<Rightarrow> f64 list \<Rightarrow> u64 list \<Rightarrow>
    (u64 \<times> f64 list \<times> u64 list) option" where
  "calibrate_loop erf e [] total_buckets vpins close_times = Some (total_buckets, vpins, close_times)"
| "calibrate_loop erf e (t # ts) total_buckets vpins close_times =
     (case push_trade erf e (ct_price t) (ct_volume t) (ct_ts_ns t) of
        None \<Rightarrow> None
      | Some (e', None) \<Rightarrow> calibrate_loop erf e' ts total_buckets vpins close_times
      | Some (e', Some reading) \<Rightarrow> calibrate_loop erf e' ts (total_buckets + 1)
          (case vr_vpin reading of None \<Rightarrow> vpins | Some v \<Rightarrow> vpins @ [v])
          (close_times @ [vr_ts_close_ns reading]))"

definition calibrate_one :: "(f64 \<Rightarrow> f64) \<Rightarrow> calib_trade list \<Rightarrow> f64 \<Rightarrow> usize \<Rightarrow> usize \<Rightarrow> usize option \<Rightarrow> bvc_stats \<Rightarrow>
    (vpin_error + calib_stats) option" where
  "calibrate_one erf trades bucket_volume sigma_window vpin_window cdf_window bvc =
     (case VpinEngine_new \<lparr>vc_bucket_volume = bucket_volume, vc_sigma_window = sigma_window,
             vc_vpin_window = vpin_window, vc_cdf_window = cdf_window, vc_confidence_interval = None\<rparr> of
        Inl e \<Rightarrow> Some (Inl e)
      | Inr engine \<Rightarrow>
          map_option (\<lambda>(total_buckets, vpins, close_times).
            case summarize vpins of (vpin_mean, vpin_min, vpin_max, vpin_stddev) \<Rightarrow>
              Inr \<lparr>st_bucket_volume = bucket_volume, st_sigma_window = sigma_window,
                   st_vpin_window = vpin_window, st_total_buckets = total_buckets,
                   st_non_warmup_readings = of_nat (length vpins),
                   st_vpin_mean = vpin_mean, st_vpin_min = vpin_min, st_vpin_max = vpin_max,
                   st_vpin_stddev = vpin_stddev,
                   st_avg_bucket_interval_ms = mean_interval_ms close_times,
                   st_bvc_accuracy = bv_accuracy bvc, st_bvc_mean_abs_error = bv_mean_abs_error bvc,
                   st_bvc_compared = bv_compared bvc, st_bvc_accuracy_p_value = NaN\<rparr>)
            (calibrate_loop erf engine trades 0 [] []))"

subsection \<open>Classification against the reported sides\<close>

record bvc_pass =
  bp_bucketer :: volume_bucketer
  bp_sigma :: rolling_sigma
  bp_buy_vol :: f64
  bp_sell_vol :: f64
  bp_correct :: u64
  bp_compared :: u64
  bp_abs_errors :: "f64 list"

definition bvc_on_closed :: "(f64 \<Rightarrow> f64) \<Rightarrow> closed_bucket \<Rightarrow> bvc_pass \<Rightarrow> bvc_pass" where
  "bvc_on_closed erf bucket st =
     (let st1 = (case RollingSigma_current (bp_sigma st) of None \<Rightarrow> st
          | Some sigma_before \<Rightarrow>
              (case classify erf (cb_delta_p bucket) sigma_before (cb_volume bucket) of None \<Rightarrow> st
               | Some (bvc_buy, _) \<Rightarrow>
                   (let bvc_frac = f64_div bvc_buy (cb_volume bucket);
                        true_frac = f64_div (bp_buy_vol st) (f64_add (bp_buy_vol st) (bp_sell_vol st))
                    in st\<lparr>bp_correct := (if f64_lt f64_half bvc_frac = f64_lt f64_half true_frac
                                         then bp_correct st + 1 else bp_correct st),
                          bp_abs_errors := bp_abs_errors st @ [f64_abs (f64_sub bvc_frac true_frac)],
                          bp_compared := bp_compared st + 1\<rparr>)))
      in st1\<lparr>bp_sigma := fst (RollingSigma_push (bp_sigma st1) (cb_delta_p bucket)),
             bp_buy_vol := f64_zero, bp_sell_vol := f64_zero\<rparr>)"

definition bvc_trade :: "(f64 \<Rightarrow> f64) \<Rightarrow> calib_trade \<Rightarrow> bvc_pass \<Rightarrow> bvc_pass" where
  "bvc_trade erf t st =
     (let st1 = (case ct_taker_side t of
            Buy \<Rightarrow> st\<lparr>bp_buy_vol := f64_add (bp_buy_vol st) (ct_volume t)\<rparr>
          | Sell \<Rightarrow> st\<lparr>bp_sell_vol := f64_add (bp_sell_vol st) (ct_volume t)\<rparr>)
      in case VolumeBucketer_push (bp_bucketer st1) (ct_price t) (ct_volume t) (ct_ts_ns t) of
           (b, None) \<Rightarrow> st1\<lparr>bp_bucketer := b\<rparr>
         | (b, Some bucket) \<Rightarrow> bvc_on_closed erf bucket (st1\<lparr>bp_bucketer := b\<rparr>))"

definition bvc_accuracy_stats :: "(f64 \<Rightarrow> f64) \<Rightarrow> calib_trade list \<Rightarrow> f64 \<Rightarrow> usize \<Rightarrow> vpin_error + bvc_stats" where
  "bvc_accuracy_stats erf trades bucket_volume sigma_window =
     result_bind (VolumeBucketer_new bucket_volume) (\<lambda>bucketer.
     result_bind (RollingSigma_new sigma_window) (\<lambda>sigma.
       let st = fold (bvc_trade erf) trades
            \<lparr>bp_bucketer = bucketer, bp_sigma = sigma, bp_buy_vol = f64_zero, bp_sell_vol = f64_zero,
             bp_correct = 0, bp_compared = 0, bp_abs_errors = []\<rparr>
       in Inr \<lparr>bv_accuracy = (if 0 < bp_compared st
                 then f64_div (f64_of_nat (unat (bp_correct st))) (f64_of_nat (unat (bp_compared st))) else NaN),
               bv_mean_abs_error = (if bp_abs_errors st = [] then NaN
                 else f64_div (f64_sum (bp_abs_errors st)) (f64_of_nat (length (bp_abs_errors st)))),
               bv_compared = bp_compared st\<rparr>))"

subsection \<open>The sweep\<close>

definition MIN_COMPARED :: u64 where "MIN_COMPARED = 30"

definition two_proportion_p_value :: "(f64 \<Rightarrow> f64) \<Rightarrow> f64 \<Rightarrow> u64 \<Rightarrow> f64 \<Rightarrow> u64 \<Rightarrow> f64" where
  "two_proportion_p_value erf p1 n1 p2 n2 =
     (if n1 < MIN_COMPARED \<or> n2 < MIN_COMPARED \<or> f64_is_nan p1 \<or> f64_is_nan p2 then NaN
      else let m1 = f64_of_nat (unat n1);
               m2 = f64_of_nat (unat n2);
               se = f64_sqrt (f64_add (f64_div (f64_mul p1 (f64_sub f64_one p1)) m1)
                                      (f64_div (f64_mul p2 (f64_sub f64_one p2)) m2))
           in if f64_eq se f64_zero then f64_one
              else let z = f64_div (f64_sub p1 p2) se
                   in f64_mul f64_two (f64_sub f64_one (standard_normal_cdf erf (f64_abs z))))"

record sweep_result =
  sw_bucket_volume :: f64
  sw_sigma_window :: usize
  sw_vpin_window :: usize
  sw_stats :: "vpin_error + calib_stats"

text \<open>The three nested loops; the comparison with the sides is made once per volume and sigma window.\<close>

definition sweep_pair :: "(f64 \<Rightarrow> f64) \<Rightarrow> calib_trade list \<Rightarrow> usize list \<Rightarrow> usize option \<Rightarrow> f64 \<Rightarrow> usize \<Rightarrow>
    sweep_result option list" where
  "sweep_pair erf trades vpin_windows cdf_window bucket_volume sigma_window =
     (let bvc = bvc_accuracy_stats erf trades bucket_volume sigma_window
      in map (\<lambda>vpin_window. map_option (\<lambda>stats. \<lparr>sw_bucket_volume = bucket_volume,
             sw_sigma_window = sigma_window, sw_vpin_window = vpin_window, sw_stats = stats\<rparr>)
           (case bvc of Inl e \<Rightarrow> Some (Inl e)
            | Inr b \<Rightarrow> calibrate_one erf trades bucket_volume sigma_window vpin_window cdf_window b))
         vpin_windows)"

definition sweep_rows :: "(f64 \<Rightarrow> f64) \<Rightarrow> calib_trade list \<Rightarrow> f64 list \<Rightarrow> usize list \<Rightarrow> usize list \<Rightarrow> usize option \<Rightarrow>
    sweep_result list option" where
  "sweep_rows erf trades bucket_volumes sigma_windows vpin_windows cdf_window =
     those (concat (map (\<lambda>bv. concat (map (sweep_pair erf trades vpin_windows cdf_window bv) sigma_windows))
       bucket_volumes))"

text \<open>\<open>max_by\<close> with \<open>total_cmp\<close> keeps the last of several maxima.\<close>

definition later_max :: "nat \<times> f64 \<Rightarrow> nat \<times> f64 \<Rightarrow> nat \<times> f64" where
  "later_max best x = (if f64_total_le (snd best) (snd x) then x else best)"

fun max_by_total_cmp :: "(nat \<times> f64) list \<Rightarrow> (nat \<times> f64) option" where
  "max_by_total_cmp [] = None"
| "max_by_total_cmp (x # xs) = Some (foldl later_max x xs)"

definition scored :: "nat \<times> sweep_result \<Rightarrow> (nat \<times> f64) option" where
  "scored ir = (case sw_stats (snd ir) of Inl e \<Rightarrow> None
     | Inr s \<Rightarrow> if f64_is_nan (st_bvc_accuracy s) then None else Some (fst ir, st_bvc_accuracy s))"

definition best_index :: "sweep_result list \<Rightarrow> nat option" where
  "best_index out = map_option fst (max_by_total_cmp (List.map_filter scored (enumerate 0 out)))"

definition fill_p_value :: "(f64 \<Rightarrow> f64) \<Rightarrow> nat \<Rightarrow> f64 \<Rightarrow> u64 \<Rightarrow> nat \<times> sweep_result \<Rightarrow> sweep_result" where
  "fill_p_value erf best_idx best_accuracy best_n ir =
     (if fst ir = best_idx then snd ir
      else case sw_stats (snd ir) of Inl e \<Rightarrow> snd ir
        | Inr s \<Rightarrow> (snd ir)\<lparr>sw_stats := Inr (s\<lparr>st_bvc_accuracy_p_value :=
            two_proportion_p_value erf (st_bvc_accuracy s) (st_bvc_compared s) best_accuracy best_n\<rparr>)\<rparr>)"

definition run_sweep :: "(f64 \<Rightarrow> f64) \<Rightarrow> calib_trade list \<Rightarrow> f64 list \<Rightarrow> usize list \<Rightarrow> usize list \<Rightarrow> usize option \<Rightarrow>
    sweep_result list option" where
  "run_sweep erf trades bucket_volumes sigma_windows vpin_windows cdf_window =
     (case sweep_rows erf trades bucket_volumes sigma_windows vpin_windows cdf_window of None \<Rightarrow> None
      | Some out \<Rightarrow>
          (case best_index out of None \<Rightarrow> Some out
           | Some best_idx \<Rightarrow>
               (case sw_stats (out ! best_idx) of Inl e \<Rightarrow> None
                | Inr s \<Rightarrow> Some (map (fill_p_value erf best_idx (st_bvc_accuracy s) (st_bvc_compared s))
                    (enumerate 0 out)))))"

subsection \<open>What the comparison pass computes\<close>

definition tape_in :: "calib_trade \<Rightarrow> trade_in" where
  "tape_in t = (ct_price t, ct_volume t, ct_ts_ns t)"

text \<open>The tape cut into the pieces the buckets close on, as in \<open>segments\<close> but with the sides kept, and
  the bucket of each piece.\<close>

fun pieces :: "f64 \<Rightarrow> calib_trade list \<Rightarrow> calib_trade list \<Rightarrow> calib_trade list list" where
  "pieces V cur [] = []"
| "pieces V cur (t # ts) = (if f64_lt (volume_of (map tape_in (cur @ [t]))) V then pieces V (cur @ [t]) ts
     else (cur @ [t]) # pieces V [] ts)"

fun piece_buckets :: "nat \<Rightarrow> f64 \<Rightarrow> calib_trade list list \<Rightarrow> (closed_bucket \<times> calib_trade list) list" where
  "piece_buckets i prev [] = []"
| "piece_buckets i prev (p # ps) =
     (bucket_of i prev (map tape_in p), p) # piece_buckets (Suc i) (ct_price (last p)) ps"

lemma pieces_segments:
  "map (map tape_in) (pieces V cur ts) = fst (segments V (map tape_in cur) (volume_of (map tape_in cur)) (map tape_in ts))"
proof (induction ts arbitrary: cur)
  case (Cons t ts)
  have "volume_of (map tape_in (cur @ [t])) = f64_add (volume_of (map tape_in cur)) (fst (snd (tape_in t)))" by simp
  then show ?case using Cons.IH [of "cur @ [t]"] Cons.IH [of "[]"] by (simp add: Let_def split_beta)
qed simp

definition side_volume :: "taker_side \<Rightarrow> calib_trade list \<Rightarrow> f64" where
  "side_volume s p = foldl f64_add f64_zero (map ct_volume (filter (\<lambda>t. ct_taker_side t = s) p))"

definition true_fraction :: "calib_trade list \<Rightarrow> f64" where
  "true_fraction p = f64_div (side_volume Buy p) (f64_add (side_volume Buy p) (side_volume Sell p))"

text \<open>The estimated and the true buy fraction of a bucket, when it can be classified with the sigma of
  the buckets before it.\<close>

definition comparison :: "(f64 \<Rightarrow> f64) \<Rightarrow> usize \<Rightarrow> closed_bucket list \<Rightarrow> closed_bucket \<Rightarrow> calib_trade list \<Rightarrow>
    (f64 \<times> f64) option" where
  "comparison erf w earlier c p = (case sigma_after w earlier of None \<Rightarrow> None
     | Some s \<Rightarrow> map_option (\<lambda>(b, _). (f64_div b (cb_volume c), true_fraction p))
         (classify erf (cb_delta_p c) s (cb_volume c)))"

fun comparisons :: "(f64 \<Rightarrow> f64) \<Rightarrow> usize \<Rightarrow> closed_bucket list \<Rightarrow> (closed_bucket \<times> calib_trade list) list \<Rightarrow>
    (f64 \<times> f64) list" where
  "comparisons erf w earlier [] = []"
| "comparisons erf w earlier ((c, p) # cps) = (case comparison erf w earlier c p of None \<Rightarrow> [] | Some x \<Rightarrow> [x]) @
     comparisons erf w (earlier @ [c]) cps"

definition agree :: "f64 \<times> f64 \<Rightarrow> bool" where
  "agree x \<longleftrightarrow> f64_lt f64_half (fst x) = f64_lt f64_half (snd x)"

definition gap :: "f64 \<times> f64 \<Rightarrow> f64" where
  "gap x = f64_abs (f64_sub (fst x) (snd x))"

lemma side_volume_snoc: "side_volume s (p @ [t]) =
    (if ct_taker_side t = s then f64_add (side_volume s p) (ct_volume t) else side_volume s p)"
  by (simp add: side_volume_def)

definition pass_tracks :: "f64 \<Rightarrow> usize \<Rightarrow> closed_bucket list \<Rightarrow> f64 \<Rightarrow> calib_trade list \<Rightarrow> bvc_pass \<Rightarrow> bool" where
  "pass_tracks V w earlier prev cur st \<longleftrightarrow>
     open_state V (length earlier) prev (map tape_in cur) (bp_bucketer st) \<and>
     bp_sigma st = feed RollingSigma_push \<lparr>rs_window = w, rs_buf = [], rs_current = None\<rparr> (map cb_delta_p earlier) \<and>
     bp_buy_vol st = side_volume Buy cur \<and> bp_sell_vol st = side_volume Sell cur"

text \<open>What the comparisons \<open>cs\<close> add to the counters.\<close>

definition counted :: "(f64 \<times> f64) list \<Rightarrow> bvc_pass \<Rightarrow> bvc_pass \<Rightarrow> bool" where
  "counted cs st st' \<longleftrightarrow> bp_correct st' = bp_correct st + of_nat (length (filter agree cs)) \<and>
     bp_compared st' = bp_compared st + of_nat (length cs) \<and>
     bp_abs_errors st' = bp_abs_errors st @ map gap cs"

lemma counted_refl: "counted [] st st"
  by (simp add: counted_def)

lemma counted_trans: "counted cs st st' \<Longrightarrow> counted ds st' st'' \<Longrightarrow> counted (cs @ ds) st st''"
  by (simp add: counted_def)

lemma sigma_after_feed:
  assumes "2 \<le> w"
  shows "RollingSigma_current (feed RollingSigma_push \<lparr>rs_window = w, rs_buf = [], rs_current = None\<rparr> (map cb_delta_p bs)) =
    sigma_after w bs"
proof (cases bs rule: rev_cases)
  case Nil
  then show ?thesis using assms by (simp add: RollingSigma_current_def sigma_after_def)
next
  case (snoc bs' c)
  have "RollingSigma_new w = Inr \<lparr>rs_window = w, rs_buf = [], rs_current = None\<rparr>"
    using assms by (simp add: RollingSigma_new_Inr)
  from RollingSigma_answer [OF this, of "map cb_delta_p bs'" "cb_delta_p c"]
  show ?thesis by (simp add: snoc sigma_after_def Let_def feed_snoc RollingSigma_push_parts(2))
qed

definition add_side :: "calib_trade \<Rightarrow> bvc_pass \<Rightarrow> bvc_pass" where
  "add_side t st = (case ct_taker_side t of
       Buy \<Rightarrow> st\<lparr>bp_buy_vol := f64_add (bp_buy_vol st) (ct_volume t)\<rparr>
     | Sell \<Rightarrow> st\<lparr>bp_sell_vol := f64_add (bp_sell_vol st) (ct_volume t)\<rparr>)"

lemma add_side_parts:
  "bp_bucketer (add_side t st) = bp_bucketer st" "bp_sigma (add_side t st) = bp_sigma st"
  "bp_correct (add_side t st) = bp_correct st" "bp_compared (add_side t st) = bp_compared st"
  "bp_abs_errors (add_side t st) = bp_abs_errors st"
  "bp_buy_vol st = side_volume Buy cur \<Longrightarrow> bp_buy_vol (add_side t st) = side_volume Buy (cur @ [t])"
  "bp_sell_vol st = side_volume Sell cur \<Longrightarrow> bp_sell_vol (add_side t st) = side_volume Sell (cur @ [t])"
  by (cases "ct_taker_side t"; simp add: add_side_def side_volume_snoc)+

lemma bvc_trade_add_side: "bvc_trade erf t st =
    (case VolumeBucketer_push (bp_bucketer st) (ct_price t) (ct_volume t) (ct_ts_ns t) of
       (b, None) \<Rightarrow> (add_side t st)\<lparr>bp_bucketer := b\<rparr>
     | (b, Some bucket) \<Rightarrow> bvc_on_closed erf bucket ((add_side t st)\<lparr>bp_bucketer := b\<rparr>))"
  unfolding bvc_trade_def Let_def add_side_def [symmetric] add_side_parts(1) ..

lemma bvc_trade_open:
  assumes "pass_tracks V w earlier prev cur st" "f64_lt (volume_of (map tape_in (cur @ [t]))) V"
  shows "pass_tracks V w earlier prev (cur @ [t]) (bvc_trade erf t st) \<and> counted [] st (bvc_trade erf t st)"
proof -
  obtain b where "VolumeBucketer_push (bp_bucketer st) (ct_price t) (ct_volume t) (ct_ts_ns t) = (b, None)"
    "open_state V (length earlier) prev (map tape_in (cur @ [t])) b"
    using push_open [of V _ prev "map tape_in cur" _ "ct_price t" "ct_volume t" "ct_ts_ns t"] assms
    by (auto simp: pass_tracks_def tape_in_def)
  then show ?thesis using assms(1) by (simp add: bvc_trade_add_side pass_tracks_def counted_def add_side_parts)
qed

lemma bvc_on_closed_counts:
  assumes "2 \<le> w" "bp_sigma st = feed RollingSigma_push \<lparr>rs_window = w, rs_buf = [], rs_current = None\<rparr> (map cb_delta_p earlier)"
    "bp_buy_vol st = side_volume Buy p" "bp_sell_vol st = side_volume Sell p"
  shows "counted (comparisons erf w earlier [(c, p)]) st (bvc_on_closed erf c st)"
  using sigma_after_feed [OF assms(1), of earlier]
  by (simp add: bvc_on_closed_def assms(2-4) counted_def comparison_def true_fraction_def agree_def gap_def
      split: option.splits)

lemma bvc_on_closed_parts:
  "bp_bucketer (bvc_on_closed erf c st) = bp_bucketer st"
  "bp_sigma (bvc_on_closed erf c st) = fst (RollingSigma_push (bp_sigma st) (cb_delta_p c))"
  "bp_buy_vol (bvc_on_closed erf c st) = f64_zero" "bp_sell_vol (bvc_on_closed erf c st) = f64_zero"
  by (simp_all add: bvc_on_closed_def Let_def split: option.splits)

lemma bvc_trade_close:
  fixes c :: closed_bucket
  assumes "pass_tracks V w earlier prev cur st" "\<not> f64_lt (volume_of (map tape_in (cur @ [t]))) V" "2 \<le> w"
  defines "c \<equiv> bucket_of (length earlier) prev (map tape_in (cur @ [t]))"
  shows "pass_tracks V w (earlier @ [c]) (ct_price t) [] (bvc_trade erf t st) \<and>
    counted (comparisons erf w earlier [(c, cur @ [t])]) st (bvc_trade erf t st)"
proof -
  obtain b where b: "VolumeBucketer_push (bp_bucketer st) (ct_price t) (ct_volume t) (ct_ts_ns t) = (b, Some c)"
    "open_state V (Suc (length earlier)) (ct_price t) [] b"
    using push_close [of V "length earlier" prev "map tape_in cur" "bp_bucketer st" "ct_price t" "ct_volume t" "ct_ts_ns t"]
      assms(1,2) by (auto simp: pass_tracks_def tape_in_def c_def)
  define st1 where "st1 = (add_side t st)\<lparr>bp_bucketer := b\<rparr>"
  have st1: "bp_bucketer st1 = b" "bp_sigma st1 = bp_sigma st" "bp_buy_vol st1 = side_volume Buy (cur @ [t])"
    "bp_sell_vol st1 = side_volume Sell (cur @ [t])" "counted [] st st1"
    using assms(1) by (simp_all add: st1_def add_side_parts pass_tracks_def counted_def)
  have "bvc_trade erf t st = bvc_on_closed erf c st1" by (simp add: bvc_trade_add_side b(1) st1_def)
  moreover have "counted (comparisons erf w earlier [(c, cur @ [t])]) st1 (bvc_on_closed erf c st1)"
    using assms(1,3) st1 by (intro bvc_on_closed_counts) (simp_all add: pass_tracks_def)
  moreover have "pass_tracks V w (earlier @ [c]) (ct_price t) [] (bvc_on_closed erf c st1)"
    using assms(1) b(2) st1 by (simp add: pass_tracks_def bvc_on_closed_parts feed_snoc side_volume_def)
  ultimately show ?thesis using counted_trans [OF st1(5)] by simp
qed

lemma bvc_pass_counts:
  assumes "2 \<le> w"
  shows "pass_tracks V w earlier prev cur st \<Longrightarrow>
    counted (comparisons erf w earlier (piece_buckets (length earlier) prev (pieces V cur ts))) st (fold (bvc_trade erf) ts st)"
proof (induction ts arbitrary: earlier prev cur st)
  case (Cons t ts)
  show ?case
  proof (cases "f64_lt (volume_of (map tape_in (cur @ [t]))) V")
    case True
    note k = bvc_trade_open [OF Cons.prems True, of erf]
    show ?thesis using counted_trans [OF conjunct2 [OF k] Cons.IH [OF conjunct1 [OF k]]] True by simp
  next
    case False
    note k = bvc_trade_close [OF Cons.prems False assms, of erf]
    show ?thesis using counted_trans [OF conjunct2 [OF k] Cons.IH [OF conjunct1 [OF k]]] False by simp
  qed
qed (simp add: counted_refl)

definition bvc_reference :: "(f64 \<Rightarrow> f64) \<Rightarrow> f64 \<Rightarrow> usize \<Rightarrow> calib_trade list \<Rightarrow> (f64 \<times> f64) list" where
  "bvc_reference erf V w trades = comparisons erf w []
     (piece_buckets 0 (case trades of [] \<Rightarrow> f64_zero | t # _ \<Rightarrow> ct_price t) (pieces V [] trades))"

lemma bvc_pass_new:
  assumes "VolumeBucketer_new V = Inr b" "RollingSigma_new w = Inr s" "bp_bucketer st = b" "bp_sigma st = s"
    "bp_buy_vol st = f64_zero" "bp_sell_vol st = f64_zero"
  shows "counted (bvc_reference erf V w trades) st (fold (bvc_trade erf) trades st)"
proof (cases trades)
  case Nil
  then show ?thesis by (simp add: bvc_reference_def counted_refl)
next
  case (Cons t ts)
  define st1 where "st1 = st\<lparr>bp_bucketer := b\<lparr>vb_prev_close := Some (ct_price t), vb_started := True\<rparr>\<rparr>"
  have "bvc_trade erf t st = bvc_trade erf t st1"
    using push_not_started [OF new_push_open(2) [OF assms(1)]]
    by (cases "ct_taker_side t") (simp_all add: bvc_trade_def st1_def assms(3) Let_def split: prod.splits option.splits)
  moreover have "pass_tracks V w [] (ct_price t) [] st1"
    using new_push_open(1) [OF assms(1), of "ct_price t"] assms(2,4-6)
    by (simp add: pass_tracks_def st1_def RollingSigma_new_Inr side_volume_def)
  then have "counted (comparisons erf w [] (piece_buckets 0 (ct_price t) (pieces V [] (t # ts)))) st1
      (fold (bvc_trade erf) (t # ts) st1)"
    using bvc_pass_counts [of w V "[]" "ct_price t" "[]" st1 erf "t # ts"] assms(2) by (simp add: RollingSigma_new_Inr)
  moreover have "counted [] st st1" by (simp add: counted_def st1_def)
  ultimately show ?thesis using counted_trans [of "[]" st st1] by (simp add: Cons bvc_reference_def)
qed

lemma length_comparisons: "length (comparisons erf w bs cps) \<le> length cps"
  by (induction erf w bs cps rule: comparisons.induct) (auto split: option.splits)

lemma length_piece_buckets [simp]: "length (piece_buckets i prev ps) = length ps"
  by (induction ps arbitrary: i prev) simp_all

lemma length_pieces: "length (pieces V cur ts) \<le> length ts"
proof (induction ts arbitrary: cur)
  case (Cons t ts)
  show ?case using Cons.IH [of "cur @ [t]"] Cons.IH [of "[]"] by simp
qed simp

lemma length_bvc_reference: "length (bvc_reference erf V w trades) \<le> length trades"
  unfolding bvc_reference_def
  using length_comparisons length_pieces [of V "[]" trades] by (metis length_piece_buckets order_trans)

lemma bvc_accuracy_stats_eq:
  fixes trades :: "calib_trade list"
  assumes "length trades < 2 ^ 64"
  shows "bvc_accuracy_stats erf trades V w =
    (if \<not> (f64_is_finite V \<and> f64_lt f64_zero V) then Inl (InvalidBucketVolume V)
     else if w < 2 then Inl (InvalidWindow w 2)
     else let cs = bvc_reference erf V w trades in
       Inr \<lparr>bv_accuracy = (if cs = [] then NaN else count_ratio (length (filter agree cs)) (length cs)),
            bv_mean_abs_error = (if cs = [] then NaN else sample_mean (map gap cs) (length cs)),
            bv_compared = of_nat (length cs)\<rparr>)"
proof (cases "VolumeBucketer_new V")
  case (Inl e)
  then show ?thesis by (auto simp: bvc_accuracy_stats_def VolumeBucketer_new_def split: if_splits)
next
  case b: (Inr b)
  show ?thesis
  proof (cases "RollingSigma_new w")
    case (Inl e)
    then show ?thesis using b by (auto simp: bvc_accuracy_stats_def RollingSigma_new_def VolumeBucketer_new_def split: if_splits)
  next
    case s: (Inr s)
    define cs where "cs = bvc_reference erf V w trades"
    define st where "st = fold (bvc_trade erf) trades \<lparr>bp_bucketer = b, bp_sigma = s, bp_buy_vol = f64_zero,
      bp_sell_vol = f64_zero, bp_correct = 0, bp_compared = 0, bp_abs_errors = []\<rparr>"
    have "counted cs \<lparr>bp_bucketer = b, bp_sigma = s, bp_buy_vol = f64_zero,
      bp_sell_vol = f64_zero, bp_correct = 0, bp_compared = 0, bp_abs_errors = []\<rparr> st"
      unfolding cs_def st_def using b s by (rule bvc_pass_new) simp_all
    then have st: "bp_correct st = of_nat (length (filter agree cs))" "bp_compared st = of_nat (length cs)"
      "bp_abs_errors st = map gap cs" by (simp_all add: counted_def)
    have n: "length cs < 2 ^ 64" using assms length_bvc_reference le_less_trans unfolding cs_def by blast
    moreover have "length (filter agree cs) < 2 ^ 64" using n length_filter_le le_less_trans by blast
    ultimately have u: "unat (of_nat (length cs) :: u64) = length cs"
      "unat (of_nat (length (filter agree cs)) :: u64) = length (filter agree cs)"
      by (simp_all add: unat_of_nat take_bit_nat_eq_self)
    have z: "0 < (of_nat (length cs) :: u64) \<longleftrightarrow> cs \<noteq> []"
      using u(1) by (simp add: word_less_nat_alt)
    have ok: "f64_is_finite V \<and> f64_lt f64_zero V" "\<not> w < 2"
      using b s by (auto simp: VolumeBucketer_new_def RollingSigma_new_def split: if_splits)
    have "bvc_accuracy_stats erf trades V w = Inr \<lparr>bv_accuracy = (if cs \<noteq> [] then count_ratio (length (filter agree cs)) (length cs) else NaN),
        bv_mean_abs_error = (if map gap cs = [] then NaN else f64_div (f64_sum (map gap cs)) (f64_of_nat (length cs))),
        bv_compared = of_nat (length cs)\<rparr>"
      unfolding bvc_accuracy_stats_def b s result_bind_simps Let_def st_def [symmetric] st z u count_ratio_def length_map ..
    then show ?thesis using ok by (simp add: cs_def [symmetric] sample_mean_def Let_def)
  qed
qed

subsection \<open>One run\<close>

lemma push_trade_no_ci:
  assumes "ve_ci e = None" shows "\<exists>e' out. push_trade erf e p v t = Some (e', out) \<and> ve_ci e' = None"
proof (cases "VolumeBucketer_push (ve_bucketer e) p v t")
  case (Pair b out)
  show ?thesis
  proof (cases out)
    case None
    then show ?thesis using assms by (simp add: push_trade_def Pair)
  next
    case (Some c)
    have n: "ve_ci (e\<lparr>ve_bucketer := b\<rparr>) = None" using assms by simp
    from on_bucket_closed_no_ci [OF n] obtain e' r where r: "on_bucket_closed erf (e\<lparr>ve_bucketer := b\<rparr>) c = Some (e', r)" by blast
    have "ve_ci (fst (update_vpin erf (e\<lparr>ve_bucketer := b\<rparr>) c s)) = None" for s
      using assms by (simp add: update_vpin_def Let_def split: option.splits)
    then have "ve_ci e' = None" using r
      by (auto simp: on_bucket_closed_def ci_step_def split_beta split: option.splits)
    then show ?thesis using r by (simp add: push_trade_def Pair Some)
  qed
qed

lemma engine_run_no_ci: "ve_ci e = None \<Longrightarrow> \<exists>e' rs. engine_run erf e ts = Some (e', rs)"
proof (induction ts arbitrary: e)
  case (Cons x ts)
  obtain p v t where x: "x = (p, v, t)" by (cases x)
  obtain e1 out where "push_trade erf e p v t = Some (e1, out)" "ve_ci e1 = None"
    using push_trade_no_ci [OF Cons.prems] by blast
  then show ?case using Cons.IH [of e1] by (auto simp: x)
qed simp

lemma calibrate_loop_run:
  "engine_run erf e (map tape_in ts) = Some (e', rs) \<Longrightarrow>
    calibrate_loop erf e ts n vs cs = Some (n + of_nat (length rs), vs @ List.map_filter vr_vpin rs, cs @ map vr_ts_close_ns rs)"
proof (induction ts arbitrary: e n vs cs rs)
  case (Cons t ts)
  obtain e1 out rs1 where s: "push_trade erf e (ct_price t) (ct_volume t) (ct_ts_ns t) = Some (e1, out)"
    "engine_run erf e1 (map tape_in ts) = Some (e', rs1)" "rs = (case out of None \<Rightarrow> rs1 | Some r \<Rightarrow> r # rs1)"
    using Cons.prems by (auto simp: tape_in_def [of t] split: option.splits)
  show ?case using Cons.IH [OF s(2)] s(1,3)
    by (cases out) (simp_all add: map_filter_simps add.assoc split: option.splits)
qed (simp add: map_filter_simps)

definition calib_config :: "f64 \<Rightarrow> usize \<Rightarrow> usize \<Rightarrow> usize option \<Rightarrow> vpin_engine_config" where
  "calib_config bv sw vw cdf = \<lparr>vc_bucket_volume = bv, vc_sigma_window = sw, vc_vpin_window = vw,
     vc_cdf_window = cdf, vc_confidence_interval = None\<rparr>"

lemma calibrate_one_cases:
  obtains (err) e where "VpinEngine_new (calib_config bv sw vw cdf) = Inl e" "calibrate_one erf trades bv sw vw cdf b = Some (Inl e)"
  | (ok) e' rs where "VpinEngine_new (calib_config bv sw vw cdf) = Inr (fresh_engine (calib_config bv sw vw cdf))"
      "engine_run erf (fresh_engine (calib_config bv sw vw cdf)) (map tape_in trades) = Some (e', rs)"
      "calibrate_one erf trades bv sw vw cdf b = Some (Inr (case summarize (List.map_filter vr_vpin rs) of (m, mn, mx, sd) \<Rightarrow>
        \<lparr>st_bucket_volume = bv, st_sigma_window = sw, st_vpin_window = vw, st_total_buckets = of_nat (length rs),
         st_non_warmup_readings = of_nat (length (List.map_filter vr_vpin rs)), st_vpin_mean = m, st_vpin_min = mn,
         st_vpin_max = mx, st_vpin_stddev = sd, st_avg_bucket_interval_ms = mean_interval_ms (map vr_ts_close_ns rs),
         st_bvc_accuracy = bv_accuracy b, st_bvc_mean_abs_error = bv_mean_abs_error b,
         st_bvc_compared = bv_compared b, st_bvc_accuracy_p_value = NaN\<rparr>))"
proof (cases "VpinEngine_new (calib_config bv sw vw cdf)")
  case (Inl e)
  then show ?thesis using err by (simp add: calibrate_one_def calib_config_def)
next
  case (Inr e)
  then have e: "e = fresh_engine (calib_config bv sw vw cdf)" by (simp add: VpinEngine_new_Inr)
  obtain e' rs where r: "engine_run erf e (map tape_in trades) = Some (e', rs)"
    using engine_run_no_ci [of e erf "map tape_in trades"] by (auto simp: e fresh_engine_def calib_config_def)
  show ?thesis using ok Inr r calibrate_loop_run [OF r, of 0 "[]" "[]"]
    by (simp add: calibrate_one_def calib_config_def e split_beta)
qed

subsection \<open>The sweep\<close>

text \<open>A row computed on its own, without sharing the comparison pass and without the p-value.\<close>

definition run_one :: "(f64 \<Rightarrow> f64) \<Rightarrow> calib_trade list \<Rightarrow> usize option \<Rightarrow> f64 \<Rightarrow> usize \<Rightarrow> usize \<Rightarrow>
    (vpin_error + calib_stats) option" where
  "run_one erf trades cdf bv sw vw = (case bvc_accuracy_stats erf trades bv sw of Inl e \<Rightarrow> Some (Inl e)
     | Inr b \<Rightarrow> calibrate_one erf trades bv sw vw cdf b)"

lemma run_one_Some: obtains r where "run_one erf trades cdf bv sw vw = Some r"
    "\<forall>s. r = Inr s \<longrightarrow> st_bvc_accuracy_p_value s = NaN"
proof (cases "bvc_accuracy_stats erf trades bv sw")
  case (Inl e)
  then show ?thesis using that by (simp add: run_one_def)
next
  case (Inr b)
  show ?thesis
    by (rule calibrate_one_cases [of bv sw vw cdf erf trades b]; rule that)
      (auto simp: run_one_def Inr split: prod.splits)
qed

definition row_of :: "(f64 \<Rightarrow> f64) \<Rightarrow> calib_trade list \<Rightarrow> usize option \<Rightarrow> f64 \<times> usize \<times> usize \<Rightarrow> sweep_result" where
  "row_of erf trades cdf k = (case k of (bv, sw, vw) \<Rightarrow> \<lparr>sw_bucket_volume = bv, sw_sigma_window = sw,
     sw_vpin_window = vw, sw_stats = the (run_one erf trades cdf bv sw vw)\<rparr>)"

abbreviation row_key :: "sweep_result \<Rightarrow> f64 \<times> usize \<times> usize" where
  "row_key r \<equiv> (sw_bucket_volume r, sw_sigma_window r, sw_vpin_window r)"

lemma sweep_pair_rows: "sweep_pair erf trades vws cdf bv sw =
    map (\<lambda>vw. Some (row_of erf trades cdf (bv, sw, vw))) vws"
proof -
  have "map_option (\<lambda>stats. \<lparr>sw_bucket_volume = bv, sw_sigma_window = sw, sw_vpin_window = vw, sw_stats = stats\<rparr>)
      (run_one erf trades cdf bv sw vw) = Some (row_of erf trades cdf (bv, sw, vw))" for vw
    by (rule run_one_Some [of erf trades cdf bv sw vw]) (simp add: row_of_def)
  then show ?thesis by (simp add: sweep_pair_def run_one_def Let_def)
qed

lemma those_Some: "those (map (\<lambda>x. Some (f x)) xs) = Some (map f xs)"
  by (induction xs) simp_all

lemma sweep_rows_eq: "sweep_rows erf trades bvs sws vws cdf =
    Some (map (row_of erf trades cdf) (List.product bvs (List.product sws vws)))"
proof -
  have "concat (map (\<lambda>bv. concat (map (sweep_pair erf trades vws cdf bv) sws)) bvs) =
      map (\<lambda>k. Some (row_of erf trades cdf k)) (List.product bvs (List.product sws vws))"
    by (simp add: sweep_pair_rows [abs_def] product_concat_map map_concat comp_def)
  then show ?thesis by (simp add: sweep_rows_def those_Some)
qed

text \<open>The maximum that \<open>max_by\<close> returns, and where it stands.\<close>

lemma later_max_cases:
  "f64_total_le (snd m) (snd a) \<Longrightarrow> later_max m a = a" "\<not> f64_total_le (snd m) (snd a) \<Longrightarrow> later_max m a = m"
  by (simp_all add: later_max_def)

lemma later_max_split:
  "\<exists>ys zs. x # xs = ys @ foldl later_max x xs # zs \<and>
    (\<forall>y \<in> set ys. f64_total_le (snd y) (snd (foldl later_max x xs))) \<and>
    (\<forall>z \<in> set zs. \<not> f64_total_le (snd (foldl later_max x xs)) (snd z))"
proof (induction xs rule: rev_induct)
  case (snoc a xs)
  let ?m = "foldl later_max x xs"
  obtain ys zs where i: "x # xs = ys @ ?m # zs" "\<forall>y \<in> set ys. f64_total_le (snd y) (snd ?m)"
    "\<forall>z \<in> set zs. \<not> f64_total_le (snd ?m) (snd z)" using snoc.IH by blast
  show ?case
  proof (cases "f64_total_le (snd ?m) (snd a)")
    case True
    then have "\<forall>y \<in> set (ys @ ?m # zs). f64_total_le (snd y) (snd a)"
      using i(2,3) unfolding f64_total_le_def by auto
    then have "\<forall>y \<in> set (x # xs). f64_total_le (snd y) (snd a)" unfolding i(1) .
    then show ?thesis using True
      by - (rule exI [of _ "x # xs"], rule exI [of _ "[]"], simp add: later_max_cases)
  next
    case False
    then show ?thesis using i
      by - (rule exI [of _ ys], rule exI [of _ "zs @ [a]"], simp add: later_max_cases)
  qed
qed (simp add: exI [of _ "[]"])

definition scores :: "sweep_result list \<Rightarrow> (nat \<times> f64) list" where
  "scores out = List.map_filter scored (enumerate 0 out)"

lemma scored_Some: "scored (i, r) = Some (j, a) \<longleftrightarrow>
    (\<exists>s. sw_stats r = Inr s \<and> \<not> f64_is_nan (st_bvc_accuracy s) \<and> j = i \<and> a = st_bvc_accuracy s)"
  by (auto simp: scored_def split: sum.splits if_splits)

lemma in_map_filter: "y \<in> set (List.map_filter f xs) \<longleftrightarrow> (\<exists>x \<in> set xs. f x = Some y)"
  by (induction xs) (auto simp: map_filter_simps split: option.splits)

lemma scores_mem: "(i, a) \<in> set (scores out) \<longleftrightarrow> i < length out \<and>
    (\<exists>s. sw_stats (out ! i) = Inr s \<and> \<not> f64_is_nan (st_bvc_accuracy s) \<and> a = st_bvc_accuracy s)"
  unfolding scores_def in_map_filter by (auto simp: in_set_enumerate_eq scored_Some Bex_def)

lemma scores_increasing: "sorted_wrt (\<lambda>x y. fst x < fst y) (scores out)"
proof -
  have "sorted_wrt (\<lambda>x y. fst x < fst y) (List.map_filter scored (enumerate n out))" for n
  proof (induction out arbitrary: n)
    case (Cons r out)
    have "\<forall>x \<in> set (List.map_filter scored (enumerate (Suc n) out)). n < fst x"
      by (auto simp: in_map_filter in_set_enumerate_eq scored_Some)
    then show ?case using Cons.IH [of "Suc n"] by (auto simp: map_filter_simps scored_Some split: option.splits)
  qed (simp add: map_filter_simps)
  then show ?thesis by (simp add: scores_def)
qed

text \<open>\<open>best b out\<close>: row \<open>b\<close> has the highest accuracy, and every later row a lower one.\<close>

definition best :: "nat \<Rightarrow> calib_stats \<Rightarrow> sweep_result list \<Rightarrow> bool" where
  "best b s out \<longleftrightarrow> b < length out \<and> sw_stats (out ! b) = Inr s \<and> \<not> f64_is_nan (st_bvc_accuracy s) \<and>
     (\<forall>i < length out. \<forall>s'. sw_stats (out ! i) = Inr s' \<longrightarrow> \<not> f64_is_nan (st_bvc_accuracy s') \<longrightarrow>
        f64_total_le (st_bvc_accuracy s') (st_bvc_accuracy s) \<and>
        (b < i \<longrightarrow> \<not> f64_total_le (st_bvc_accuracy s) (st_bvc_accuracy s')))"

lemma best_index_None: "best_index out = None \<longleftrightarrow> scores out = []"
  unfolding best_index_def scores_def [symmetric] by (cases "scores out") simp_all

lemma best_index_Some:
  assumes "best_index out = Some b" shows "\<exists>s. best b s out"
proof -
  obtain x xs where x: "scores out = x # xs" using assms best_index_None [of out] by (cases "scores out") auto
  define m where "m = foldl later_max x xs"
  have b: "b = fst m" using assms by (simp add: best_index_def scores_def [symmetric] x m_def)
  obtain ys zs where sp: "scores out = ys @ m # zs" "\<forall>y \<in> set ys. f64_total_le (snd y) (snd m)"
    "\<forall>z \<in> set zs. \<not> f64_total_le (snd m) (snd z)" using later_max_split [of x xs] x unfolding m_def by metis
  have "(b, snd m) \<in> set (scores out)" by (simp add: b sp(1))
  then obtain s where s: "b < length out" "sw_stats (out ! b) = Inr s" "\<not> f64_is_nan (st_bvc_accuracy s)"
    "snd m = st_bvc_accuracy s" by (auto simp: scores_mem)
  have before: "\<forall>y \<in> set ys. fst y < b" using scores_increasing [of out] by (simp add: sp(1) sorted_wrt_append b)
  have "f64_total_le a (snd m) \<and> (b < i \<longrightarrow> \<not> f64_total_le (snd m) a)" if "(i, a) \<in> set (scores out)" for i a
    using that sp(2,3) before by (auto simp: sp(1) b f64_total_le_def)
  then show ?thesis using s unfolding best_def by (metis scores_mem)
qed

lemma fill_p_value_parts:
  "row_key (fill_p_value erf b acc n (i, r)) = row_key r"
  "sw_stats (fill_p_value erf b acc n (i, r)) = (if i = b then sw_stats r else map_sum id (\<lambda>s.
     s\<lparr>st_bvc_accuracy_p_value := two_proportion_p_value erf (st_bvc_accuracy s) (st_bvc_compared s) acc n\<rparr>) (sw_stats r))"
  by (auto simp: fill_p_value_def split: sum.splits)

lemma run_sweep_cases:
  fixes erf trades cdf bvs sws vws
  defines "out \<equiv> map (row_of erf trades cdf) (List.product bvs (List.product sws vws))"
  obtains (unscored) "run_sweep erf trades bvs sws vws cdf = Some out" "scores out = []"
  | (scored) b s where "best b s out"
      "run_sweep erf trades bvs sws vws cdf =
        Some (map (fill_p_value erf b (st_bvc_accuracy s) (st_bvc_compared s)) (enumerate 0 out))"
proof -
  have r: "sweep_rows erf trades bvs sws vws cdf = Some out" by (simp add: sweep_rows_eq out_def)
  show ?thesis
  proof (cases "best_index out")
    case None
    then show ?thesis using unscored best_index_None [of out] by (simp add: run_sweep_def r)
  next
    case (Some b)
    then obtain s where s: "best b s out" using best_index_Some by blast
    then show ?thesis using scored [OF s] Some by (simp add: run_sweep_def r best_def)
  qed
qed

text \<open>How the p-values of a finished sweep hang together: either no row has an accuracy and no p-value
  is given, or the row with the highest accuracy (the last of several) has none and every other row is
  tested against it.\<close>

definition p_values_ok :: "(f64 \<Rightarrow> f64) \<Rightarrow> sweep_result list \<Rightarrow> bool" where
  "p_values_ok erf rows \<longleftrightarrow>
     (\<forall>r \<in> set rows. \<forall>s. sw_stats r = Inr s \<longrightarrow> f64_is_nan (st_bvc_accuracy s) \<and> st_bvc_accuracy_p_value s = NaN) \<or>
     (\<exists>b s. best b s rows \<and> st_bvc_accuracy_p_value s = NaN \<and>
        (\<forall>i < length rows. \<forall>s'. i \<noteq> b \<longrightarrow> sw_stats (rows ! i) = Inr s' \<longrightarrow> st_bvc_accuracy_p_value s' =
           two_proportion_p_value erf (st_bvc_accuracy s') (st_bvc_compared s') (st_bvc_accuracy s) (st_bvc_compared s)))"

definition without_p :: "vpin_error + calib_stats \<Rightarrow> vpin_error + calib_stats" where
  "without_p r = map_sum id (\<lambda>s. s\<lparr>st_bvc_accuracy_p_value := NaN\<rparr>) r"

lemma row_of_key: "sw_bucket_volume (row_of erf trades cdf (bv, sw, vw)) = bv"
  "sw_sigma_window (row_of erf trades cdf (bv, sw, vw)) = sw" "sw_vpin_window (row_of erf trades cdf (bv, sw, vw)) = vw"
  by (simp_all add: row_of_def)

lemma row_of_stats:
  "run_one erf trades cdf bv sw vw = Some (sw_stats (row_of erf trades cdf (bv, sw, vw)))"
  "sw_stats (row_of erf trades cdf k) = Inr s \<Longrightarrow> st_bvc_accuracy_p_value s = NaN"
  by (rule run_one_Some [of erf trades cdf bv sw vw], simp add: row_of_def)
    (cases k, rule run_one_Some [of erf trades cdf "fst k" "fst (snd k)" "snd (snd k)"], simp add: row_of_def)

lemma without_p_row: "without_p (sw_stats (row_of erf trades cdf k)) = sw_stats (row_of erf trades cdf k)"
  using row_of_stats(2) [of erf trades cdf k]
  by (cases "sw_stats (row_of erf trades cdf k)") (auto simp: without_p_def)

lemma p_values_okI:
  assumes "best b s rows" "st_bvc_accuracy_p_value s = NaN"
    "\<And>i s'. i < length rows \<Longrightarrow> i \<noteq> b \<Longrightarrow> sw_stats (rows ! i) = Inr s' \<Longrightarrow> st_bvc_accuracy_p_value s' =
       two_proportion_p_value erf (st_bvc_accuracy s') (st_bvc_compared s') (st_bvc_accuracy s) (st_bvc_compared s)"
  shows "p_values_ok erf rows"
  unfolding p_values_ok_def using assms by (intro disjI2 exI [of _ b] exI [of _ s]) simp

text \<open>Filling in the p-values changes nothing else.\<close>

lemma filled_rows:
  fixes erf b s out
  assumes b: "best b s out" and p: "st_bvc_accuracy_p_value s = NaN"
  defines "rows \<equiv> map (fill_p_value erf b (st_bvc_accuracy s) (st_bvc_compared s)) (enumerate 0 out)"
  shows "map (\<lambda>r. (row_key r, Some (without_p (sw_stats r)))) rows = map (\<lambda>r. (row_key r, Some (without_p (sw_stats r)))) out"
    and "p_values_ok erf rows"
proof -
  have n: "length rows = length out" by (simp add: rows_def)
  have i: "row_key (rows ! i) = row_key (out ! i)" "sw_stats (rows ! i) = (if i = b then sw_stats (out ! i)
      else map_sum id (\<lambda>s'. s'\<lparr>st_bvc_accuracy_p_value := two_proportion_p_value erf (st_bvc_accuracy s')
        (st_bvc_compared s') (st_bvc_accuracy s) (st_bvc_compared s)\<rparr>) (sw_stats (out ! i)))"
    if "i < length out" for i
    using that fill_p_value_parts [of erf b "st_bvc_accuracy s" "st_bvc_compared s" i "out ! i"]
    by (simp_all add: rows_def nth_enumerate_eq del: fill_p_value_parts)
  have "without_p (sw_stats (rows ! i)) = without_p (sw_stats (out ! i))" if "i < length out" for i
    using i(2) [OF that] by (cases "i = b"; cases "sw_stats (out ! i)") (simp_all add: without_p_def)
  then show "map (\<lambda>r. (row_key r, Some (without_p (sw_stats r)))) rows = map (\<lambda>r. (row_key r, Some (without_p (sw_stats r)))) out"
    using n i(1) by (intro nth_equalityI) simp_all
  have acc: "\<exists>s''. sw_stats (out ! i) = Inr s'' \<and> st_bvc_accuracy s' = st_bvc_accuracy s'' \<and>
      st_bvc_compared s' = st_bvc_compared s'' \<and> (i \<noteq> b \<longrightarrow> st_bvc_accuracy_p_value s' =
        two_proportion_p_value erf (st_bvc_accuracy s') (st_bvc_compared s') (st_bvc_accuracy s) (st_bvc_compared s))"
    if "i < length out" "sw_stats (rows ! i) = Inr s'" for i s'
    using i(2) [OF that(1)] that(2) by (cases "sw_stats (out ! i)") (auto split: if_splits)
  note bd = b [unfolded best_def]
  have bs: "sw_stats (rows ! b) = Inr s" using i(2) [of b] bd by simp
  have "f64_total_le (st_bvc_accuracy s') (st_bvc_accuracy s) \<and>
      (b < i \<longrightarrow> \<not> f64_total_le (st_bvc_accuracy s) (st_bvc_accuracy s'))"
    if "i < length out" "sw_stats (rows ! i) = Inr s'" "\<not> f64_is_nan (st_bvc_accuracy s')" for i s'
    using acc [OF that(1,2)] bd that(1,3) by auto
  then have "best b s rows" using bd bs unfolding best_def n by blast
  then show "p_values_ok erf rows" using p acc n by (intro p_values_okI) auto
qed


end
