(* ===== verification/Calibrate_Stats.thy ===== *)
theory Calibrate_Stats
  imports Calibrate
begin

text \<open>
  What the numbers of a sweep mean: the comparison with the reported sides against its reference, the
  bounds of every statistic, and the two-proportion test of \<open>tools/calibrate/src/main.rs\<close>.
\<close>

subsection \<open>Means, minima and maxima of numbers in \<open>[0, 1]\<close>\<close>

lemma f64_of_nat_Suc:
  assumes "Suc k \<le> 2 ^ 53" shows "f64_add (f64_of_nat k) f64_one = f64_of_nat (Suc k)"
proof -
  obtain m where m: "m < inf_mag" "f64_of_nat (Suc k) = Num False m" "munits m = Suc k * 2 ^ 1074"
    using f64_of_nat_exact [OF assms] by auto
  obtain j where j: "j < inf_mag" "f64_of_nat k = Num False j" using f64_of_nat_exact [of k] assms by auto
  have "uval (f64_of_nat k) + uval f64_one = int (munits m)"
    using uval_f64_of_nat [of k] uval_f64_of_nat [of 1] assms by (simp add: m(3) f64_of_nat_1 distrib_right)
  then have "real_of_int (uval (f64_of_nat k) + uval f64_one) = real (munits m)" by (simp only: of_int_of_nat_eq)
  moreover have "rounded (real_of_int (uval (f64_of_nat k) + uval f64_one)) (f64_add (f64_of_nat k) f64_one)"
    using j uval_one(2) by (intro f64_add_rounded) simp_all
  ultimately show ?thesis using m by (simp add: rounded_exact)
qed

lemma foldl_add_unit:
  "\<forall>x \<in> set xs. in_unit x \<Longrightarrow> f64_le f64_zero a \<Longrightarrow> f64_le a (f64_of_nat k) \<Longrightarrow> k + length xs \<le> 2 ^ 53 \<Longrightarrow>
    f64_le f64_zero (foldl f64_add a xs) \<and> f64_le (foldl f64_add a xs) (f64_of_nat (k + length xs))"
proof (induction xs arbitrary: a k)
  case (Cons x xs)
  have x: "f64_le f64_zero x" "f64_le x f64_one" using Cons.prems(1) by (simp_all add: in_unit_def)
  have "f64_le (f64_add a x) (f64_of_nat (Suc k))"
    using f64_add_mono [OF Cons.prems(2,3) x] f64_of_nat_Suc [of k] Cons.prems(4) by simp
  then show ?case using Cons.IH [of "f64_add a x" "Suc k"] f64_add_nonneg [OF Cons.prems(2) x(1)] Cons.prems(1,4) by simp
qed simp

lemma mean_unit:
  assumes "\<forall>x \<in> set xs. in_unit x" "xs \<noteq> []" "length xs \<le> 2 ^ 53"
  shows "in_unit (f64_div (f64_sum xs) (f64_of_nat (length xs)))"
proof -
  have z: "f64_le f64_zero f64_neg_zero" "f64_le f64_neg_zero (f64_of_nat 0)"
    by (simp_all add: f64_le_def f64_of_nat_def rnd_mag_def rnd_index_def)
  have s: "f64_le f64_zero (f64_sum xs)" "f64_le (f64_sum xs) (f64_of_nat (length xs))"
    using foldl_add_unit [OF assms(1) z] assms(3) by (simp_all add: f64_sum_def)
  have n: "length xs < 2 ^ 64" using assms(3) by (rule le_less_trans) simp
  have "0 < length xs" using assms(2) by simp
  from f64_div_unit [OF f64_of_nat_finite [OF n] f64_of_nat_pos [OF this] s]
  show ?thesis unfolding in_unit_def by blast
qed

lemma min_max_unit:
  assumes "in_unit x"
  shows "in_unit a \<or> a = f64_inf \<Longrightarrow> in_unit (f64_min a x) \<and> f64_le (f64_min a x) x"
    "in_unit a \<or> a = f64_neg_inf \<Longrightarrow> in_unit (f64_max a x) \<and> f64_le x (f64_max a x)"
proof -
  have x: "f64_is_finite x" "\<not> f64_is_nan x" "in_unit x" using assms in_unit_finite by auto
  have i: "f64_lt x f64_inf" "f64_lt f64_neg_inf x"
    using x(1) by (cases x; simp add: f64_lt_def f64_inf_def f64_neg_inf_def)+
  show "in_unit (f64_min a x) \<and> f64_le (f64_min a x) x" if "in_unit a \<or> a = f64_inf"
    using that x i in_unit_finite [of a] f64_not_lt [of x a] by (auto simp: f64_min_def f64_inf_def)
  show "in_unit (f64_max a x) \<and> f64_le x (f64_max a x)" if "in_unit a \<or> a = f64_neg_inf"
    using that x i in_unit_finite [of a] f64_not_lt [of a x] by (auto simp: f64_max_def f64_neg_inf_def)
qed

lemma min_max_step:
  assumes "in_unit a" "in_unit x" shows "f64_le (f64_min a x) a" "f64_le a (f64_max a x)"
  using assms in_unit_finite [of a] in_unit_finite [of x] f64_lt_le by (auto simp: f64_min_def f64_max_def)

lemma foldl_min_unit:
  "\<forall>x \<in> set xs. in_unit x \<Longrightarrow> in_unit a \<Longrightarrow> in_unit (foldl f64_min a xs) \<and> f64_le (foldl f64_min a xs) a"
proof (induction xs arbitrary: a)
  case (Cons x xs)
  then show ?case using Cons.IH [of "f64_min a x"] min_max_unit(1) [of x a] min_max_step(1) [of a x] f64_le_trans by auto
qed (simp add: in_unit_finite)

lemma foldl_max_unit:
  "\<forall>x \<in> set xs. in_unit x \<Longrightarrow> in_unit a \<Longrightarrow> in_unit (foldl f64_max a xs) \<and> f64_le a (foldl f64_max a xs)"
proof (induction xs arbitrary: a)
  case (Cons x xs)
  then show ?case using Cons.IH [of "f64_max a x"] min_max_unit(2) [of x a] min_max_step(2) [of a x] f64_le_trans by auto
qed (simp add: in_unit_finite)

lemma summarize_unit:
  assumes "\<forall>x \<in> set vs. in_unit x" "length vs \<le> 2 ^ 53" "summarize vs = (m, mn, mx, sd)"
  shows "vs = [] \<longleftrightarrow> m = NaN" "vs = [] \<Longrightarrow> mn = NaN \<and> mx = NaN"
    "vs \<noteq> [] \<Longrightarrow> in_unit m \<and> in_unit mn \<and> in_unit mx \<and> f64_le mn mx"
proof -
  show 3: "in_unit m \<and> in_unit mn \<and> in_unit mx \<and> f64_le mn mx" if vs: "vs \<noteq> []"
  proof -
    obtain x xs where x: "vs = x # xs" using vs by (cases vs) auto
    have u: "in_unit x" "\<forall>y \<in> set xs. in_unit y" using assms(1) x by simp_all
    have a: "in_unit (f64_min f64_inf x) \<and> f64_le (f64_min f64_inf x) x"
      "in_unit (f64_max f64_neg_inf x) \<and> f64_le x (f64_max f64_neg_inf x)" using min_max_unit [OF u(1)] by blast+
    have "mn = foldl f64_min (f64_min f64_inf x) xs" "mx = foldl f64_max (f64_max f64_neg_inf x) xs"
      "m = f64_div (f64_sum vs) (f64_of_nat (length vs))" using assms(3) x by (simp_all add: summarize_def Let_def)
    then show ?thesis using foldl_min_unit [OF u(2)] foldl_max_unit [OF u(2)] a mean_unit [OF assms(1) vs assms(2)] f64_le_trans by meson
  qed
  then show "vs = [] \<longleftrightarrow> m = NaN" using assms(3) by (cases "vs = []") (auto simp: summarize_def in_unit_def f64_le_def)
  show "vs = [] \<Longrightarrow> mn = NaN \<and> mx = NaN" using assms(3) by (simp add: summarize_def)
qed

subsection \<open>The comparison with the reported sides\<close>

text \<open>C16: the comparison pass is its reference: cut the tape into the pieces the buckets close on; for
  each bucket that can be classified with the sigma of the buckets strictly before it, compare the
  estimated buy fraction with the share of the piece's own volume whose taker bought. The accuracy is the
  share of buckets where both are above one half or neither is, the error the mean distance, both NaN
  exactly when there was nothing to compare; invalid parameters give the engine's errors, the bucket
  volume checked first.\<close>

theorem bvc_stats_spec:
  assumes "length trades < 2 ^ 64"
  shows "bvc_accuracy_stats erf trades V w =
    (if \<not> (f64_is_finite V \<and> f64_lt f64_zero V) then Inl (InvalidBucketVolume V)
     else if w < 2 then Inl (InvalidWindow w 2)
     else let cs = bvc_reference erf V w trades in
       Inr \<lparr>bv_accuracy = (if cs = [] then NaN else count_ratio (length (filter agree cs)) (length cs)),
            bv_mean_abs_error = (if cs = [] then NaN else sample_mean (map gap cs) (length cs)),
            bv_compared = of_nat (length cs)\<rparr>)"
  using assms by (rule bvc_accuracy_stats_eq)

abbreviation piece_volume :: "calib_trade list \<Rightarrow> f64" where
  "piece_volume p \<equiv> volume_of (map tape_in p)"

definition small_tape :: "calib_trade list \<Rightarrow> bool" where
  "small_tape ts \<longleftrightarrow> (\<forall>t \<in> set ts. small (ct_volume t))"

lemma piece_volume_snoc: "piece_volume (p @ [t]) = f64_add (piece_volume p) (ct_volume t)"
  by (simp add: tape_in_def)

lemma pieces_volume:
  assumes "f64_lt f64_zero V" "small V"
  shows "small_tape ts \<Longrightarrow> small (piece_volume cur) \<Longrightarrow> small_tape cur \<Longrightarrow>
    \<forall>p \<in> set (pieces V cur ts). f64_lt f64_zero (piece_volume p) \<and> capped 2 (piece_volume p) \<and> small_tape p"
proof (induction ts arbitrary: cur)
  case (Cons t ts)
  have t: "small (ct_volume t)" "small_tape ts" "small_tape (cur @ [t])"
    using Cons.prems by (simp_all add: small_tape_def)
  have "capped (1 + 1) (piece_volume (cur @ [t]))"
    unfolding piece_volume_snoc using Cons.prems(2) t(1) by (rule capped_add) simp
  then have v: "capped 2 (piece_volume (cur @ [t]))" by (simp only: one_add_one)
  show ?case
  proof (cases "f64_lt (piece_volume (cur @ [t])) V")
    case True
    have "small (piece_volume (cur @ [t]))"
      using capped_le [OF assms(2) capped_parts(2) [OF v] f64_lt_le [OF True]] .
    then show ?thesis using Cons.IH [OF t(2) _ t(3)] True by simp
  next
    case False
    then have "f64_le V (piece_volume (cur @ [t]))"
      using f64_not_lt [OF finite_not_nan finite_not_nan, OF capped_parts(1) [OF v] capped_parts(1) [OF assms(2)]] by simp
    with assms(1) have "f64_lt f64_zero (piece_volume (cur @ [t]))" by (rule f64_lt_le_trans)
    moreover have "\<forall>p \<in> set (pieces V [] ts). f64_lt f64_zero (piece_volume p) \<and> capped 2 (piece_volume p) \<and> small_tape p"
      by (rule Cons.IH [OF t(2)]) (simp_all add: small_tape_def)
    moreover have "set (pieces V cur (t # ts)) = insert (cur @ [t]) (set (pieces V [] ts))" using False by simp
    ultimately show ?thesis using v t(3) by (simp only: ball_simps simp_thms)
  qed
qed simp

lemma side_volume_bounds:
  assumes "small_tape p"
  shows "f64_le f64_zero (side_volume s p) \<and> f64_le (side_volume s p) (piece_volume p)"
  using assms
proof (induction p rule: rev_induct)
  case (snoc t p)
  then have v: "f64_le f64_zero (ct_volume t)" "\<not> f64_is_nan (ct_volume t)" "small_tape p"
    using capped_parts f64_le_nan by (auto simp: small_tape_def)
  have i: "f64_le f64_zero (side_volume s p)" "f64_le (side_volume s p) (piece_volume p)"
    using snoc.IH [OF v(3)] by blast+
  then have "f64_le f64_zero (piece_volume p)" by (rule f64_le_trans)
  note l = f64_le_add_left [OF this v(1)]
  show ?case
  proof (cases "ct_taker_side t = s")
    case True
    then show ?thesis unfolding side_volume_snoc piece_volume_snoc
      using f64_add_nonneg [OF i(1) v(1)] f64_add_mono [OF i v(1) f64_le_refl [OF v(2)]] by simp
  next
    case False
    then show ?thesis unfolding side_volume_snoc piece_volume_snoc using i(1) f64_le_trans [OF i(2) l] by simp
  qed
qed (simp add: side_volume_def)

lemma some_side_positive:
  assumes "small_tape p" "f64_lt f64_zero (piece_volume p)"
  shows "f64_lt f64_zero (f64_add (side_volume Buy p) (side_volume Sell p))"
proof -
  have "\<exists>s. f64_lt f64_zero (side_volume s p)"
    using assms
  proof (induction p rule: rev_induct)
    case (snoc t p)
    then have v: "f64_le f64_zero (ct_volume t)" "\<not> f64_is_nan (ct_volume t)" "small_tape p"
      using capped_parts f64_le_nan by (auto simp: small_tape_def)
    note b = side_volume_bounds [OF v(3)]
    show ?case
    proof (cases "f64_lt f64_zero (ct_volume t)")
      case True
      have "f64_le (ct_volume t) (side_volume (ct_taker_side t) (p @ [t]))"
        using f64_le_add_right [of "side_volume (ct_taker_side t) p" "ct_volume t"] b v(1) by (simp add: side_volume_snoc)
      then show ?thesis using f64_lt_le_trans [OF True] by blast
    next
      case False
      then have z: "f64_le (ct_volume t) f64_zero" using f64_not_lt [of f64_zero "ct_volume t"] v(2) by simp
      have "f64_lt f64_zero (piece_volume p)"
      proof (rule ccontr)
        have n: "\<not> f64_is_nan (piece_volume p)" "f64_le f64_zero (piece_volume p)"
          using b [of Buy] f64_le_nan f64_le_trans by blast+
        assume "\<not> f64_lt f64_zero (piece_volume p)"
        then have "f64_le (piece_volume p) f64_zero" using f64_not_lt n(1) by simp
        from f64_add_mono [OF n(2) this v(1) z] have "f64_le (piece_volume (p @ [t])) f64_zero"
          unfolding piece_volume_snoc by simp
        then show False using snoc.prems(2) by (auto simp: f64_le_def f64_lt_def)
      qed
      then obtain s where s: "f64_lt f64_zero (side_volume s p)" using snoc.IH v(3) by blast
      have "f64_le (side_volume s p) (side_volume s (p @ [t]))"
        using f64_le_add_left [of "side_volume s p" "ct_volume t"] b [of s] v(1) f64_le_nan by (auto simp: side_volume_snoc)
      then show ?thesis using f64_lt_le_trans [OF s] by blast
    qed
  qed (simp add: f64_lt_def)
  then obtain s where s: "f64_lt f64_zero (side_volume s p)" by blast
  have "f64_le (side_volume s p) (f64_add (side_volume Buy p) (side_volume Sell p))"
    using side_volume_bounds [OF assms(1)] f64_le_add_left f64_le_add_right by (cases s) blast+
  then show ?thesis using f64_lt_le_trans [OF s] by blast
qed

lemma true_fraction_unit:
  assumes "small_tape p" "f64_lt f64_zero (piece_volume p)" "capped 2 (piece_volume p)"
  shows "in_unit (true_fraction p)"
proof -
  note b = side_volume_bounds [OF assms(1)]
  have c: "capped 2 (side_volume s p)" for s using capped_le [OF assms(3)] b by blast
  have "capped (2 + 2) (f64_add (side_volume Buy p) (side_volume Sell p))" using c c by (rule capped_add) simp
  note f = capped_parts(1) [OF this]
  show ?thesis unfolding true_fraction_def in_unit_def
    using f64_div_unit [OF f some_side_positive [OF assms(1,2)]] b [of Buy] b [of Sell] f64_le_add_left by blast
qed

lemma comparison_unit:
  assumes "erf_range erf" "small_tape p" "f64_lt f64_zero (piece_volume p)" "capped 2 (piece_volume p)"
    "cb_volume c = piece_volume p" "comparison erf w earlier c p = Some x"
  shows "in_unit (gap x)"
proof -
  obtain s b d where c: "classify erf (cb_delta_p c) s (piece_volume p) = Some (b, d)"
    "x = (f64_div b (piece_volume p), true_fraction p)"
    using assms(6) by (auto simp: comparison_def assms(5) split: option.splits)
  obtain q where q: "buy_fraction erf (cb_delta_p c) s = Some q" "b = f64_mul (piece_volume p) q"
    using c(1) unfolding classify_Some by blast
  note v = capped_parts [OF assms(4)]
  have b: "f64_le f64_zero b" "f64_le b (piece_volume p)"
    using f64_mul_unit [OF v buy_fraction_unit [OF assms(1) q(1)]] by (simp_all add: q(2))
  have u: "f64_le f64_zero (fst x)" "f64_le (fst x) f64_one" "f64_le f64_zero (snd x)" "f64_le (snd x) f64_one"
    using f64_div_unit [OF v(1) assms(3) b] true_fraction_unit [OF assms(2-4)] by (simp_all add: c(2) in_unit_def)
  show ?thesis unfolding gap_def in_unit_def using f64_abs_sub_le [OF uval_one(2) u] by blast
qed

lemma comparisons_unit:
  "erf_range erf \<Longrightarrow> \<forall>(c, p) \<in> set cps. small_tape p \<and> f64_lt f64_zero (piece_volume p) \<and> capped 2 (piece_volume p) \<and>
      cb_volume c = piece_volume p \<Longrightarrow>
    \<forall>x \<in> set (comparisons erf w earlier cps). in_unit (gap x)"
proof (induction erf w earlier cps rule: comparisons.induct)
  case (2 erf w earlier c p cps)
  then have r: "\<forall>x \<in> set (comparisons erf w (earlier @ [c]) cps). in_unit (gap x)" by simp
  show ?case
  proof (cases "comparison erf w earlier c p")
    case None
    then show ?thesis using r by simp
  next
    case (Some x)
    then have "in_unit (gap x)" using comparison_unit [of erf p c w earlier x] 2 by simp
    then show ?thesis using r Some by simp
  qed
qed simp

lemma bvc_reference_unit:
  assumes "erf_range erf" "f64_lt f64_zero V" "small V" "small_tape trades"
  shows "\<forall>x \<in> set (bvc_reference erf V w trades). in_unit (gap x)"
proof -
  have "small (piece_volume [])" "small_tape []" by (simp_all add: small_tape_def)
  from pieces_volume [OF assms(2-4) this]
  have "\<forall>p \<in> set (pieces V [] trades). f64_lt f64_zero (piece_volume p) \<and> capped 2 (piece_volume p) \<and> small_tape p" .
  moreover have "\<forall>(c, p) \<in> set (piece_buckets i prev ps). p \<in> set ps \<and> cb_volume c = piece_volume p" for i prev ps
    by (induction ps arbitrary: i prev) (auto simp: bucket_of_def, fastforce+)
  ultimately show ?thesis unfolding bvc_reference_def using assms(1) by (intro comparisons_unit) fastforce+
qed

lemma of_nat_u64_zero:
  assumes "n \<le> 2 ^ 53" shows "(of_nat n :: u64) = 0 \<longleftrightarrow> n = 0"
proof -
  have "n < 2 ^ 64" using assms by (rule le_less_trans) simp
  then have u: "unat (of_nat n :: u64) = n" by (simp add: unat_of_nat take_bit_nat_eq_self)
  show ?thesis
  proof
    assume "(of_nat n :: u64) = 0"
    then have "unat (of_nat n :: u64) = 0" by (simp only: unsigned_0)
    then show "n = 0" unfolding u .
  qed simp
qed

definition maybe_unit :: "bool \<Rightarrow> f64 \<Rightarrow> bool" where
  "maybe_unit given x \<longleftrightarrow> (if given then in_unit x else x = NaN)"

lemma bvc_stats_unit:
  assumes "erf_range erf" "small V" "small_tape trades" "length trades \<le> 2 ^ 53"
    "bvc_accuracy_stats erf trades V w = Inr b"
  shows "maybe_unit (bv_compared b \<noteq> 0) (bv_accuracy b) \<and> maybe_unit (bv_compared b \<noteq> 0) (bv_mean_abs_error b)"
proof -
  define cs where "cs = bvc_reference erf V w trades"
  have n: "length trades < 2 ^ 64" using assms(4) by (rule le_less_trans) simp
  have l: "length cs \<le> length trades" unfolding cs_def by (rule length_bvc_reference)
  then have m: "length cs \<le> 2 ^ 53" "length cs < 2 ^ 64" using assms(4) n order_trans le_less_trans by blast+
  have e: "bvc_accuracy_stats erf trades V w = Inr b" by (rule assms(5))
  have V: "f64_lt f64_zero V" and b: "b = \<lparr>bv_accuracy = (if cs = [] then NaN else count_ratio (length (filter agree cs)) (length cs)),
      bv_mean_abs_error = (if cs = [] then NaN else sample_mean (map gap cs) (length cs)), bv_compared = of_nat (length cs)\<rparr>"
    using assms(5) unfolding bvc_accuracy_stats_eq [OF n] cs_def [symmetric] by (auto simp: Let_def split: if_splits)
  have z: "(of_nat (length cs) :: u64) = 0 \<longleftrightarrow> cs = []"
    using of_nat_u64_zero [OF m(1)] by simp
  show ?thesis
  proof (cases "cs = []")
    case True
    then show ?thesis by (simp add: b maybe_unit_def)
  next
    case False
    have "\<forall>x \<in> set (map gap cs). in_unit x" using bvc_reference_unit [OF assms(1) V assms(2,3)] by (simp add: cs_def)
    from mean_unit [OF this] have "in_unit (sample_mean (map gap cs) (length cs))"
      using False m(1) by (simp add: sample_mean_def)
    moreover have "in_unit (count_ratio (length (filter agree cs)) (length cs))"
      unfolding in_unit_def using False m(2) count_ratio_unit [OF length_filter_le, of cs agree] by simp
    ultimately show ?thesis using False z by (simp add: b maybe_unit_def)
  qed
qed

subsection \<open>The two-proportion test\<close>

text \<open>Documented of the error function: it has the sign of its argument.\<close>

definition erf_nonneg :: "(f64 \<Rightarrow> f64) \<Rightarrow> bool" where
  "erf_nonneg erf \<longleftrightarrow> (\<forall>x. f64_le f64_zero x \<longrightarrow> f64_le f64_zero (erf x))"

lemma f64_sqrt_nonneg: "f64_le f64_zero a \<Longrightarrow> f64_le f64_zero (f64_sqrt a)"
  by (cases a) (auto simp: f64_le_def min_def split: if_splits)

lemma f64_div_not_nan: "f64_is_finite a \<Longrightarrow> \<not> f64_is_nan b \<Longrightarrow> \<not> f64_eq b f64_zero \<Longrightarrow> \<not> f64_is_nan (f64_div a b)"
  by (cases a; cases b) (auto simp: f64_eq_def split: if_splits intro!: gr0I)

lemma f64_abs_nonneg: "\<not> f64_is_nan x \<Longrightarrow> f64_le f64_zero (f64_abs x) \<and> \<not> f64_is_nan (f64_abs x)"
  by (cases x) (simp_all add: f64_le_def)

lemma upper_half:
  assumes "erf_range erf" "erf_nonneg erf" "f64_le f64_zero z"
  shows "f64_le f64_half (standard_normal_cdf erf z)" "f64_le (standard_normal_cdf erf z) f64_one"
proof -
  have z: "\<not> f64_is_nan z" using assms(3) f64_le_nan by blast
  show "f64_le (standard_normal_cdf erf z) f64_one" by (rule standard_normal_cdf_unit(2) [OF assms(1) z])
  have "f64_le f64_zero (f64_mul z frac_1_sqrt_2)"
    using assms(3) by (cases z) (auto simp: frac_1_sqrt_2_def inf_mag_def f64_le_def min_def sig_of_def rnd_mag_def
        rnd_index_def split: if_splits)
  then obtain y where y: "erf (f64_mul z frac_1_sqrt_2) = y" "f64_le f64_zero y" "f64_le y f64_one"
    using assms(1,2) f64_le_nan unfolding erf_range_def erf_nonneg_def by blast
  have fy: "f64_is_finite y" using finite_between [OF uval_one(2) y(2,3)] .
  define s where "s = f64_add f64_one y"
  have s: "f64_le f64_one s" unfolding s_def using y(2) by (intro f64_le_add_left) (simp_all add: f64_lt_le)
  have "f64_le s (f64_add f64_one f64_one)"
    unfolding s_def using y(2,3) uval_one(2) by (intro f64_add_mono) (simp_all add: f64_lt_le)
  then have "f64_is_finite s"
    using finite_between [of "f64_add f64_one f64_one" s] s f64_lt_le [OF f64_one_pos] f64_le_trans
    by (auto simp: f64_eval)
  moreover have h: "f64_is_finite f64_half" "uval f64_half * 2 = uval f64_one"
    by (simp_all add: f64_half_def f64_one_def inf_mag_def signed_def munits_def sig_of_def exp_of_def)
  ultimately have r: "rounded (real_of_int (uval f64_half) * uval s / one_units) (standard_normal_cdf erf z)"
    unfolding standard_normal_cdf_def y(1) s_def [symmetric] by (intro f64_mul_rounded)
  have "uval f64_one \<le> uval s" using s \<open>f64_is_finite s\<close> uval_one(2) f64_le_uval by blast
  then have "one_units \<le> real_of_int (uval s)" unfolding uval_one(1) [symmetric] by simp
  then have "real_of_int (uval f64_half) * one_units \<le> real_of_int (uval f64_half) * uval s"
    using h(2) uval_one(1) by (intro mult_left_mono) (simp_all add: f64_half_def)
  then have "real_of_int (uval f64_half) \<le> real_of_int (uval f64_half) * uval s / one_units"
    by (simp add: pos_le_divide_eq)
  then show "f64_le f64_half (standard_normal_cdf erf z)" using le_rounded [OF h(1) _ r] by blast
qed

lemma variance_unit:
  assumes "in_unit p" "30 \<le> (n :: u64)"
  shows "in_unit (f64_div (f64_mul p (f64_sub f64_one p)) (f64_of_nat (unat n)))"
proof -
  have p: "f64_le f64_zero p" "f64_le p f64_one" using assms(1) by (simp_all add: in_unit_def)
  note q = f64_sub_below [OF uval_one(2) p]
  note v = f64_mul_unit [OF in_unit_finite [OF assms(1)] p(1) q]
  have "unat n < 2 ^ LENGTH(64)" by (rule unsigned_less)
  then have n: "unat n < 2 ^ 64" "0 < unat n" using assms(2) by (simp_all add: word_le_nat_alt)
  have "f64_le (f64_mul p (f64_sub f64_one p)) (f64_of_nat (unat n))"
    using v(2) p(2) f64_of_nat_ge_one [OF n(2)] f64_le_trans by blast
  then show ?thesis unfolding in_unit_def
    using f64_div_unit [OF f64_of_nat_finite [OF n(1)] f64_of_nat_pos [OF n(2)] v(1)] by blast
qed

lemma tail_unit:
  assumes wu: "f64_le f64_half w" "f64_le w f64_one"
  shows "in_unit (f64_mul f64_two (f64_sub f64_one w))"
proof -
  have h: "f64_is_finite f64_half" "uval f64_half * 2 = uval f64_one" "f64_le f64_zero f64_half"
    by (simp_all add: f64_half_def f64_one_def inf_mag_def signed_def munits_def sig_of_def exp_of_def f64_le_def)
  have fw: "f64_is_finite w" using finite_between [OF uval_one(2) f64_le_trans [OF h(3) wu(1)] wu(2)] .
  have x: "f64_le f64_zero (f64_sub f64_one w)"
    using f64_sub_below(1) [OF uval_one(2) f64_le_trans [OF h(3) wu(1)] wu(2)] .
  have "uval f64_half \<le> uval w" using wu(1) h(1) fw f64_le_uval by blast
  then have "real_of_int (uval f64_one - uval w) \<le> real_of_int (uval f64_half)" using h(2) by simp
  then have y: "f64_le (f64_sub f64_one w) f64_half"
    by (rule rounded_le [OF h(1) _ f64_sub_rounded [OF uval_one(2) fw]])
  have fx: "f64_is_finite (f64_sub f64_one w)" using finite_between [OF h(1) x y] .
  have two: "f64_is_finite f64_two" "uval f64_two = 2 * uval f64_one"
    by (simp_all add: f64_two_def f64_one_def inf_mag_def signed_def munits_def sig_of_def exp_of_def)
  note m = f64_mul_rounded [OF two(1) fx]
  have ux: "0 \<le> uval (f64_sub f64_one w)" "2 * uval (f64_sub f64_one w) \<le> uval f64_one"
    using x y fx h(1,2) f64_le_uval [OF fx h(1)] by (simp_all add: f64_le_zero_uval)
  have e: "real_of_int (uval f64_two) * uval (f64_sub f64_one w) / one_units = 2 * real_of_int (uval (f64_sub f64_one w))"
    using two(2) uval_one(1) by simp
  have "f64_le f64_zero (f64_mul f64_two (f64_sub f64_one w))"
    using ux(1) by (intro le_rounded [OF finite_zero _ m]) (simp add: e)
  moreover have "2 * real_of_int (uval (f64_sub f64_one w)) \<le> real_of_int (uval f64_one)"
    using ux(2) by (metis of_int_le_iff of_int_mult of_int_numeral)
  then have "f64_le (f64_mul f64_two (f64_sub f64_one w)) f64_one"
    by (intro rounded_le [OF uval_one(2) _ m]) (simp only: e)
  ultimately show ?thesis by (simp add: in_unit_def)
qed

lemma p_value_unit:
  assumes "erf_range erf" "erf_nonneg erf" "in_unit p1 \<or> p1 = NaN" "in_unit p2 \<or> p2 = NaN"
  shows "two_proportion_p_value erf p1 n1 p2 n2 = NaN \<or> in_unit (two_proportion_p_value erf p1 n1 p2 n2)"
proof (cases "n1 < MIN_COMPARED \<or> n2 < MIN_COMPARED \<or> f64_is_nan p1 \<or> f64_is_nan p2")
  case True
  then show ?thesis by (auto simp: two_proportion_p_value_def)
next
  case False
  then have n: "30 \<le> n1" "30 \<le> n2" "in_unit p1" "in_unit p2" using assms(3,4) by (auto simp: MIN_COMPARED_def)
  define se where "se = f64_sqrt (f64_add (f64_div (f64_mul p1 (f64_sub f64_one p1)) (f64_of_nat (unat n1)))
    (f64_div (f64_mul p2 (f64_sub f64_one p2)) (f64_of_nat (unat n2))))"
  have se: "f64_le f64_zero se"
    using variance_unit [OF n(3,1)] variance_unit [OF n(4,2)] unfolding se_def in_unit_def
    by (intro f64_sqrt_nonneg f64_add_nonneg) blast+
  have r: "two_proportion_p_value erf p1 n1 p2 n2 = (if f64_eq se f64_zero then f64_one
      else f64_mul f64_two (f64_sub f64_one (standard_normal_cdf erf (f64_abs (f64_div (f64_sub p1 p2) se)))))"
    using False by (simp add: two_proportion_p_value_def Let_def se_def)
  have one: "in_unit f64_one" by (simp add: in_unit_def f64_lt_le uval_one(2))
  show ?thesis
  proof (cases "f64_eq se f64_zero")
    case True
    then show ?thesis using r one by simp
  next
    case False
    have u: "f64_le f64_zero p1" "f64_le p1 f64_one" "f64_le f64_zero p2" "f64_le p2 f64_one"
      using n(3,4) by (simp_all add: in_unit_def)
    have "f64_is_finite (f64_abs (f64_sub p1 p2))"
      using f64_abs_sub_le [OF uval_one(2) u] finite_between [OF uval_one(2)] by blast
    then have "f64_is_finite (f64_sub p1 p2)" by (cases "f64_sub p1 p2") simp_all
    then have "\<not> f64_is_nan (f64_div (f64_sub p1 p2) se)" using f64_div_not_nan se f64_le_nan False by blast
    then have "f64_le f64_zero (f64_abs (f64_div (f64_sub p1 p2) se))" using f64_abs_nonneg by blast
    note c = upper_half [OF assms(1,2) this]
    from r False tail_unit [OF c] show ?thesis by simp
  qed
qed

lemma nothing_varies:
  assumes "p \<in> {f64_zero, f64_one}" "30 \<le> (n :: u64)"
  shows "f64_key (f64_div (f64_mul p (f64_sub f64_one p)) (f64_of_nat (unat n))) = 0 \<and>
    f64_is_finite (f64_div (f64_mul p (f64_sub f64_one p)) (f64_of_nat (unat n)))"
proof -
  have "unat n < 2 ^ LENGTH(64)" by (rule unsigned_less)
  then have n: "unat n < 2 ^ 64" "0 < unat n" using assms(2) by (simp_all add: word_le_nat_alt)
  have "f64_sub f64_one f64_one = f64_zero" "f64_sub f64_one f64_zero = f64_one" by (simp_all add: f64_eval)
  moreover have "f64_mul f64_zero f64_one = f64_zero" "f64_mul f64_one f64_zero = f64_zero" by (simp_all add: f64_eval)
  ultimately have z: "f64_mul p (f64_sub f64_one p) = f64_zero" using assms(1) by auto
  obtain s m where m: "f64_of_nat (unat n) = Num s m" "0 < m" "m < inf_mag"
    using f64_of_nat_finite [OF n(1)] f64_of_nat_pos [OF n(2)]
    by (cases "f64_of_nat (unat n)") (auto simp: f64_lt_def split: if_splits)
  show ?thesis using m(2,3) by (simp add: z m(1) sig_of_def rnd_mag_def rnd_index_def)
qed

text \<open>when both accuracies are 0 or 1 the estimated variance is zero, and the test returns a p-value
  of one, "nothing to distinguish", even if one configuration was always right and the other always
  wrong, however many buckets were compared.\<close>

theorem p_value_degenerate:
  assumes "p1 \<in> {f64_zero, f64_one}" "p2 \<in> {f64_zero, f64_one}" "30 \<le> n1" "30 \<le> n2"
  shows "two_proportion_p_value erf p1 n1 p2 n2 = f64_one"
proof -
  note v = nothing_varies [OF assms(1,3)] nothing_varies [OF assms(2,4)]
  have z: "f64_key (f64_sqrt (f64_add a b)) = 0 \<and> \<not> f64_is_nan (f64_sqrt (f64_add a b))"
    if "f64_key a = 0" "f64_is_finite a" "f64_key b = 0" "f64_is_finite b" for a b
    using that by (cases a; cases b) (auto simp: min_def split: if_splits)
  have "\<not> f64_is_nan p1" "\<not> f64_is_nan p2" "\<not> n1 < MIN_COMPARED" "\<not> n2 < MIN_COMPARED"
    using assms by (auto simp: MIN_COMPARED_def f64_one_def)
  then show ?thesis using z [OF v(1) [THEN conjunct1] v(1) [THEN conjunct2] v(2) [THEN conjunct1] v(2) [THEN conjunct2]]
    by (simp add: two_proportion_p_value_def Let_def f64_eq_def)
qed

theorem p_value_degenerate_witness:
  "two_proportion_p_value erf_sign f64_zero 1000000 f64_one 1000000 = f64_one"
  by (rule p_value_degenerate) (simp_all add: word_le_nat_alt)

subsection \<open>Every statistic of a sweep\<close>

definition stats_ok :: "calib_stats \<Rightarrow> bool" where
  "stats_ok s \<longleftrightarrow>
     maybe_unit (st_bvc_compared s \<noteq> 0) (st_bvc_accuracy s) \<and>
     maybe_unit (st_bvc_compared s \<noteq> 0) (st_bvc_mean_abs_error s) \<and>
     maybe_unit (st_non_warmup_readings s \<noteq> 0) (st_vpin_mean s) \<and>
     maybe_unit (st_non_warmup_readings s \<noteq> 0) (st_vpin_min s) \<and>
     maybe_unit (st_non_warmup_readings s \<noteq> 0) (st_vpin_max s) \<and>
     (st_non_warmup_readings s \<noteq> 0 \<longrightarrow> f64_le (st_vpin_min s) (st_vpin_max s)) \<and>
     (st_bvc_accuracy_p_value s = NaN \<or> in_unit (st_bvc_accuracy_p_value s))"

lemma stats_ok_p_value:
  "stats_ok s \<Longrightarrow> x = NaN \<or> in_unit x \<Longrightarrow> stats_ok (s\<lparr>st_bvc_accuracy_p_value := x\<rparr>)"
  by (simp add: stats_ok_def)

lemma stats_ok_accuracy: "stats_ok s \<Longrightarrow> in_unit (st_bvc_accuracy s) \<or> st_bvc_accuracy s = NaN"
  unfolding stats_ok_def maybe_unit_def by presburger

lemma engine_run_length: "engine_run erf e ts = Some (e', rs) \<Longrightarrow> length rs \<le> length ts"
proof (induction ts arbitrary: e rs)
  case (Cons x ts)
  then show ?case by (cases x) (fastforce split: option.splits)
qed simp

lemma run_one_ok:
  assumes "erf_range erf" "small bv" "small_tape trades" "length trades \<le> 2 ^ 53" "vw \<le> 2 ^ 52"
    "pred_option (\<lambda>w. w < 2 ^ 64) cdf" "run_one erf trades cdf bv sw vw = Some (Inr s)"
  shows "stats_ok s"
proof -
  obtain b where b: "bvc_accuracy_stats erf trades bv sw = Inr b" "calibrate_one erf trades bv sw vw cdf b = Some (Inr s)"
    using assms(7) by (auto simp: run_one_def split: sum.splits)
  note u = bvc_stats_unit [OF assms(1-4) b(1)]
  show ?thesis
  proof (rule calibrate_one_cases [of bv sw vw cdf erf trades b])
    fix e assume "calibrate_one erf trades bv sw vw cdf b = Some (Inl e)"
    then show ?thesis using b(2) by simp
  next
    let ?c = "calib_config bv sw vw cdf"
    fix e' rs
    assume new: "VpinEngine_new ?c = Inr (fresh_engine ?c)"
      and run: "engine_run erf (fresh_engine ?c) (map tape_in trades) = Some (e', rs)"
      and one: "calibrate_one erf trades bv sw vw cdf b = Some (Inr (case summarize (List.map_filter vr_vpin rs) of (m, mn, mx, sd) \<Rightarrow>
        \<lparr>st_bucket_volume = bv, st_sigma_window = sw, st_vpin_window = vw, st_total_buckets = of_nat (length rs),
         st_non_warmup_readings = of_nat (length (List.map_filter vr_vpin rs)), st_vpin_mean = m, st_vpin_min = mn,
         st_vpin_max = mx, st_vpin_stddev = sd, st_avg_bucket_interval_ms = mean_interval_ms (map vr_ts_close_ns rs),
         st_bvc_accuracy = bv_accuracy b, st_bvc_mean_abs_error = bv_mean_abs_error b,
         st_bvc_compared = bv_compared b, st_bvc_accuracy_p_value = NaN\<rparr>))"
    define vs where "vs = List.map_filter vr_vpin rs"
    obtain m mn mx sd where sm: "summarize vs = (m, mn, mx, sd)" by (cases "summarize vs")
    have "config_ok ?c" using new by (simp add: VpinEngine_new_Inr)
    moreover have "config_bounded ?c" using assms(2,5,6) by (simp add: config_bounded_def calib_config_def)
    moreover have "\<forall>(p, v, t) \<in> set (map tape_in trades). small v" using assms(3) by (auto simp: small_tape_def tape_in_def)
    ultimately have "\<forall>r \<in> set rs. pred_option in_unit (vr_vpin r)"
      using engine_run_inv [OF assms(1) fresh_engine_inv] run by (fastforce simp: reading_ok_def)
    then have vu: "\<forall>x \<in> set vs. in_unit x" by (force simp: vs_def in_map_filter)
    have "length vs \<le> length rs" unfolding vs_def by (induction rs) (simp_all add: map_filter_simps split: option.splits)
    then have l: "length vs \<le> 2 ^ 53" using engine_run_length [OF run] assms(4) by simp
    have s: "s = \<lparr>st_bucket_volume = bv, st_sigma_window = sw, st_vpin_window = vw, st_total_buckets = of_nat (length rs),
         st_non_warmup_readings = of_nat (length vs), st_vpin_mean = m, st_vpin_min = mn,
         st_vpin_max = mx, st_vpin_stddev = sd, st_avg_bucket_interval_ms = mean_interval_ms (map vr_ts_close_ns rs),
         st_bvc_accuracy = bv_accuracy b, st_bvc_mean_abs_error = bv_mean_abs_error b,
         st_bvc_compared = bv_compared b, st_bvc_accuracy_p_value = NaN\<rparr>"
      using b(2) one by (simp add: vs_def [symmetric] sm)
    show ?thesis using u summarize_unit [OF vu l sm] of_nat_u64_zero [OF l]
      by (cases "vs = []") (simp_all add: s stats_ok_def maybe_unit_def)
  qed
qed

definition sweep_inputs_ok :: "calib_trade list \<Rightarrow> f64 list \<Rightarrow> usize list \<Rightarrow> usize option \<Rightarrow> bool" where
  "sweep_inputs_ok trades bvs vws cdf \<longleftrightarrow> small_tape trades \<and> length trades \<le> 2 ^ 53 \<and>
     (\<forall>V \<in> set bvs. small V) \<and> (\<forall>w \<in> set vws. w \<le> 2 ^ 52) \<and> pred_option (\<lambda>w. w < 2 ^ 64) cdf"


lemma erf_sign_nonneg: "erf_nonneg erf_sign"
  by (auto simp: erf_nonneg_def erf_sign_def f64_lt_def f64_le_def f64_one_def)

lemma calib_eval:
  "f64_add f64_zero f64_one = f64_one" "f64_add f64_one f64_zero = f64_one" "f64_div f64_one f64_one = f64_one" "\<not> f64_lt f64_one f64_one"
  "f64_mul f64_one f64_one = f64_one" "f64_sub f64_two f64_zero = f64_two" "f64_sub f64_one f64_one = f64_zero"
  "f64_sub (Num False (1025 * 2 ^ 52)) f64_two = f64_two" "f64_sub f64_zero f64_zero = f64_zero"
  "sample_mean [f64_zero, f64_two] 2 = f64_one"
  by (simp_all add: sample_mean_def f64_eval)

lemma calib_sigma: "sample_std [f64_zero, f64_two] 2 f64_one = Num False 0x3FF6A09E667F3BCD"
proof -
  have "sample_std [f64_zero, f64_two] 2 f64_one = f64_sqrt f64_two"
    unfolding sample_std_def by (rule arg_cong [of _ _ f64_sqrt]) (simp add: f64_eval)
  also have "\<dots> = Num False 0x3FF6A09E667F3BCD" by (simp add: f64_eval)
  finally show ?thesis .
qed

lemma calib_buy: "buy_fraction erf_sign f64_two (Num False 0x3FF6A09E667F3BCD) = Some f64_one"
  by (simp add: buy_fraction_def standard_normal_cdf_def erf_sign_def frac_1_sqrt_2_def f64_eval)

text \<open>Three prints of the bucket volume each: the third bucket is the first that can be compared.\<close>

definition calib_tape :: "calib_trade list" where
  "calib_tape = map (\<lambda>(p, s, t). \<lparr>ct_price = p, ct_volume = f64_one, ct_ts_ns = t, ct_taker_side = s\<rparr>)
     [(f64_zero, Sell, 1), (f64_two, Buy, 2), (Num False (1025 * 2 ^ 52), Buy, 3)]"

lemma calib_tape_cut: "pieces f64_one [] calib_tape = map (\<lambda>t. [t]) calib_tape"
  by (simp add: calib_tape_def tape_in_def volume_of_def calib_eval)

lemma calib_tape_reference: "bvc_reference erf_sign f64_one 2 calib_tape = [(f64_one, f64_one)]"
  unfolding bvc_reference_def calib_tape_cut
  by (simp add: calib_tape_def tape_in_def volume_of_def bucket_of_def comparison_def sigma_after_def last_n_def
      classify_def true_fraction_def side_volume_def Let_def calib_eval [simplified] calib_sigma [simplified] calib_buy [simplified])

theorem bvc_stats_spec_witness:
  "bvc_accuracy_stats erf_sign calib_tape f64_one 2 =
    Inr \<lparr>bv_accuracy = f64_one, bv_mean_abs_error = f64_zero, bv_compared = 1\<rparr>"
proof -
  have n: "length calib_tape < 2 ^ 64" by (simp add: calib_tape_def)
  have "agree (f64_one, f64_one)" by (simp add: agree_def)
  moreover have "count_ratio 1 1 = f64_one" by (simp add: count_ratio_def f64_of_nat_1 calib_eval)
  moreover have "sample_mean [gap (f64_one, f64_one)] 1 = f64_zero"
    by (simp add: sample_mean_def gap_def calib_eval f64_of_nat_1 f64_sum_def) (simp add: f64_eval)
  ultimately show ?thesis
    using bvc_stats_spec [OF n, of erf_sign f64_one 2] by (simp add: calib_tape_reference uval_one(2) Let_def)
qed


end
