(* ===== verification/Health.thy ===== *)
theory Health
  imports Service Json_Values
begin

text \<open>
  \<open>services/toxicity-service/src/health.rs\<close>: the request line, the two routes, the JSON snapshot and the
  metrics text. The socket is left out: a request is the text its first read gives, and a response is
  the text written. The order in which a \<open>HashMap\<close> is walked is unspecified, so the streams are given
  as the list of the map's entries in that order; the JSON printer is a parameter.
\<close>

subsection \<open>Formatting\<close>

text \<open>\<open>{}\<close> of an unsigned number.\<close>

fun show_nat :: "nat \<Rightarrow> str" where
  "show_nat n = (if n < 10 then [48 + n] else show_nat (n div 10) @ [48 + n mod 10])"

declare show_nat.simps [simp del]

definition show_u64 :: "u64 \<Rightarrow> str" where
  "show_u64 n = show_nat (unat n)"

definition writeln :: "str \<Rightarrow> str" where
  "writeln s = s @ [10]"

subsection \<open>The request\<close>

lemma length_dropWhile_Cons: "dropWhile p s = c # cs \<Longrightarrow> length cs < length s"
  by (metis Suc_le_lessD length_Cons length_dropWhile_le)

function split_whitespace :: "str \<Rightarrow> str list" where
  "split_whitespace s = (case dropWhile white_space s of
      [] \<Rightarrow> []
    | c # cs \<Rightarrow> takeWhile (Not \<circ> white_space) (c # cs) # split_whitespace (dropWhile (Not \<circ> white_space) (c # cs)))"
  by pat_completeness auto
termination
proof (relation "measure length")
  fix s c cs assume d: "dropWhile white_space s = c # cs"
  have "\<not> white_space c" using d by (metis dropWhile_eq_Cons_conv)
  then have "dropWhile (Not \<circ> white_space) (c # cs) = dropWhile (Not \<circ> white_space) cs" by simp
  then show "(dropWhile (Not \<circ> white_space) (c # cs), s) \<in> measure length"
    using length_dropWhile_Cons [OF d] length_dropWhile_le [of "Not \<circ> white_space" cs] by simp
qed simp

declare split_whitespace.simps [simp del]

text \<open>\<open>request.lines().next()\<close> (a line ends before a newline, or before a carriage return and a newline),
  \<open>split_whitespace().nth(1)\<close>, \<open>unwrap_or("/")\<close>.\<close>

definition first_line :: "str \<Rightarrow> str option" where
  "first_line s = (if s = [] then None
     else (let line = takeWhile (\<lambda>c. c \<noteq> 10) s
           in Some (if length line < length s \<and> line \<noteq> [] \<and> last line = 13 then butlast line else line)))"

definition request_path :: "str \<Rightarrow> str" where
  "request_path request = (case first_line request of None \<Rightarrow> str_of ''/''
     | Some line \<Rightarrow> (case split_whitespace line of _ # path # _ \<Rightarrow> path | _ \<Rightarrow> str_of ''/''))"

subsection \<open>The two bodies\<close>

definition json_option :: "u64 option \<Rightarrow> json" where
  "json_option v = (case v of None \<Rightarrow> JNull | Some n \<Rightarrow> JNumber n)"

definition render_health :: "(str \<times> stream_entry) list \<Rightarrow> json" where
  "render_health registry = JObject
     [(str_of ''status'', JString (str_of ''ok'')),
      (str_of ''stream_count'', JCount (length registry)),
      (str_of ''streams'', JObject (map (\<lambda>(key, entry). (key, JObject
        [(str_of ''exchange'', JString (se_exchange entry)),
         (str_of ''symbol'', JString (se_symbol entry)),
         (str_of ''alive'', JBool (sh_worker_alive (se_health entry))),
         (str_of ''trades_processed'', JNumber (sh_trades_processed (se_health entry))),
         (str_of ''readings_emitted'', JNumber (sh_readings_emitted (se_health entry))),
         (str_of ''last_trade_ts_ns'', json_option (sh_last_trade_ts_ns (se_health entry))),
         (str_of ''last_heartbeat_ts_ns'', json_option (sh_last_heartbeat_ts_ns (se_health entry)))])) registry))]"

definition METRICS :: "(str \<times> str \<times> str) list" where
  "METRICS =
     [(str_of ''geiger_trades_processed_total'', str_of ''counter'',
       str_of ''Trades processed for this stream since the worker started''),
      (str_of ''geiger_readings_emitted_total'', str_of ''counter'',
       str_of ''VPIN readings emitted for this stream since the worker started''),
      (str_of ''geiger_stream_alive'', str_of ''gauge'',
       str_of ''1 if the stream's worker is still running, 0 if its trade-ingest channel closed''),
      (str_of ''geiger_last_trade_timestamp_ns'', str_of ''gauge'',
       str_of ''Exchange timestamp (ns) of the last trade processed for this stream''),
      (str_of ''geiger_last_heartbeat_timestamp_ns'', str_of ''gauge'',
       str_of ''Timestamp (ns) of the last heartbeat sent for this stream'')]"

definition write_metrics_header :: str where
  "write_metrics_header = concat (map (\<lambda>(name, kind, help).
     writeln (str_of ''# HELP '' @ name @ str_of '' '' @ help @ str_of ''.'') @
     writeln (str_of ''# TYPE '' @ name @ str_of '' '' @ kind)) METRICS)"

definition metric_line :: "str \<Rightarrow> str \<Rightarrow> str \<Rightarrow> u64 \<Rightarrow> str" where
  "metric_line name exch symbol v =
     name @ str_of ''{exchange=\"'' @ exch @ str_of ''\",symbol=\"'' @ symbol @ str_of ''\"} '' @ show_u64 v"

definition entry_metrics :: "stream_entry \<Rightarrow> str" where
  "entry_metrics entry =
     (let health = se_health entry;
          line = (\<lambda>name v. writeln (metric_line name (se_exchange entry) (se_symbol entry) v))
      in line (str_of ''geiger_trades_processed_total'') (sh_trades_processed health) @
         line (str_of ''geiger_readings_emitted_total'') (sh_readings_emitted health) @
         line (str_of ''geiger_stream_alive'') (if sh_worker_alive health then 1 else 0) @
         (case sh_last_trade_ts_ns health of None \<Rightarrow> []
          | Some ts \<Rightarrow> line (str_of ''geiger_last_trade_timestamp_ns'') ts) @
         (case sh_last_heartbeat_ts_ns health of None \<Rightarrow> []
          | Some ts \<Rightarrow> line (str_of ''geiger_last_heartbeat_timestamp_ns'') ts))"

definition render_metrics :: "stream_entry list \<Rightarrow> str" where
  "render_metrics registry = write_metrics_header @ concat (map entry_metrics registry)"

text \<open>The whole connection: no response if the read gives nothing or fails.\<close>

definition http_response :: "str \<Rightarrow> str \<Rightarrow> str \<Rightarrow> str" where
  "http_response status content_type body =
     str_of ''HTTP/1.1 '' @ status @ [13, 10] @ str_of ''Content-Type: '' @ content_type @ [13, 10] @
     str_of ''Content-Length: '' @ show_nat (utf8_len body) @ [13, 10, 13, 10] @ body"

definition health_connection :: "(json \<Rightarrow> str) \<Rightarrow> (str \<times> stream_entry) list \<Rightarrow> str option \<Rightarrow> str option" where
  "health_connection to_string registry request =
     (case request of None \<Rightarrow> None
      | Some r \<Rightarrow> if r = [] then None
        else Some (let path = request_path r in
          if path = str_of ''/health''
            then http_response (str_of ''200 OK'') (str_of ''application/json'') (to_string (render_health registry))
          else if path = str_of ''/metrics''
            then http_response (str_of ''200 OK'') (str_of ''text/plain; version=0.0.4'')
                   (render_metrics (map snd registry))
          else http_response (str_of ''404 Not Found'') (str_of ''text/plain'') (str_of ''not found'')))"

subsection \<open>Numbers and lines\<close>

lemma show_nat_digits: "show_nat n \<noteq> [] \<and> (\<forall>c \<in> set (show_nat n). is_digit c) \<and> dec (show_nat n) = n"
proof (induction n rule: show_nat.induct)
  case (1 n)
  show ?case
  proof (cases "n < 10")
    case True
    then show ?thesis by (subst (1 2 3) show_nat.simps) (simp add: is_digit_def)
  next
    case False
    then have "show_nat n = show_nat (n div 10) @ [48 + n mod 10]" by (subst show_nat.simps) simp
    then show ?thesis using 1 False by (auto simp: dec_from_append is_digit_def)
  qed
qed

lemma parse_show_u64 [simp]: "parse_u64 (show_u64 n) = Some n"
proof -
  have "unat n < 2 ^ 64" using unsigned_less [of n, where 'a = nat] by simp
  then show ?thesis unfolding show_u64_def using show_nat_digits [of "unat n"] parse_u64_digits [of "show_nat (unat n)"]
    by simp
qed

text \<open>The lines of a text, and the lines of a text made of lines.\<close>

fun lines_from :: "str \<Rightarrow> str \<Rightarrow> str list" where
  "lines_from cur [] = (if cur = [] then [] else [cur])"
| "lines_from cur (c # cs) = (if c = 10 then cur # lines_from [] cs else lines_from (cur @ [c]) cs)"

abbreviation lines_of :: "str \<Rightarrow> str list" where "lines_of \<equiv> lines_from []"

lemma lines_from_writeln: "10 \<notin> set l \<Longrightarrow> lines_from cur (writeln l @ rest) = (cur @ l) # lines_of rest"
  by (induction l arbitrary: cur) (simp_all add: writeln_def)

lemma lines_of_writelns: "(\<forall>l \<in> set ls. 10 \<notin> set l) \<Longrightarrow> lines_of (concat (map writeln ls) @ rest) = ls @ lines_of rest"
  by (induction ls) (simp_all add: lines_from_writeln)

text \<open>A reader of the metrics text: the name, the two labels and the value of a sample line.\<close>

definition parse_sample :: "str \<Rightarrow> (str \<times> str \<times> str \<times> u64) option" where
  "parse_sample line = Option.bind (split_once 123 line) (\<lambda>(name, r1).
     Option.bind (strip_prefix (str_of ''exchange=\"'') r1) (\<lambda>r2.
     Option.bind (split_once 34 r2) (\<lambda>(exch, r3).
     Option.bind (strip_prefix (str_of '',symbol=\"'') r3) (\<lambda>r4.
     Option.bind (split_once 34 r4) (\<lambda>(symbol, r5).
     Option.bind (strip_prefix (str_of ''} '') r5) (\<lambda>v.
     map_option (\<lambda>n. (name, exch, symbol, n)) (parse_u64 v)))))))"

text \<open>A name that needs no escape in a label.\<close>

definition plain :: "str \<Rightarrow> bool" where
  "plain s \<longleftrightarrow> 10 \<notin> set s \<and> 34 \<notin> set s"

lemma split_once_app: "c \<notin> set a \<Longrightarrow> split_once c (a @ c # b) = Some (a, b)"
  by (simp add: split_once_Some)

lemma strip_prefix_app [simp]: "strip_prefix p (p @ t) = Some t"
  by (simp add: strip_prefix_Some)

lemma parse_metric_line:
  assumes "123 \<notin> set name" "plain exch" "plain symbol"
  shows "parse_sample (metric_line name exch symbol v) = Some (name, exch, symbol, v)"
proof -
  let ?p1 = "str_of ''exchange=\"''" and ?p2 = "str_of '',symbol=\"''" and ?p3 = "str_of ''} ''"
  have q: "str_of ''{exchange=\"'' = 123 # ?p1" "str_of ''\",symbol=\"'' = 34 # ?p2" "str_of ''\"} '' = 34 # ?p3"
    by (simp_all add: str_of_def)
  have "metric_line name exch symbol v = name @ 123 # ?p1 @ exch @ 34 # ?p2 @ symbol @ 34 # ?p3 @ show_u64 v"
    unfolding metric_line_def q by simp
  then show ?thesis using assms unfolding plain_def
    by (simp add: parse_sample_def split_once_app)
qed

subsection \<open>What a scrape reads\<close>

definition entry_samples :: "stream_entry \<Rightarrow> (str \<times> str \<times> str \<times> u64) list" where
  "entry_samples entry =
     (let h = se_health entry; e = se_exchange entry; s = se_symbol entry in
       [(str_of ''geiger_trades_processed_total'', e, s, sh_trades_processed h),
        (str_of ''geiger_readings_emitted_total'', e, s, sh_readings_emitted h),
        (str_of ''geiger_stream_alive'', e, s, if sh_worker_alive h then 1 else 0)] @
       map (\<lambda>ts. (str_of ''geiger_last_trade_timestamp_ns'', e, s, ts)) (case sh_last_trade_ts_ns h of None \<Rightarrow> [] | Some ts \<Rightarrow> [ts]) @
       map (\<lambda>ts. (str_of ''geiger_last_heartbeat_timestamp_ns'', e, s, ts))
         (case sh_last_heartbeat_ts_ns h of None \<Rightarrow> [] | Some ts \<Rightarrow> [ts]))"

lemma entry_metrics_samples:
  "entry_metrics entry = concat (map writeln (map (\<lambda>(n, e, s, v). metric_line n e s v) (entry_samples entry)))"
  by (simp add: entry_metrics_def entry_samples_def Let_def split: option.split)

lemma registry_metrics_samples: "concat (map entry_metrics registry) =
    concat (map writeln (map (\<lambda>(n, e, s, v). metric_line n e s v) (concat (map entry_samples registry))))"
  by (induction registry) (simp_all add: entry_metrics_samples)

definition header_lines :: "str list" where
  "header_lines = concat (map (\<lambda>(name, kind, help).
     [str_of ''# HELP '' @ name @ str_of '' '' @ help @ str_of ''.'', str_of ''# TYPE '' @ name @ str_of '' '' @ kind]) METRICS)"

lemma write_metrics_header_lines: "write_metrics_header = concat (map writeln header_lines)"
  by (simp add: write_metrics_header_def header_lines_def METRICS_def)

definition comment_line :: "str \<Rightarrow> bool" where
  "comment_line l \<longleftrightarrow> starts_with l [35]"

lemma header_lines_facts: "\<forall>l \<in> set header_lines. 10 \<notin> set l \<and> comment_line l"
  by (simp add: header_lines_def METRICS_def str_of_def comment_line_def starts_with_def)

lemma entry_samples_facts:
  "\<forall>(n, e, s, v) \<in> set (entry_samples entry). 123 \<notin> set n \<and> 10 \<notin> set n \<and> n \<noteq> [] \<and> hd n = 103 \<and>
    e = se_exchange entry \<and> s = se_symbol entry"
  by (auto simp: entry_samples_def Let_def str_of_def split: option.splits)

lemma metric_line_facts:
  assumes "10 \<notin> set name" "name \<noteq> []" "hd name = 103" "plain exch" "plain symbol"
  shows "10 \<notin> set (metric_line name exch symbol v)" "\<not> comment_line (metric_line name exch symbol v)"
proof -
  have "10 \<notin> set (show_u64 v)" using show_nat_digits [of "unat v"] by (auto simp: show_u64_def is_digit_def)
  then show "10 \<notin> set (metric_line name exch symbol v)"
    using assms by (simp add: metric_line_def plain_def str_of_def)
  show "\<not> comment_line (metric_line name exch symbol v)"
    using assms(2,3) by (cases name) (simp_all add: comment_line_def starts_with_def metric_line_def)
qed

text \<open>C39: scraping \<open>/metrics\<close> gets back what the workers counted: for streams whose exchange and symbol contain no
  quote and no newline, the lines that are not comments read, in order, as exactly the three counters
  of every stream and its two timestamps where they exist, each value the 64 bits of the health
  snapshot.\<close>

theorem metrics_scrape:
  assumes "\<forall>entry \<in> set registry. plain (se_exchange entry) \<and> plain (se_symbol entry)"
  shows "map parse_sample (filter (\<lambda>l. \<not> comment_line l) (lines_of (render_metrics registry))) =
    map Some (concat (map entry_samples registry))"
proof -
  let ?line = "\<lambda>(n, e, s, v). metric_line n e s v"
  define ls where "ls = map ?line (concat (map entry_samples registry))"
  have f: "123 \<notin> set n \<and> 10 \<notin> set n \<and> n \<noteq> [] \<and> hd n = 103 \<and> plain e \<and> plain s"
    if x: "(n, e, s, v) \<in> set (concat (map entry_samples registry))" for n e s v
  proof -
    obtain entry where "entry \<in> set registry" "(n, e, s, v) \<in> set (entry_samples entry)" using x by auto
    then show ?thesis using entry_samples_facts [of entry] assms by fastforce
  qed
  have r: "render_metrics registry = concat (map writeln header_lines) @ concat (map writeln ls) @ []"
    unfolding render_metrics_def write_metrics_header_lines registry_metrics_samples ls_def by simp
  have ls: "\<forall>l \<in> set ls. 10 \<notin> set l \<and> \<not> comment_line l"
    using f metric_line_facts unfolding ls_def by fastforce
  have "lines_of (render_metrics registry) = header_lines @ ls @ lines_of []"
    unfolding r using lines_of_writelns [of header_lines "concat (map writeln ls) @ []"] lines_of_writelns [of ls "[]"]
      ls header_lines_facts by auto
  moreover have "filter (\<lambda>l. \<not> comment_line l) ls = ls" "filter (\<lambda>l. \<not> comment_line l) header_lines = []"
    using ls header_lines_facts by (auto simp: filter_id_conv filter_empty_conv)
  moreover have "map parse_sample ls = map Some (concat (map entry_samples registry))"
    unfolding ls_def map_map comp_def using f parse_metric_line by (intro map_cong refl) fastforce
  ultimately show ?thesis by simp
qed

definition entry_alive :: stream_entry where
  "entry_alive = update_health (\<lambda>h. h\<lparr>sh_worker_alive := True, sh_trades_processed := 42\<rparr>)
     (StreamEntry_new (str_of ''bybit'') (str_of ''BTC''))"

theorem metrics_scrape_witness:
  "map parse_sample (filter (\<lambda>l. \<not> comment_line l) (lines_of (render_metrics [entry_alive]))) =
    [Some (str_of ''geiger_trades_processed_total'', str_of ''bybit'', str_of ''BTC'', 42),
     Some (str_of ''geiger_readings_emitted_total'', str_of ''bybit'', str_of ''BTC'', 0),
     Some (str_of ''geiger_stream_alive'', str_of ''bybit'', str_of ''BTC'', 1)]"
proof -
  have "\<forall>entry \<in> set [entry_alive]. plain (se_exchange entry) \<and> plain (se_symbol entry)"
    by (simp add: entry_alive_def update_health_def StreamEntry_new_def plain_def str_of_def)
  from metrics_scrape [OF this] show ?thesis
    by (simp add: entry_samples_def entry_alive_def update_health_def StreamEntry_new_def StreamHealth_default_def Let_def)
qed

subsection \<open>The routes\<close>

lemma split_whitespace_word:
  assumes "w \<noteq> []" "\<forall>c \<in> set w. \<not> white_space c" "r = [] \<or> white_space (hd r)"
  shows "split_whitespace (w @ r) = w # split_whitespace r"
proof -
  obtain c cs where w: "w = c # cs" using assms(1) by (cases w) auto
  have c: "\<not> white_space c" "\<forall>c \<in> set cs. \<not> white_space c" using assms(2) w by simp_all
  have t: "takeWhile (Not \<circ> white_space) (cs @ r) = cs" "dropWhile (Not \<circ> white_space) (cs @ r) = r"
    using c(2) assms(3) by (cases r; simp add: takeWhile_append dropWhile_append)+
  have "dropWhile white_space (w @ r) = c # cs @ r" using c(1) by (simp add: w)
  then show ?thesis using c(1) t by (subst split_whitespace.simps) (simp add: w)
qed

lemma split_whitespace_space: "split_whitespace (32 # r) = split_whitespace r"
  unfolding split_whitespace.simps [of "32 # r"] split_whitespace.simps [of r] by (simp add: white_space_def)

lemma request_path_words:
  assumes "m \<noteq> []" "p \<noteq> []" "\<forall>c \<in> set m \<union> set p. \<not> white_space c"
  shows "request_path (m @ 32 # p @ 32 # rest) = p"
proof -
  let ?r = "takeWhile (\<lambda>c. c \<noteq> 10) rest"
  have ws: "white_space 10" "white_space 32" by (simp_all add: white_space_def)
  have nl: "\<And>c. c \<in> set m \<Longrightarrow> c \<noteq> 10" "\<And>c. c \<in> set p \<Longrightarrow> c \<noteq> 10"
    using assms(3) ws(1) by blast+
  have sp: "takeWhile (\<lambda>c. c \<noteq> 10) (32 # x) = 32 # takeWhile (\<lambda>c. c \<noteq> 10) x" for x :: str by simp
  have "takeWhile (\<lambda>c. c \<noteq> 10) (m @ 32 # p @ 32 # rest) = m @ 32 # p @ 32 # ?r"
    using takeWhile_append2 [of m "\<lambda>c. c \<noteq> 10" "32 # p @ 32 # rest", OF nl(1)]
      takeWhile_append2 [of p "\<lambda>c. c \<noteq> 10" "32 # rest", OF nl(2)] by (simp only: sp)
  then have "first_line (m @ 32 # p @ 32 # rest) = Some (m @ 32 # p @ 32 #
      (if length ?r < length rest \<and> ?r \<noteq> [] \<and> last ?r = 13 then butlast ?r else ?r))"
    by (cases "?r = []") (simp_all add: first_line_def Let_def butlast_append)
  then obtain r where "first_line (m @ 32 # p @ 32 # rest) = Some (m @ 32 # p @ 32 # r)" by blast
  moreover have "split_whitespace (m @ 32 # p @ 32 # r) = m # p # split_whitespace (32 # r)"
    using assms split_whitespace_word [of p "32 # r"] split_whitespace_word [of m "32 # p @ 32 # r"]
    by (simp add: split_whitespace_space ws(2))
  ultimately show ?thesis by (simp add: request_path_def)
qed

text \<open>a request whose first line starts with a method and a path is answered by its path alone: \<open>/health\<close> with
  the JSON snapshot, \<open>/metrics\<close> with the metrics text, both with status 200, anything else with 404;
  the response has exactly one blank line before the body and its \<open>Content-Length\<close> is the length of
  the body in bytes.\<close>

theorem health_routes:
  assumes "m \<noteq> []" "p \<noteq> []" "\<forall>c \<in> set m \<union> set p. \<not> white_space c"
  shows "\<exists>status head len body. health_connection to_string registry (Some (m @ 32 # p @ 32 # rest)) =
      Some (str_of ''HTTP/1.1 '' @ status @ [13, 10] @ head @ str_of ''Content-Length: '' @ len @ [13, 10, 13, 10] @ body) \<and>
    (\<forall>c \<in> set len. is_digit c) \<and> dec len = utf8_len body \<and>
    status = (if p \<in> {str_of ''/health'', str_of ''/metrics''} then str_of ''200 OK'' else str_of ''404 Not Found'') \<and>
    body = (if p = str_of ''/health'' then to_string (render_health registry)
      else if p = str_of ''/metrics'' then render_metrics (map snd registry) else str_of ''not found'')"
proof -
  have resp: "\<exists>head len. http_response status ct body =
      str_of ''HTTP/1.1 '' @ status @ [13, 10] @ head @ str_of ''Content-Length: '' @ len @ [13, 10, 13, 10] @ body \<and>
      (\<forall>c \<in> set len. is_digit c) \<and> dec len = utf8_len body" for status ct body
    using show_nat_digits [of "utf8_len body"] unfolding http_response_def
    by (intro exI [of _ "str_of ''Content-Type: '' @ ct @ [13, 10]"] exI [of _ "show_nat (utf8_len body)"]) simp
  have ne: "str_of ''/health'' \<noteq> str_of ''/metrics''" by (simp add: str_of_def)
  consider "p = str_of ''/health''" | "p = str_of ''/metrics''" | "p \<noteq> str_of ''/health''" "p \<noteq> str_of ''/metrics''" by blast
  then show ?thesis
  proof cases
    case 1
    then show ?thesis using resp request_path_words [OF assms, of rest] by (simp add: health_connection_def Let_def)
  next
    case 2
    then show ?thesis using resp request_path_words [OF assms, of rest] ne by (simp add: health_connection_def Let_def)
  next
    case 3
    then show ?thesis using resp request_path_words [OF assms, of rest] by (simp add: health_connection_def Let_def)
  qed
qed

theorem health_routes_witness:
  "\<exists>head len. health_connection (\<lambda>j. []) [] (Some (str_of ''GET /nope HTTP/1.0'')) =
    Some (str_of ''HTTP/1.1 '' @ str_of ''404 Not Found'' @ [13, 10] @ head @ str_of ''Content-Length: '' @ len @
      [13, 10, 13, 10] @ str_of ''not found'') \<and> dec len = 9"
proof -
  have "str_of ''GET'' \<noteq> []" "str_of ''/nope'' \<noteq> []"
    "\<forall>c \<in> set (str_of ''GET'') \<union> set (str_of ''/nope''). \<not> white_space c"
    by (simp_all add: str_of_def white_space_def)
  from health_routes [OF this, of "\<lambda>j. []" "[]" "str_of ''HTTP/1.0''"]
  have "\<exists>head len. health_connection (\<lambda>j. []) [] (Some (str_of ''GET'' @ 32 # str_of ''/nope'' @ 32 # str_of ''HTTP/1.0'')) =
    Some (str_of ''HTTP/1.1 '' @ str_of ''404 Not Found'' @ [13, 10] @ head @ str_of ''Content-Length: '' @ len @
      [13, 10, 13, 10] @ str_of ''not found'') \<and> dec len = utf8_len (str_of ''not found'')"
    by (simp add: str_of_def) blast
  moreover have "utf8_len (str_of ''not found'') = 9" by (simp add: utf8_len_def utf8_width_def str_of_def)
  moreover have "str_of ''GET /nope HTTP/1.0'' = str_of ''GET'' @ 32 # str_of ''/nope'' @ 32 # str_of ''HTTP/1.0''"
    by (simp add: str_of_def)
  ultimately show ?thesis by simp
qed

end
