(* ===== verification/Calibrate_Cli.thy ===== *)
theory Calibrate_Cli
  imports Calibrate_Stats Health
begin

text \<open>
  The command line and the three outputs of \<open>tools/calibrate/src/main.rs\<close>, and \<open>main\<close> itself. How Rust
  prints an \<open>f64\<close> (\<open>{}\<close> and \<open>{:.n}\<close>) and how \<open>serde_json\<close> prints a value are parameters; what is
  written to standard error is the constructor of the failure.
\<close>

subsection \<open>\<open>f64::from_str\<close>\<close>

definition take_sign :: "str \<Rightarrow> bool \<times> str" where
  "take_sign s = (case s of c # cs \<Rightarrow> if c = 45 then (True, cs) else if c = 43 then (False, cs) else (False, s)
     | [] \<Rightarrow> (False, []))"

text \<open>What may follow the digits: nothing, or an exponent that ends the text.\<close>

definition parse_exponent :: "str \<Rightarrow> int option" where
  "parse_exponent s = (case s of [] \<Rightarrow> Some 0
     | c # cs \<Rightarrow> if c \<noteq> 101 \<and> c \<noteq> 69 then None
         else (case take_sign cs of (neg, ds) \<Rightarrow>
           if ds = [] \<or> \<not> list_all is_digit ds then None
           else Some (if neg then - int (dec ds) else int (dec ds))))"

definition decimal_f64 :: "bool \<Rightarrow> nat \<Rightarrow> int \<Rightarrow> f64" where
  "decimal_f64 neg m e = Num neg (if 0 \<le> e then rnd_mag (m * 10 ^ nat e) 1 1074 else rnd_mag m (10 ^ nat (- e)) 1074)"

definition f64_from_str :: "str \<Rightarrow> f64 option" where
  "f64_from_str s =
     (case take_sign s of (neg, r) \<Rightarrow>
        let l = to_ascii_lowercase r
        in if l = str_of ''inf'' \<or> l = str_of ''infinity'' then Some (Num neg inf_mag)
           else if l = str_of ''nan'' then Some NaN
           else (let ip = takeWhile is_digit r; r1 = dropWhile is_digit r
                 in case (case r1 of c # cs \<Rightarrow> if c = 46 then (takeWhile is_digit cs, dropWhile is_digit cs) else ([], r1)
                          | [] \<Rightarrow> ([], [])) of
                      (fp, r2) \<Rightarrow> if ip = [] \<and> fp = [] then None
                        else map_option (\<lambda>e. decimal_f64 neg (dec (ip @ fp)) (e - int (length fp))) (parse_exponent r2)))"

subsection \<open>Arguments\<close>

datatype output_format = Table | Csv | Json_Format

datatype args_error =
    Usage
  | Missing_Value str
  | Bad_Value str str
  | Bad_Cdf_Window str
  | Unknown_Format str
  | Unknown_Flag str
  | Missing_Flag str

definition OutputFormat_from_str :: "str \<Rightarrow> args_error + output_format" where
  "OutputFormat_from_str s = (let l = to_ascii_lowercase s in
     if l = str_of ''table'' then Inr Table else if l = str_of ''csv'' then Inr Csv
     else if l = str_of ''json'' then Inr Json_Format else Inl (Unknown_Format l))"

text \<open>\<open>split(',')\<close>: always at least one piece.\<close>

fun split_on :: "nat \<Rightarrow> str \<Rightarrow> str list" where
  "split_on c [] = [[]]"
| "split_on c (d # s) = (if d = c then [] # split_on c s
     else case split_on c s of [] \<Rightarrow> [[d]] | p # ps \<Rightarrow> (d # p) # ps)"

definition parse_csv :: "(str \<Rightarrow> 'a option) \<Rightarrow> str \<Rightarrow> str \<Rightarrow> args_error + 'a list" where
  "parse_csv parse s flag = collect_results (map (\<lambda>x. case parse (trim x) of
     None \<Rightarrow> Inl (Bad_Value x flag) | Some v \<Rightarrow> Inr v) (split_on 44 s))"

definition parse_usize :: "str \<Rightarrow> usize option" where
  "parse_usize s = map_option unat (parse_u64 s)"

record calib_args =
  ca_file :: str
  ca_bucket_volumes :: "f64 list"
  ca_sigma_windows :: "usize list"
  ca_vpin_windows :: "usize list"
  ca_cdf_window :: "usize option"
  ca_format :: output_format

text \<open>The options seen so far.\<close>

record calib_options =
  co_bucket_volumes :: "f64 list option"
  co_sigma_windows :: "usize list option"
  co_vpin_windows :: "usize list option"
  co_cdf_window :: "usize option"
  co_format :: output_format

definition set_flag :: "str \<Rightarrow> str \<Rightarrow> calib_options \<Rightarrow> args_error + calib_options" where
  "set_flag flag v opts =
     (if flag = str_of ''--bucket-volumes''
        then result_bind (parse_csv f64_from_str v flag) (\<lambda>xs. Inr (opts\<lparr>co_bucket_volumes := Some xs\<rparr>))
      else if flag = str_of ''--sigma-windows''
        then result_bind (parse_csv parse_usize v flag) (\<lambda>xs. Inr (opts\<lparr>co_sigma_windows := Some xs\<rparr>))
      else if flag = str_of ''--vpin-windows''
        then result_bind (parse_csv parse_usize v flag) (\<lambda>xs. Inr (opts\<lparr>co_vpin_windows := Some xs\<rparr>))
      else if flag = str_of ''--cdf-window''
        then (case parse_usize v of None \<Rightarrow> Inl (Bad_Cdf_Window v) | Some n \<Rightarrow> Inr (opts\<lparr>co_cdf_window := Some n\<rparr>))
      else if flag = str_of ''--format''
        then result_bind (OutputFormat_from_str v) (\<lambda>f. Inr (opts\<lparr>co_format := f\<rparr>))
      else Inl (Unknown_Flag flag))"

fun parse_flags :: "str list \<Rightarrow> calib_options \<Rightarrow> args_error + calib_options" where
  "parse_flags [] opts = Inr opts"
| "parse_flags [flag] opts = Inl (Missing_Value flag)"
| "parse_flags (flag # v # args) opts = result_bind (set_flag flag v opts) (parse_flags args)"

definition required :: "str \<Rightarrow> 'a option \<Rightarrow> args_error + 'a" where
  "required flag v = (case v of None \<Rightarrow> Inl (Missing_Flag flag) | Some x \<Rightarrow> Inr x)"

definition calib_parse_args :: "str list \<Rightarrow> args_error + calib_args" where
  "calib_parse_args args =
     (case args of [] \<Rightarrow> Inl Usage
      | file # flags \<Rightarrow>
          result_bind (parse_flags flags \<lparr>co_bucket_volumes = None, co_sigma_windows = None, co_vpin_windows = None,
            co_cdf_window = None, co_format = Table\<rparr>) (\<lambda>opts.
          result_bind (required (str_of ''--bucket-volumes'') (co_bucket_volumes opts)) (\<lambda>bvs.
          result_bind (required (str_of ''--sigma-windows'') (co_sigma_windows opts)) (\<lambda>sws.
          result_bind (required (str_of ''--vpin-windows'') (co_vpin_windows opts)) (\<lambda>vws.
            Inr \<lparr>ca_file = file, ca_bucket_volumes = bvs, ca_sigma_windows = sws, ca_vpin_windows = vws,
                 ca_cdf_window = co_cdf_window opts, ca_format = co_format opts\<rparr>)))))"

subsection \<open>Output\<close>

text \<open>\<open>Display\<close> of \<open>VpinError\<close> (\<open>crates/vpin-engine/src/error.rs\<close>).\<close>

fun vpin_error_text :: "(f64 \<Rightarrow> str) \<Rightarrow> vpin_error \<Rightarrow> str" where
  "vpin_error_text show_f64 (InvalidBucketVolume v) =
     str_of ''bucket target volume must be finite and positive, got '' @ show_f64 v"
| "vpin_error_text show_f64 (InvalidWindow got least) =
     str_of ''window size must be at least '' @ show_nat least @ str_of '', got '' @ show_nat got"
| "vpin_error_text show_f64 (InvalidConfidenceLevel l) =
     str_of ''confidence level must be in (0, 1) exclusive, got '' @ show_f64 l"
| "vpin_error_text show_f64 (InvalidBootstrapSamples got least) =
     str_of ''bootstrap sample count must be at least '' @ show_nat least @ str_of '', got '' @ show_nat got"

text \<open>\<open>{:>w}\<close>, and the table; \<open>fixed n\<close> is \<open>{:.n}\<close>.\<close>

definition pad_left :: "nat \<Rightarrow> str \<Rightarrow> str" where
  "pad_left w s = replicate (w - length s) 32 @ s"

definition format_p_value :: "(nat \<Rightarrow> f64 \<Rightarrow> str) \<Rightarrow> f64 \<Rightarrow> str" where
  "format_p_value fixed p = (if f64_is_nan p then str_of ''-'' else fixed 4 p)"

fun join_with :: "nat \<Rightarrow> str list \<Rightarrow> str" where
  "join_with c [] = []"
| "join_with c [f] = f"
| "join_with c (f # g # fs) = f @ c # join_with c (g # fs)"

definition table_cells :: "(nat \<times> str) list \<Rightarrow> str" where
  "table_cells cells = join_with 32 (map (\<lambda>(w, s). pad_left w s) cells)"

definition table_row :: "(nat \<Rightarrow> f64 \<Rightarrow> str) \<Rightarrow> (f64 \<Rightarrow> str) \<Rightarrow> sweep_result \<Rightarrow> str" where
  "table_row fixed show_f64 r =
     (case sw_stats r of
        Inr s \<Rightarrow> table_cells
          [(14, fixed 4 (st_bucket_volume s)), (12, show_nat (st_sigma_window s)), (11, show_nat (st_vpin_window s)),
           (14, show_u64 (st_total_buckets s)), (16, show_u64 (st_non_warmup_readings s)),
           (10, fixed 4 (st_vpin_mean s)), (10, fixed 4 (st_vpin_min s)), (10, fixed 4 (st_vpin_max s)),
           (10, fixed 4 (st_vpin_stddev s)), (18, fixed 1 (st_avg_bucket_interval_ms s)),
           (12, fixed 4 (st_bvc_accuracy s)), (10, fixed 4 (st_bvc_mean_abs_error s)),
           (8, show_u64 (st_bvc_compared s)), (12, format_p_value fixed (st_bvc_accuracy_p_value s))]
      | Inl e \<Rightarrow> table_cells [(14, fixed 4 (sw_bucket_volume r)), (12, show_nat (sw_sigma_window r)),
           (11, show_nat (sw_vpin_window r))] @ str_of ''  invalid config: '' @ vpin_error_text show_f64 e)"

definition print_table :: "(nat \<Rightarrow> f64 \<Rightarrow> str) \<Rightarrow> (f64 \<Rightarrow> str) \<Rightarrow> nat \<Rightarrow> str \<Rightarrow> sweep_result list \<Rightarrow> str" where
  "print_table fixed show_f64 trades_len file results =
     writeln (str_of ''loaded '' @ show_nat trades_len @ str_of '' trades from '' @ file) @ writeln [] @
     writeln (table_cells (map (\<lambda>(w, s). (w, str_of s))
       [(14, ''bucket_volume''), (12, ''sigma_window''), (11, ''vpin_window''), (14, ''total_buckets''),
        (16, ''non_warmup_reads''), (10, ''vpin_mean''), (10, ''vpin_min''), (10, ''vpin_max''), (10, ''vpin_std''),
        (18, ''avg_interval_ms''), (12, ''bvc_accuracy''), (10, ''bvc_mae''), (8, ''bvc_n''), (12, ''bvc_p_value'')])) @
     concat (map (\<lambda>r. writeln (table_row fixed show_f64 r)) results) @ writeln [] @
     writeln (str_of (''bvc_accuracy: fraction of buckets where BVC's buy/sell majority call matched the '' @
       ''real taker-side majority (by volume).'')) @
     writeln (str_of (''bvc_mae: mean |BVC's buy_fraction - true buy_fraction| across compared buckets. '' @
       ''Both NaN if sigma never warmed up.'')) @
     writeln (str_of (''bvc_p_value: two-proportion z-test p-value vs. the sweep's best bvc_accuracy. '' @
       ''\"-\" for the best config itself, or under 30 compared buckets on either side.''))"

definition csv_escape :: "str \<Rightarrow> str" where
  "csv_escape s = (if 44 \<in> set s \<or> 34 \<in> set s \<or> 10 \<in> set s
     then [34] @ concat (map (\<lambda>c. if c = 34 then [34, 34] else [c]) s) @ [34] else s)"

definition csv_f64 :: "(f64 \<Rightarrow> str) \<Rightarrow> f64 \<Rightarrow> str" where
  "csv_f64 show_f64 x = (if f64_is_nan x then str_of ''NaN'' else show_f64 x)"

definition CSV_HEADER :: str where
  "CSV_HEADER = str_of (''bucket_volume,sigma_window,vpin_window,total_buckets,non_warmup_readings,vpin_mean,vpin_min,'' @
     ''vpin_max,vpin_stddev,avg_bucket_interval_ms,bvc_accuracy,bvc_mean_abs_error,bvc_compared,bvc_accuracy_p_value,error'')"

definition csv_row :: "(f64 \<Rightarrow> str) \<Rightarrow> sweep_result \<Rightarrow> str list" where
  "csv_row show_f64 r =
     (case sw_stats r of
        Inr s \<Rightarrow>
          [show_f64 (st_bucket_volume s), show_nat (st_sigma_window s), show_nat (st_vpin_window s),
           show_u64 (st_total_buckets s), show_u64 (st_non_warmup_readings s),
           csv_f64 show_f64 (st_vpin_mean s), csv_f64 show_f64 (st_vpin_min s), csv_f64 show_f64 (st_vpin_max s),
           csv_f64 show_f64 (st_vpin_stddev s), csv_f64 show_f64 (st_avg_bucket_interval_ms s),
           csv_f64 show_f64 (st_bvc_accuracy s), csv_f64 show_f64 (st_bvc_mean_abs_error s),
           show_u64 (st_bvc_compared s), csv_f64 show_f64 (st_bvc_accuracy_p_value s), []]
      | Inl e \<Rightarrow>
          [show_f64 (sw_bucket_volume r), show_nat (sw_sigma_window r), show_nat (sw_vpin_window r)] @
          replicate 11 [] @ [csv_escape (vpin_error_text show_f64 e)])"

definition print_csv :: "(f64 \<Rightarrow> str) \<Rightarrow> sweep_result list \<Rightarrow> str" where
  "print_csv show_f64 results = writeln CSV_HEADER @
     concat (map (\<lambda>r. writeln (join_with 44 (csv_row show_f64 r))) results)"

text \<open>\<open>json!\<close> of an \<open>f64\<close> is null when it is not finite, as is \<open>json_f64\<close>.\<close>

definition json_f64 :: "f64 \<Rightarrow> json" where
  "json_f64 x = (if f64_is_finite x then JFloat x else JNull)"

definition stats_to_json :: "(f64 \<Rightarrow> str) \<Rightarrow> sweep_result \<Rightarrow> json" where
  "stats_to_json show_f64 r =
     (case sw_stats r of
        Inr s \<Rightarrow> JObject
          [(str_of ''bucket_volume'', json_f64 (st_bucket_volume s)),
           (str_of ''sigma_window'', JCount (st_sigma_window s)),
           (str_of ''vpin_window'', JCount (st_vpin_window s)),
           (str_of ''total_buckets'', JNumber (st_total_buckets s)),
           (str_of ''non_warmup_readings'', JNumber (st_non_warmup_readings s)),
           (str_of ''vpin_mean'', json_f64 (st_vpin_mean s)),
           (str_of ''vpin_min'', json_f64 (st_vpin_min s)),
           (str_of ''vpin_max'', json_f64 (st_vpin_max s)),
           (str_of ''vpin_stddev'', json_f64 (st_vpin_stddev s)),
           (str_of ''avg_bucket_interval_ms'', json_f64 (st_avg_bucket_interval_ms s)),
           (str_of ''bvc_accuracy'', json_f64 (st_bvc_accuracy s)),
           (str_of ''bvc_mean_abs_error'', json_f64 (st_bvc_mean_abs_error s)),
           (str_of ''bvc_compared'', JNumber (st_bvc_compared s)),
           (str_of ''bvc_accuracy_p_value'', json_f64 (st_bvc_accuracy_p_value s)),
           (str_of ''error'', JNull)]
      | Inl e \<Rightarrow> JObject
          [(str_of ''bucket_volume'', json_f64 (sw_bucket_volume r)),
           (str_of ''sigma_window'', JCount (sw_sigma_window r)),
           (str_of ''vpin_window'', JCount (sw_vpin_window r)),
           (str_of ''error'', JString (vpin_error_text show_f64 e))])"

text \<open>\<open>pretty\<close> is \<open>serde_json::to_string_pretty\<close>; its error goes to standard error.\<close>

definition print_json :: "(f64 \<Rightarrow> str) \<Rightarrow> (json list \<Rightarrow> str option) \<Rightarrow> sweep_result list \<Rightarrow> str" where
  "print_json show_f64 pretty results = (case pretty (map (stats_to_json show_f64) results) of
     None \<Rightarrow> [] | Some txt \<Rightarrow> writeln txt)"

subsection \<open>\<open>main\<close>\<close>

datatype calib_failure = Bad_Args args_error | Load_Failed load_trades_error | Zero_Trades str

record calib_world =
  cw_erf :: "f64 \<Rightarrow> f64"
  cw_show_f64 :: "f64 \<Rightarrow> str"
  cw_pretty :: "json list \<Rightarrow> str option"
  cw_fixed :: "nat \<Rightarrow> f64 \<Rightarrow> str"
  cw_file :: "str \<Rightarrow> capture_file"

definition calib_output :: "calib_world \<Rightarrow> calib_args \<Rightarrow> nat \<Rightarrow> sweep_result list \<Rightarrow> str" where
  "calib_output w args n results = (case ca_format args of
       Table \<Rightarrow> print_table (cw_fixed w) (cw_show_f64 w) n (ca_file args) results
     | Csv \<Rightarrow> print_csv (cw_show_f64 w) results
     | Json_Format \<Rightarrow> print_json (cw_show_f64 w) (cw_pretty w) results)"

text \<open>Standard output on success; \<open>None\<close> would be a panic of the sweep.\<close>

definition calibrate_main :: "calib_world \<Rightarrow> ('p, 'q, 's) feedhandler \<Rightarrow> str list \<Rightarrow> (calib_failure + str) option" where
  "calibrate_main w fh raw =
     (case calib_parse_args raw of Inl e \<Rightarrow> Some (Inl (Bad_Args e))
      | Inr args \<Rightarrow>
          (case load_trades fh (ca_file args) (cw_file w (ca_file args)) of
             Inl e \<Rightarrow> Some (Inl (Load_Failed e))
           | Inr trades \<Rightarrow>
               if trades = [] then Some (Inl (Zero_Trades (ca_file args)))
               else map_option (\<lambda>results. Inr (calib_output w args (length trades) results))
                 (run_sweep (cw_erf w) trades (ca_bucket_volumes args) (ca_sigma_windows args)
                    (ca_vpin_windows args) (ca_cdf_window args))))"

subsection \<open>From the recorder to the report\<close>

lemma collect_results_map:
  "collect_results (map (\<lambda>x. Inr (f x)) xs) = Inr (map f xs)"
  "collect_results (map (\<lambda>x. Inr (f x)) xs @ Inl e # rs) = Inl e"
  by (induction xs) simp_all

lemma load_trades_cut:
  assumes "feedhandler_laws fh" "k \<le> length (stream fh ts)" "no_failure reads" "bytes_of reads = take k (stream fh ts)"
  shows "load_trades fh path (Inr (header_bytes @ take k (stream fh ts), reads)) =
    (if k mod RECORD_SIZE = 0 then Inr (map (calib_trade_of fh) (take (k div RECORD_SIZE) ts))
     else Inl (Reading_Tape path (TruncatedRecord (k mod RECORD_SIZE))))"
proof -
  have r: "read_all fh reads = map Inr (take (k div RECORD_SIZE) ts) @
      (if k mod RECORD_SIZE = 0 then [] else [Inl (TruncatedRecord (k mod RECORD_SIZE))])"
    using read_all_frames [OF assms(3), of fh] trade_codec.frames_prefix [of ts fh k] assms(1,2,4) by simp
  have o: "TradeReader_open (header_bytes @ take k (stream fh ts)) = Inr (take k (stream fh ts))"
    using read_header_ok [of "header_bytes @ take k (stream fh ts)"] by (simp add: TradeReader_open_def)
  have c: "collect_results (map (map_sum id (calib_trade_of fh)) (read_all fh reads)) =
      (if k mod RECORD_SIZE = 0 then Inr (map (calib_trade_of fh) (take (k div RECORD_SIZE) ts))
       else Inl (TruncatedRecord (k mod RECORD_SIZE)))"
    by (simp add: r comp_def collect_results_map)
  show ?thesis by (simp add: load_trades_def o c split: if_splits)
qed

lemma run_sweep_total: "\<exists>rows. run_sweep erf trades bvs sws vws cdf = Some rows"
  by (rule run_sweep_cases [where erf = erf and trades = trades and cdf = cdf and bvs = bvs and sws = sws and vws = vws]) blast+

text \<open>C11: end to end from the recorder to the report: whatever prefix of a recorded tape is on disk and
  however its reads are cut up, a run with valid arguments sweeps exactly the recorded trades and prints
  their rows; a tape that ends inside a record is refused with the number of stray bytes instead of being
  swept in part, an empty one is refused, and nothing panics.\<close>

theorem calibrate_recorded:
  assumes "feedhandler_laws fh" "calib_parse_args raw = Inr args"
    and "k \<le> length (stream fh ts)" "no_failure reads" "bytes_of reads = take k (stream fh ts)"
    and "cw_file w (ca_file args) = Inr (header_bytes @ take k (stream fh ts), reads)"
  shows "\<exists>rows. calibrate_main w fh raw = Some
      (if k mod RECORD_SIZE \<noteq> 0 then Inl (Load_Failed (Reading_Tape (ca_file args) (TruncatedRecord (k mod RECORD_SIZE))))
       else if take (k div RECORD_SIZE) ts = [] then Inl (Zero_Trades (ca_file args))
       else Inr (calib_output w args (length (take (k div RECORD_SIZE) ts)) rows)) \<and>
    run_sweep (cw_erf w) (map (calib_trade_of fh) (take (k div RECORD_SIZE) ts)) (ca_bucket_volumes args)
      (ca_sigma_windows args) (ca_vpin_windows args) (ca_cdf_window args) = Some rows"
proof -
  obtain rows where "run_sweep (cw_erf w) (map (calib_trade_of fh) (take (k div RECORD_SIZE) ts)) (ca_bucket_volumes args)
      (ca_sigma_windows args) (ca_vpin_windows args) (ca_cdf_window args) = Some rows" using run_sweep_total by blast
  then show ?thesis unfolding calibrate_main_def assms(2,6) sum.case
      load_trades_cut [OF assms(1,3-5)] by simp
qed

definition world_small :: "u8 list \<Rightarrow> calib_world" where
  "world_small body = \<lparr>cw_erf = erf_sign, cw_show_f64 = (\<lambda>x. str_of ''0''), cw_pretty = (\<lambda>js. None),
     cw_fixed = (\<lambda>n x. str_of ''0''), cw_file = (\<lambda>p. Inr (header_bytes @ body, [Chunk body]))\<rparr>"

definition raw_small :: "str list" where
  "raw_small = [str_of ''t.cap'', str_of ''--bucket-volumes'', str_of ''1'', str_of ''--sigma-windows'', str_of ''2,3'',
     str_of ''--vpin-windows'', str_of '' 1'', str_of ''--format'', str_of ''CSV'']"

lemma raw_small_args: "calib_parse_args raw_small = Inr \<lparr>ca_file = str_of ''t.cap'', ca_bucket_volumes = [f64_one],
    ca_sigma_windows = [2, 3], ca_vpin_windows = [1], ca_cdf_window = None, ca_format = Csv\<rparr>"
proof -
  have "f64_from_str [49] = Some f64_one"
    by (simp add: f64_from_str_def take_sign_def str_of_def ascii_lower_def is_digit_def parse_exponent_def
        decimal_f64_def f64_eval)
  moreover have "parse_usize [49] = Some 1" "parse_usize [50] = Some 2" "parse_usize [51] = Some 3"
    using parse_u64_digits [of "[49]"] parse_u64_digits [of "[50]"] parse_u64_digits [of "[51]"]
    by (simp_all add: parse_usize_def is_digit_def)
  moreover have "trim [49] = [49]" "trim [32, 49] = [49]" "trim [50] = [50]" "trim [51] = [51]"
    by (simp_all add: trim_def white_space_def)
  ultimately show ?thesis
    by (simp add: calib_parse_args_def raw_small_def set_flag_def parse_csv_def required_def OutputFormat_from_str_def
        str_of_def ascii_lower_def)
qed

theorem calibrate_recorded_witness:
  "\<exists>rows. calibrate_main (world_small (stream fh_words [trade1])) fh_words raw_small =
      Some (Inr (print_csv (\<lambda>x. str_of ''0'') rows)) \<and> length rows = 2 \<and>
    calibrate_main (world_small (take 20 (stream fh_words [trade1]))) fh_words raw_small =
      Some (Inl (Load_Failed (Reading_Tape (str_of ''t.cap'') (TruncatedRecord 20))))"
proof -
  let ?s = "stream fh_words [trade1]"
  have n: "length ?s = 58" by (rule length_stream1)
  have r: "no_failure [Chunk (take k ?s)]" "bytes_of [Chunk (take k ?s)] = take k ?s" if "0 < k" for k
    using that n by (auto simp: no_failure_def)
  have w: "cw_file (world_small b) p = Inr (header_bytes @ b, [Chunk b])" for b p by (simp add: world_small_def)
  have "length rows = 2" if "run_sweep erf_sign (map (calib_trade_of fh_words) [trade1]) [f64_one] [2, 3] [1] None = Some rows" for rows
    using that by - (rule run_sweep_cases [where erf = erf_sign and trades = "map (calib_trade_of fh_words) [trade1]" and
      cdf = None and bvs = "[f64_one]" and sws = "[2, 3]" and vws = "[1]"]; auto)
  moreover note calibrate_recorded [OF fh_words_laws raw_small_args _ r, where k = 58 and w = "world_small ?s"]
    calibrate_recorded [OF fh_words_laws raw_small_args _ r, where k = 20 and w = "world_small (take 20 ?s)"]
  ultimately show ?thesis using n by (auto simp: w calib_output_def world_small_def)
qed

subsection \<open>Reading the CSV back\<close>

text \<open>A reader of one line of quoted comma-separated values, the specification of the writer.\<close>

datatype csv_state = Field_Start | Bare | Quoted

fun csv_read :: "csv_state \<Rightarrow> str \<Rightarrow> str \<Rightarrow> str list" where
  "csv_read st acc [] = [acc]"
| "csv_read Field_Start acc (c # s) = (if c = 34 then csv_read Quoted [] s
     else if c = 44 then [] # csv_read Field_Start [] s else csv_read Bare [c] s)"
| "csv_read Bare acc (c # s) = (if c = 44 then acc # csv_read Field_Start [] s else csv_read Bare (acc @ [c]) s)"
| "csv_read Quoted acc (c # s) = (if c \<noteq> 34 then csv_read Quoted (acc @ [c]) s
     else case s of [] \<Rightarrow> [acc] | d # s' \<Rightarrow> if d = 34 then csv_read Quoted (acc @ [34]) s' else csv_read Bare acc s)"

definition plain_field :: "str \<Rightarrow> bool" where
  "plain_field s \<longleftrightarrow> 44 \<notin> set s \<and> 34 \<notin> set s \<and> 10 \<notin> set s"

lemma csv_read_bare: "44 \<notin> set f \<Longrightarrow> csv_read Bare acc (f @ 44 # s) = (acc @ f) # csv_read Field_Start [] s"
  "44 \<notin> set f \<Longrightarrow> csv_read Bare acc f = [acc @ f]"
  by (induction f arbitrary: acc) simp_all

lemma csv_read_plain:
  "plain_field f \<Longrightarrow> csv_read Field_Start [] (f @ 44 # s) = f # csv_read Field_Start [] s"
  "plain_field f \<Longrightarrow> csv_read Field_Start [] f = [f]"
  by (cases f; simp add: plain_field_def csv_read_bare)+

lemma csv_read_quoted: "csv_read Quoted acc (concat (map (\<lambda>c. if c = 34 then [34, 34] else [c]) f) @ [34]) = [acc @ f]"
  by (induction f arbitrary: acc) simp_all

lemma csv_read_escaped: "csv_read Field_Start [] (csv_escape f) = [f]"
  using csv_read_plain(2) [of f] csv_read_quoted [of "[]" f] by (simp add: csv_escape_def plain_field_def)

lemma csv_read_join:
  assumes "\<forall>f \<in> set fs. plain_field f"
  shows "csv_read Field_Start [] (join_with 44 (fs @ [csv_escape e])) = fs @ [e]"
  using assms
proof (induction fs)
  case (Cons f fs)
  then have "join_with 44 ((f # fs) @ [csv_escape e]) = f @ 44 # join_with 44 (fs @ [csv_escape e])"
    by (cases "fs @ [csv_escape e]") simp_all
  then show ?case using Cons csv_read_plain(1) [of f] by simp
qed (simp add: csv_read_escaped)

text \<open>What the fields of a row mean.\<close>

definition row_numbers :: "(f64 \<Rightarrow> str) \<Rightarrow> sweep_result \<Rightarrow> str list" where
  "row_numbers show_f64 r = butlast (csv_row show_f64 r)"

definition row_error :: "(f64 \<Rightarrow> str) \<Rightarrow> sweep_result \<Rightarrow> str" where
  "row_error show_f64 r = (case sw_stats r of Inl e \<Rightarrow> vpin_error_text show_f64 e | Inr s \<Rightarrow> [])"

lemma plain_digits: "plain_field (show_nat n)" "plain_field (show_u64 k)"
  using show_nat_digits [of n] show_nat_digits [of "unat k"] by (force simp: plain_field_def show_u64_def is_digit_def)+

text \<open>C40: every line of the CSV output, read by the rules of quoted comma-separated values, has exactly
  the fifteen fields of the header: fourteen columns as printed (eleven of them empty in a row that was
  rejected) and the rejection's message, commas included, or nothing.\<close>

theorem csv_roundtrip:
  assumes "\<forall>x. plain_field (show_f64 x)"
  shows "csv_read Field_Start [] (join_with 44 (csv_row show_f64 r)) = row_numbers show_f64 r @ [row_error show_f64 r] \<and>
    length (row_numbers show_f64 r @ [row_error show_f64 r]) = length (csv_read Field_Start [] CSV_HEADER)"
proof -
  have f: "plain_field (csv_f64 show_f64 x)" "plain_field []" for x
    using assms by (simp_all add: csv_f64_def plain_field_def str_of_def)
  have e: "csv_escape [] = []" by (simp add: csv_escape_def)
  have p: "\<forall>f \<in> set (row_numbers show_f64 r). plain_field f"
    using assms f plain_digits by (auto simp: row_numbers_def csv_row_def butlast_append split: sum.splits)
  have "csv_row show_f64 r = row_numbers show_f64 r @ [csv_escape (row_error show_f64 r)]"
    by (simp add: csv_row_def row_numbers_def row_error_def e butlast_append split: sum.splits)
  with csv_read_join [OF p] have "csv_read Field_Start [] (join_with 44 (csv_row show_f64 r)) =
      row_numbers show_f64 r @ [row_error show_f64 r]" by simp
  moreover have "length (row_numbers show_f64 r) = 14" by (simp add: row_numbers_def csv_row_def split: sum.splits)
  moreover have "length (csv_read Field_Start [] CSV_HEADER) = 15" by (simp add: CSV_HEADER_def str_of_def)
  ultimately show ?thesis by simp
qed

theorem csv_roundtrip_witness:
  "csv_read Field_Start [] (join_with 44 (csv_row (\<lambda>x. str_of ''0'')
      \<lparr>sw_bucket_volume = f64_one, sw_sigma_window = 0, sw_vpin_window = 1, sw_stats = Inl (InvalidWindow 0 2)\<rparr>)) =
    [str_of ''0'', str_of ''0'', str_of ''1''] @ replicate 11 [] @ [str_of ''window size must be at least 2, got 0'']"
proof -
  have "\<forall>x. plain_field ((\<lambda>x. str_of ''0'') (x :: f64))" by (simp add: plain_field_def str_of_def)
  from csv_roundtrip [OF this, of "\<lparr>sw_bucket_volume = f64_one, sw_sigma_window = 0, sw_vpin_window = 1,
      sw_stats = Inl (InvalidWindow 0 2)\<rparr>"]
  show ?thesis by (simp add: row_numbers_def row_error_def csv_row_def str_of_def butlast_append show_nat.simps del: join_with.simps)
qed

subsection \<open>Numbers on the command line\<close>

lemma decimal_rounded:
  "rounded ((if neg then -1 else 1) * (real m * 10 powi e) * one_units) (decimal_f64 neg m e)"
proof (cases "0 \<le> e")
  case True
  have "real m * 10 powi e * one_units = qval (m * 10 ^ nat e) 1 1074"
    using True by (simp add: qval_def one_units_def power_int_def)
  from rnd_mag_signed [OF _ this, of neg] show ?thesis using True by (cases neg) (simp_all add: decimal_f64_def)
next
  case False
  define k where "k = nat (- e)"
  have e: "e = - int k" using False by (simp add: k_def)
  have p: "(10::real) powi e = 1 / 10 ^ k" by (simp add: e power_int_minus divide_inverse)
  have "qval m (10 ^ k) 1074 = real m / 10 ^ k * one_units" by (simp add: qval_def one_units_def)
  then have "real m * 10 powi e * one_units = qval m (10 ^ nat (- e)) 1074" by (simp only: p k_def times_divide_eq_right mult_1_right)
  from rnd_mag_signed [OF _ this, of neg] show ?thesis using False by (cases neg) (simp_all add: decimal_f64_def)
qed

lemma digits_then:
  "\<forall>c \<in> set ds. is_digit c \<Longrightarrow> r = [] \<or> \<not> is_digit (hd r) \<Longrightarrow> takeWhile is_digit (ds @ r) = ds \<and> dropWhile is_digit (ds @ r) = r"
  by (induction ds) (cases r; auto)+

definition exponent_text :: "str \<Rightarrow> int \<Rightarrow> bool" where
  "exponent_text s e \<longleftrightarrow> s = [] \<and> e = 0 \<or> (\<exists>ds. ds \<noteq> [] \<and> (\<forall>c \<in> set ds. is_digit c) \<and>
     (s = 101 # ds \<and> e = int (dec ds) \<or> s = 101 # 45 # ds \<and> e = - int (dec ds)))"

lemma parse_exponent_text: "exponent_text s e \<Longrightarrow> parse_exponent s = Some e \<and> (s = [] \<or> hd s = 101)"
  by (auto simp: exponent_text_def parse_exponent_def take_sign_def list_all_iff is_digit_def neq_Nil_conv)

lemma f64_from_str_text:
  assumes "\<forall>c \<in> set ip \<union> set fp. is_digit c" "ip \<noteq> [] \<or> fp \<noteq> []" "pm \<in> {[], [43], [45]}"
    "fpart = 46 # fp \<or> fpart = [] \<and> fp = []" "exponent_text expo e"
  shows "f64_from_str (pm @ ip @ fpart @ expo) = Some (decimal_f64 (pm = [45]) (dec (ip @ fp)) (e - int (length fp)))"
proof -
  note ex = parse_exponent_text [OF assms(5)]
  have d: "\<forall>c \<in> set ip. is_digit c" "\<forall>c \<in> set fp. is_digit c" using assms(1) by simp_all
  have nd: "expo = [] \<or> \<not> is_digit (hd expo)" "fpart @ expo = [] \<or> \<not> is_digit (hd (fpart @ expo))"
    using ex assms(4) by (auto simp: is_digit_def)
  obtain c cs where r: "ip @ fpart @ expo = c # cs" "is_digit c \<or> c = 46"
    using assms(2,4) d by (cases ip) auto
  have sg: "take_sign (pm @ ip @ fpart @ expo) = (pm = [45], ip @ fpart @ expo)"
    using assms(3) r by (auto simp: take_sign_def is_digit_def)
  have "ascii_lower c \<noteq> 105" "ascii_lower c \<noteq> 110" using r(2) by (auto simp: ascii_lower_def is_digit_def)
  then have l: "to_ascii_lowercase (ip @ fpart @ expo) \<notin> {str_of ''inf'', str_of ''infinity'', str_of ''nan''}"
    unfolding r(1) by (simp add: str_of_def)
  have f: "(case fpart @ expo of c # cs \<Rightarrow> if c = 46 then (takeWhile is_digit cs, dropWhile is_digit cs) else ([], fpart @ expo)
      | [] \<Rightarrow> ([], [])) = (fp, expo)"
    using assms(4) digits_then [OF d(2) nd(1)] ex by (auto split: list.splits)
  show ?thesis
    using l digits_then [OF d(1) nd(2)] assms(2) ex
    by (simp add: f64_from_str_def sg Let_def f del: map_append)
qed

text \<open>a decimal number on the command line, with or without sign, fraction and exponent, is never
  refused and is read as the \<open>f64\<close> nearest to the value it denotes, ties to even.\<close>

theorem f64_from_str_nearest:
  assumes "\<forall>c \<in> set ip \<union> set fp. is_digit c" "ip \<noteq> [] \<or> fp \<noteq> []" "pm \<in> {[], [43], [45]}"
    "fpart = 46 # fp \<or> fpart = [] \<and> fp = []" "exponent_text expo e"
  shows "\<exists>x. f64_from_str (pm @ ip @ fpart @ expo) = Some x \<and>
    rounded ((if pm = [45] then -1 else 1) * (real (dec (ip @ fp)) * 10 powi (e - int (length fp))) * one_units) x"
  using f64_from_str_text [OF assms] decimal_rounded [of "pm = [45]"] by simp

theorem f64_from_str_nearest_witness:
  "\<exists>x. f64_from_str (str_of ''-2.5e-1'') = Some x \<and> rounded (- 0.25 * one_units) x"
proof -
  have e: "exponent_text [101, 45, 49] (- 1)" by (auto simp: exponent_text_def is_digit_def)
  have d: "\<forall>c \<in> set [50] \<union> set [53]. is_digit c" by (simp add: is_digit_def)
  have n: "[50::nat] \<noteq> [] \<or> [53::nat] \<noteq> []" "[45::nat] \<in> {[], [43], [45]}" by simp_all
  from f64_from_str_nearest [OF d n disjI1 [OF refl] e]
  show ?thesis by (simp add: str_of_def power_int_def power2_eq_square)
qed

end
