(* ===== verification/Pipeline.thy ===== *)
theory Pipeline
  imports Service Ingest Calibrate_Cli
begin

text \<open>
  The adapters of \<open>crates/trade-ingest\<close>, the worker and the offline tools put together: what an adapter
  hands on is compared with a specification of the feed that knows nothing of sequence numbers, wrapped
  types and receive loops, only of the price, quantity and time texts on the wire. The locale \<open>venue_feed\<close>
  is what that needs of a venue's decoder; the three venues interpret it.
\<close>

subsection \<open>The feed\<close>

text \<open>What one print means to the engine: its two decimals as \<open>f64\<close> and its time in nanoseconds. A print with
  a malformed decimal means nothing.\<close>

definition wire_item :: "str \<Rightarrow> str \<Rightarrow> u64 \<Rightarrow> trade_in option" where
  "wire_item price qty time_ms = (case (parse_fixed8 price, parse_fixed8 qty) of
      (Inr p, Inr q) \<Rightarrow> Some (fixed8_to_f64 p, fixed8_to_f64 q, saturating_mul_u64 time_ms 1000000)
    | _ \<Rightarrow> None)"

text \<open>The prints of a session, in order, up to the first message that is malformed anywhere.\<close>

fun session_tape :: "(str \<Rightarrow> trade_in list option) \<Rightarrow> str list \<Rightarrow> trade_in list" where
  "session_tape prints [] = []"
| "session_tape prints (msg # msgs) = (case prints msg of None \<Rightarrow> [] | Some items \<Rightarrow> items @ session_tape prints msgs)"

text \<open>The messages a session reads before the peer, the socket or a failed write ends it.\<close>

fun session_texts :: "str option \<Rightarrow> 'b ws_event list \<Rightarrow> str list" where
  "session_texts app_ping [] = []"
| "session_texts app_ping (WsText msg # es) = msg # session_texts app_ping es"
| "session_texts app_ping (WsPing payload err # es) = (if err = None then session_texts app_ping es else [])"
| "session_texts app_ping (WsClose # es) = []"
| "session_texts app_ping (WsError e # es) = []"
| "session_texts app_ping (WsOther # es) = session_texts app_ping es"
| "session_texts app_ping (WsTick err # es) = (if app_ping = None \<or> err = None then session_texts app_ping es else [])"

definition script_texts :: "str option \<Rightarrow> str option \<Rightarrow> 'b session_script \<Rightarrow> str list" where
  "script_texts subscribe app_ping s =
     (if ss_connect_error s \<noteq> None \<or> subscribe \<noteq> None \<and> ss_subscribe_error s \<noteq> None then []
      else session_texts app_ping (ss_events s))"

definition feed_tape :: "(str \<Rightarrow> trade_in list option) \<Rightarrow> str option \<Rightarrow> str option \<Rightarrow> 'b session_script list \<Rightarrow> trade_in list" where
  "feed_tape prints subscribe app_ping scripts =
     concat (map (session_tape prints \<circ> script_texts subscribe app_ping) scripts)"

subsection \<open>What a decoder has to provide\<close>

locale venue_feed =
  fixes decode :: "str \<Rightarrow> u64 \<Rightarrow> (ingest_error + 'n list) \<times> u64"
    and prints :: "str \<Rightarrow> trade_in list option"
    and item :: "'n \<Rightarrow> trade_in"
  assumes decode_prints: "prints msg = (case fst (decode msg seq) of Inl e \<Rightarrow> None | Inr ts \<Rightarrow> Some (map item ts))"
begin

lemma deliver_open: "(\<forall>n. rx n) \<Longrightarrow> deliver rx ts sent = (sent @ ts, True)"
  by (induction ts arbitrary: sent) simp_all

lemma session_feed:
  assumes "\<forall>n. rx n"
  shows "map item (ad_sent (snd (session_loop decode rx app_ping es st))) =
    map item (ad_sent st) @ session_tape prints (session_texts app_ping es)"
proof (induction es arbitrary: st)
  case (Cons ev es)
  show ?case
  proof (cases ev)
    case (WsText msg)
    obtain r seq where d: "decode msg (ad_sequence st) = (r, seq)" by force
    show ?thesis
    proof (cases r)
      case (Inl e)
      then show ?thesis using decode_prints [of msg "ad_sequence st"] by (simp add: WsText d)
    next
      case (Inr ts)
      then have "prints msg = Some (map item ts)" using decode_prints [of msg "ad_sequence st"] by (simp add: d)
      then show ?thesis by (simp add: WsText d Inr deliver_open [OF assms] Cons.IH)
    qed
  qed (use Cons.IH in \<open>auto split: option.splits\<close>)
qed simp

lemma once_feed:
  assumes "\<forall>n. rx n"
  shows "map item (ad_sent (snd (run_once decode rx subscribe app_ping s st))) =
    map item (ad_sent st) @ session_tape prints (script_texts subscribe app_ping s)"
  by (auto simp: run_once_def script_texts_def Let_def session_feed [OF assms] split: option.splits)

lemma run_feed:
  assumes "\<forall>n. rx n"
  shows "map item (ad_sent (snd (run_adapter decode rx subscribe app_ping ss st))) =
    map item (ad_sent st) @ feed_tape prints subscribe app_ping ss"
proof (induction ss arbitrary: st)
  case (Cons s ss)
  obtain r st1 where o: "run_once decode rx subscribe app_ping s st = (r, st1)" by force
  show ?case using once_feed [OF assms, of subscribe app_ping s st] Cons [of "st1\<lparr>ad_backoff := snd (next_delay (ad_backoff st1))\<rparr>"]
    by (simp add: feed_tape_def o split_beta)
qed (simp add: feed_tape_def)

end

subsection \<open>The three venues\<close>

definition trade_item :: "('p, 'q, 's) feedhandler \<Rightarrow> ('p, 'q, 's) normalized_trade \<Rightarrow> trade_in" where
  "trade_item fh t = (fixed8_to_f64 (price_raw fh (nt_price t)), fixed8_to_f64 (qty_raw fh (nt_qty t)), nt_ts_exchange_ns t)"

text \<open>The same of a print as the adapters see it, through \<open>feedhandler\<close>'s wrappers.\<close>

definition wrapped_item :: "('p, 'q, 's) feedhandler \<Rightarrow> str \<Rightarrow> str \<Rightarrow> u64 \<Rightarrow> trade_in option" where
  "wrapped_item fh price qty time_ms = (case (parse_price fh price, parse_qty fh qty) of
      (Inr p, Inr q) \<Rightarrow> Some (fixed8_to_f64 (price_raw fh p), fixed8_to_f64 (qty_raw fh q), saturating_mul_u64 time_ms 1000000)
    | _ \<Rightarrow> None)"

lemma wrapped_item_wire: "feedhandler_laws fh \<Longrightarrow> wrapped_item fh = wire_item"
  by (auto simp: fun_eq_iff wrapped_item_def wire_item_def parse_price_def parse_qty_def feedhandler_laws_def
      split: sum.splits)

text \<open>What the messages of the venues mean, given what a print means.\<close>

type_synonym wire = "str \<Rightarrow> str \<Rightarrow> u64 \<Rightarrow> trade_in option"

definition binance_prints :: "wire \<Rightarrow> (str \<Rightarrow> str + agg_trade) \<Rightarrow> str \<Rightarrow> trade_in list option" where
  "binance_prints wire envelope msg = (case envelope msg of Inl e \<Rightarrow> None
    | Inr t \<Rightarrow> those [wire (agg_price t) (agg_qty t) (agg_trade_time_ms t)])"

definition bybit_prints :: "wire \<Rightarrow> (str \<Rightarrow> str + 'v) \<Rightarrow> ('v \<Rightarrow> bool) \<Rightarrow> ('v \<Rightarrow> str + str \<times> bybit_trade list) \<Rightarrow>
    str \<Rightarrow> trade_in list option" where
  "bybit_prints wire val topic envelope msg = (case val msg of Inl e \<Rightarrow> None
    | Inr v \<Rightarrow> if \<not> topic v then Some [] else (case envelope v of Inl e \<Rightarrow> None
      | Inr (name, prints) \<Rightarrow> if \<not> starts_with name (str_of ''publicTrade.'') then Some []
          else those (map (\<lambda>t. wire (by_price t) (by_qty t) (by_time_ms t)) prints)))"

definition hyperliquid_prints :: "wire \<Rightarrow> (str \<Rightarrow> str + str \<times> 'v) \<Rightarrow> ('v \<Rightarrow> str + ws_trade list) \<Rightarrow>
    str \<Rightarrow> trade_in list option" where
  "hyperliquid_prints wire envelope ws_trades msg = (case envelope msg of Inl e \<Rightarrow> None
    | Inr (channel, v) \<Rightarrow> if channel \<noteq> str_of ''trades'' then Some [] else (case ws_trades v of Inl e \<Rightarrow> None
      | Inr prints \<Rightarrow> those (map (\<lambda>t. wire (wt_px t) (wt_sz t) (wt_time t)) prints)))"

lemma make_trade_item:
  "wrapped_item fh price qty ms =
    (case make_trade fh clock symbol exch price qty ms side seq of Inl e \<Rightarrow> None | Inr t \<Rightarrow> Some (trade_item fh t))"
  by (auto simp: wrapped_item_def make_trade_def result_bind_def trade_item_def split: sum.splits)

lemma collect_trades_items:
  assumes "\<And>t seq. wire t = (case f t seq of Inl e \<Rightarrow> None | Inr x \<Rightarrow> Some (item x))"
  shows "those (map wire ts) = (case fst (collect_trades f ts seq) of Inl e \<Rightarrow> None | Inr xs \<Rightarrow> Some (map item xs))"
proof (induction ts arbitrary: seq)
  case (Cons t ts)
  show ?case using Cons [of "seq + 1"] assms [of t seq] by (auto split: sum.splits prod.splits)
qed simp

interpretation binance_feed: venue_feed "\<lambda>msg seq. one_trade (binance_decode envelope fh clock symbol msg seq)"
    "binance_prints (wrapped_item fh) envelope" "trade_item fh" for envelope fh clock symbol
proof unfold_locales
  show "binance_prints (wrapped_item fh) envelope msg =
      (case fst (one_trade (binance_decode envelope fh clock symbol msg seq)) of
        Inl e \<Rightarrow> None | Inr ts \<Rightarrow> Some (map (trade_item fh) ts))" for msg seq
  proof (cases "envelope msg")
    case (Inr t)
    show ?thesis
      using make_trade_item [of fh "agg_price t" "agg_qty t" "agg_trade_time_ms t" clock symbol Binance
          "if agg_buyer_is_maker t then Sell else Buy" seq]
      by (simp add: binance_prints_def binance_decode_def one_trade_def Inr split: sum.splits)
  qed (simp add: binance_prints_def binance_decode_def one_trade_def)
qed

interpretation bybit_feed: venue_feed "bybit_decode val topic envelope fh clock symbol"
    "bybit_prints (wrapped_item fh) val topic envelope" "trade_item fh" for val topic envelope fh clock symbol
proof unfold_locales
  fix msg seq
  let ?f = "\<lambda>t seq. make_trade fh clock symbol Bybit (by_price t) (by_qty t) (by_time_ms t) (bybit_side (by_side t)) seq"
  have c: "those (map (\<lambda>t. wrapped_item fh (by_price t) (by_qty t) (by_time_ms t)) ts) =
      (case fst (collect_trades ?f ts seq) of Inl e \<Rightarrow> None | Inr xs \<Rightarrow> Some (map (trade_item fh) xs))" for ts
    by (rule collect_trades_items) (rule make_trade_item)
  show "bybit_prints (wrapped_item fh) val topic envelope msg =
      (case fst (bybit_decode val topic envelope fh clock symbol msg seq) of
        Inl e \<Rightarrow> None | Inr ts \<Rightarrow> Some (map (trade_item fh) ts))"
    unfolding bybit_prints_def bybit_decode_def c by (simp split: sum.split prod.split)
qed

interpretation hyperliquid_feed: venue_feed "hyperliquid_decode envelope ws_trades fh clock symbol"
    "hyperliquid_prints (wrapped_item fh) envelope ws_trades" "trade_item fh" for envelope ws_trades fh clock symbol
proof unfold_locales
  fix msg seq
  let ?f = "\<lambda>t seq. make_trade fh clock symbol Hyperliquid (wt_px t) (wt_sz t) (wt_time t) (hyperliquid_side (wt_side t)) seq"
  have c: "those (map (\<lambda>t. wrapped_item fh (wt_px t) (wt_sz t) (wt_time t)) ts) =
      (case fst (collect_trades ?f ts seq) of Inl e \<Rightarrow> None | Inr xs \<Rightarrow> Some (map (trade_item fh) xs))" for ts
    by (rule collect_trades_items) (rule make_trade_item)
  show "hyperliquid_prints (wrapped_item fh) envelope ws_trades msg =
      (case fst (hyperliquid_decode envelope ws_trades fh clock symbol msg seq) of
        Inl e \<Rightarrow> None | Inr ts \<Rightarrow> Some (map (trade_item fh) ts))"
    unfolding hyperliquid_prints_def hyperliquid_decode_def c by (simp split: sum.split prod.split)
qed

subsection \<open>What an adapter hands on\<close>

text \<open>The JSON readers of the three venues, with \<open>'v\<close> for a parsed value, and the text of a subscription.\<close>

record 'v venue_json =
  vj_binance :: "str \<Rightarrow> str + agg_trade"
  vj_value :: "str \<Rightarrow> str + 'v"
  vj_has_topic :: "'v \<Rightarrow> bool"
  vj_bybit :: "'v \<Rightarrow> str + str \<times> bybit_trade list"
  vj_hyperliquid :: "str \<Rightarrow> str + str \<times> 'v"
  vj_ws_trades :: "'v \<Rightarrow> str + ws_trade list"
  vj_to_text :: "json \<Rightarrow> str"

text \<open>The \<open>match\<close> of \<open>spawn_stream\<close>: the adapter task of a stream.\<close>

definition stream_adapter :: "'v venue_json \<Rightarrow> ('p, 'q, 's) feedhandler \<Rightarrow> (u64 \<Rightarrow> u64) \<Rightarrow> (str \<Rightarrow> u8 list) \<Rightarrow>
    exchange \<Rightarrow> str \<Rightarrow> (nat \<Rightarrow> bool) \<Rightarrow> backoff_config \<Rightarrow> 'b session_script list \<Rightarrow>
    duration list \<times> (('p, 'q, 's) normalized_trade, 'b) adapter" where
  "stream_adapter json fh clock as_bytes exch symbol rx cfg scripts = (case exch of
      Binance \<Rightarrow> binance_run (vj_binance json) fh clock as_bytes symbol rx cfg scripts
    | Bybit \<Rightarrow> bybit_run (vj_value json) (vj_has_topic json) (vj_bybit json) (vj_to_text json)
        fh clock as_bytes symbol rx cfg scripts
    | Hyperliquid \<Rightarrow> hyperliquid_run (vj_hyperliquid json) (vj_ws_trades json) (vj_to_text json)
        fh clock as_bytes symbol rx cfg scripts)"

text \<open>The feed of a stream, without sequence numbers, wrapped types or receive loops.\<close>

definition venue_tape :: "'v venue_json \<Rightarrow> exchange \<Rightarrow> str \<Rightarrow> 'b session_script list \<Rightarrow> trade_in list" where
  "venue_tape json exch symbol scripts = (case exch of
      Binance \<Rightarrow> feed_tape (binance_prints wire_item (vj_binance json)) None None scripts
    | Bybit \<Rightarrow> feed_tape (bybit_prints wire_item (vj_value json) (vj_has_topic json) (vj_bybit json))
        (Some (vj_to_text json (bybit_subscription symbol))) (Some (str_of ''{\"op\":\"ping\"}'')) scripts
    | Hyperliquid \<Rightarrow> feed_tape (hyperliquid_prints wire_item (vj_hyperliquid json) (vj_ws_trades json))
        (Some (vj_to_text json (hyperliquid_subscription symbol))) (Some (str_of ''{\"method\":\"ping\"}'')) scripts)"

lemma adapter_tape:
  assumes "feedhandler_laws fh" "\<forall>n. rx n"
  shows "map (trade_item fh) (ad_sent (snd (stream_adapter json fh clock as_bytes exch symbol rx cfg scripts))) =
    venue_tape json exch symbol scripts"
  by (cases exch) (simp_all add: stream_adapter_def venue_tape_def binance_run_def bybit_run_def hyperliquid_run_def
      binance_feed.run_feed [OF assms(2)] bybit_feed.run_feed [OF assms(2)] hyperliquid_feed.run_feed [OF assms(2)]
      wrapped_item_wire [OF assms(1)] adapter_init_def)

text \<open>C10: an adapter whose receiver stays hands on exactly the feed: for each venue and any sequence of
  sessions, with any failed connects and subscriptions, pings, closes, socket errors and malformed messages,
  the prices, quantities and times of the trades it sends are those of the prints on the wire, every print of
  every message a session reads before it ends once and in order, up to the session's first message that is
  malformed anywhere, of which no print is handed on.\<close>

theorem feed_exact:
  assumes "feedhandler_laws fh"
  shows "map (trade_item fh) (ad_sent (snd (stream_adapter json fh clock as_bytes exch symbol (\<lambda>n. True) cfg scripts))) =
    venue_tape json exch symbol scripts"
  using assms by (intro adapter_tape) simp_all

text \<open>A Bybit stream with one print, in one session that the peer closes.\<close>

definition json_small :: "unit venue_json" where
  "json_small = \<lparr>vj_binance = Inl, vj_value = (\<lambda>msg. Inr ()), vj_has_topic = (\<lambda>v. True),
     vj_bybit = (\<lambda>v. Inr (str_of ''publicTrade.BTC'',
       [\<lparr>by_time_ms = 3, by_side = str_of ''Buy'', by_price = str_of ''1'', by_qty = str_of ''2''\<rparr>])),
     vj_hyperliquid = Inl, vj_ws_trades = (\<lambda>v. Inr []), vj_to_text = (\<lambda>j. [])\<rparr>"

definition bybit_script :: "unit session_script" where
  "bybit_script = \<lparr>ss_connect_error = None, ss_subscribe_error = None, ss_events = [WsPing () None, WsText [], WsClose, WsText []]\<rparr>"

definition item_small :: trade_in where
  "item_small = (fixed8_to_f64 100000000, fixed8_to_f64 200000000, 3000000)"

lemma tape_small: "venue_tape json_small Bybit symbol [bybit_script] = [item_small]"
proof -
  have p: "parse_fixed8 [49] = Inr 100000000" "parse_fixed8 [50] = Inr 200000000"
    using parse_fixed8_decimal [of "[49]" None "[]" "[]"] parse_fixed8_decimal [of "[50]" None "[]" "[]"]
    by (simp_all add: is_digit_def frac_digits_def decimal_text_def fixed8_units_def)
  then show ?thesis
    by (simp add: venue_tape_def feed_tape_def script_texts_def json_small_def bybit_script_def bybit_prints_def
        starts_with_def str_of_def wire_item_def item_small_def saturating_mul_u64_def)
qed

theorem feed_exact_witness:
  "map (trade_item fh_words) (ad_sent (snd (stream_adapter json_small fh_words id (\<lambda>s. []) Bybit (str_of ''BTC'')
    (\<lambda>n. True) BackoffConfig_default [bybit_script]))) = [item_small]"
  using feed_exact [OF fh_words_laws, of json_small id "\<lambda>s. []" Bybit "str_of ''BTC''" BackoffConfig_default "[bybit_script]"]
  by (simp add: tape_small)

text \<open>A worker fed from the adapter's channel: the trades among its events are the first ones sent.\<close>

fun trades_of :: "('p, 'q, 's) worker_event list \<Rightarrow> ('p, 'q, 's) normalized_trade list" where
  "trades_of [] = []"
| "trades_of (TradeReceived t # evs) = t # trades_of evs"
| "trades_of (_ # evs) = trades_of evs"

lemma tape_of_trades: "tape_of fh evs = map (trade_item fh) (trades_of evs)"
  by (induction fh evs rule: tape_of.induct) (simp_all add: trade_item_def)

lemma live_open: "ChannelClosed \<notin> set evs \<Longrightarrow> live evs = evs"
  by (induction evs rule: live.induct) auto

lemma worker_readings:
  assumes "worker_run erf fh exch symbol cfg heartbeat (StreamEntry_new exch symbol) evs = Some entry"
  shows "\<exists>engine engine' rs. VpinEngine_new cfg = Inr engine \<and>
    engine_run erf engine (tape_of fh (live evs)) = Some (engine', rs) \<and>
    filter is_reading (se_sender entry) = map (reading_message exch symbol) rs"
proof -
  obtain engine where "VpinEngine_new cfg = Inr engine" "worker_loop erf fh exch symbol engine
      (update_health (\<lambda>h. h\<lparr>sh_worker_alive := True\<rparr>) (StreamEntry_new exch symbol)) evs = Some entry"
    using assms by (auto simp: worker_run_def worker_start_def split: sum.splits option.splits if_splits)
  note e = this
  show ?thesis using worker_loop_spec [OF e(2)] e(1) by (auto simp: published_def update_health_def StreamEntry_new_def)
qed

text \<open>A spawned worker fed by its adapter.\<close>

lemma pipeline_run:
  assumes "service_reachable cfg st" "t \<in> set (sv_spawned st)" "feedhandler_laws fh" "erf_range erf"
    and "config_bounded (tk_engine_cfg t)" "0 < cf_heartbeat_interval cfg" "ChannelClosed \<notin> set evs"
    and "trades_of evs = take n (ad_sent (snd (stream_adapter json fh clock as_bytes (tk_venue t) (tk_symbol t)
      (\<lambda>n. True) (tk_backoff_cfg t) scripts)))"
  shows "\<exists>entry engine' rs. worker_run erf fh exch (tk_symbol t) (tk_engine_cfg t) (tk_heartbeat t)
      (StreamEntry_new exch (tk_symbol t)) evs = Some entry \<and>
    engine_run erf (fresh_engine (tk_engine_cfg t)) (take n (venue_tape json (tk_venue t) (tk_symbol t) scripts)) = Some (engine', rs) \<and>
    filter is_reading (se_sender entry) = map (reading_message exch (tk_symbol t)) rs"
proof -
  note t = task_engine [OF assms(1,2)]
  obtain entry where w: "worker_run erf fh exch (tk_symbol t) (tk_engine_cfg t) (tk_heartbeat t)
      (StreamEntry_new exch (tk_symbol t)) evs = Some entry"
    using worker_run_safe [OF assms(4) t [THEN conjunct1] assms(5), of "tk_heartbeat t" fh exch "tk_symbol t" evs]
      t assms(6) by auto
  have "tape_of fh (live evs) = take n (venue_tape json (tk_venue t) (tk_symbol t) scripts)"
    unfolding live_open [OF assms(7)] tape_of_trades assms(8) take_map [symmetric]
    by (intro arg_cong [where f = "take n"] adapter_tape [OF assms(3)]) simp
  then show ?thesis using worker_readings [OF w] w t by auto
qed



text \<open>C8: replaying a recording is the live run: if a worker has taken the trades \<open>ts\<close>, and \<open>ts\<close> were also
  recorded, then loading the recording, however its reads are cut up, gives a tape on which an engine with the
  same configuration produces exactly the readings the worker broadcast; so what \<open>calibrate\<close> measures is what
  the service publishes.\<close>

theorem replay_equals_live:
  assumes "feedhandler_laws fh" "no_failure reads" "bytes_of reads = stream fh (trades_of evs)" "ChannelClosed \<notin> set evs"
    and "worker_run erf fh exch symbol cfg heartbeat (StreamEntry_new exch symbol) evs = Some entry"
  shows "\<exists>trades engine engine' rs.
    load_trades fh path (Inr (header_bytes @ stream fh (trades_of evs), reads)) = Inr trades \<and>
    VpinEngine_new cfg = Inr engine \<and> engine_run erf engine (map tape_in trades) = Some (engine', rs) \<and>
    filter is_reading (se_sender entry) = map (reading_message exch symbol) rs"
proof -
  let ?ts = "trades_of evs"
  have n: "length (stream fh ts) = length ts * RECORD_SIZE" for ts :: "('a, 'b, 'c) normalized_trade list"
    by (induction ts) (simp_all add: record_bytes_length [OF assms(1)])
  have l: "load_trades fh path (Inr (header_bytes @ stream fh ?ts, reads)) = Inr (map (calib_trade_of fh) ?ts)"
    using load_trades_cut [OF assms(1) le_refl assms(2), of ?ts path] assms(3) by (simp add: n)
  have "map tape_in (map (calib_trade_of fh) ?ts) = tape_of fh (live evs)"
    by (simp add: live_open [OF assms(4)] tape_of_trades comp_def tape_in_def calib_trade_of_def trade_item_def fixed8_to_f64_def)
  then show ?thesis using l worker_readings [OF assms(5)] by auto
qed

theorem replay_equals_live_witness:
  "\<exists>entry trades engine' rs. worker_run erf_sign fh_words (str_of ''bybit'') (str_of ''BTC'') cfg_small (secs 5)
      (StreamEntry_new (str_of ''bybit'') (str_of ''BTC'')) [TradeReceived trade1, HeartbeatTick 7] = Some entry \<and>
    load_trades fh_words [] (Inr (header_bytes @ stream fh_words [trade1],
      [Chunk (take 5 (stream fh_words [trade1])), Interrupted, Chunk (drop 5 (stream fh_words [trade1]))])) = Inr trades \<and>
    engine_run erf_sign (fresh_engine cfg_small) (map tape_in trades) = Some (engine', rs) \<and>
    filter is_reading (se_sender entry) = map (reading_message (str_of ''bybit'') (str_of ''BTC'')) rs"
proof -
  let ?s = "stream fh_words [trade1]"
  let ?reads = "[Chunk (take 5 ?s), Interrupted, Chunk (drop 5 ?s)]"
  let ?evs = "[TradeReceived trade1, HeartbeatTick 7]"
  obtain entry where w: "worker_run erf_sign fh_words (str_of ''bybit'') (str_of ''BTC'') cfg_small (secs 5)
      (StreamEntry_new (str_of ''bybit'') (str_of ''BTC'')) ?evs = Some entry"
    using worker_run_safe [OF erf_sign_range cfg_small_new cfg_small_ok(2), of "secs 5" fh_words "str_of ''bybit''"
        "str_of ''BTC''" ?evs] by auto
  have l: "length ?s = 58" by (rule length_stream1)
  have "length (take 5 ?s) = 5" "length (drop 5 ?s) = 53" unfolding length_take length_drop l by simp_all
  then have "take 5 ?s \<noteq> []" "drop 5 ?s \<noteq> []" by (metis list.size(3) zero_neq_numeral)+
  then have f: "no_failure ?reads" by (simp only: no_failure_def list.set ball_simps read_event.case) simp
  have b: "bytes_of ?reads = stream fh_words (trades_of ?evs)" "ChannelClosed \<notin> set ?evs" by simp_all
  from replay_equals_live [OF fh_words_laws f b w, of "[]"] show ?thesis
    using w by (auto simp: cfg_small_new)
qed

subsection \<open>The decimals of the feed\<close>

lemma rounded_unique:
  assumes "rounded x (Num False a)" "rounded x (Num False b)" "a \<le> inf_mag" "b \<le> inf_mag"
  shows "a = b"
  using rounded_mono [OF assms(1,2)] rounded_mono [OF assms(2,1)] assms(3,4) by (simp add: f64_le_def min_def)

lemma rnd_mag_capped: "rnd_mag n d e \<le> inf_mag"
  by (simp add: rnd_mag_def)

lemma div_unsigned:
  assumes "f64_is_finite (Num False a)" "f64_is_finite (Num False b)" "uval (Num False b) \<noteq> 0"
  shows "\<exists>c \<le> inf_mag. f64_div (Num False a) (Num False b) = Num False c"
proof -
  have "b \<noteq> 0" using assms(3) by (cases "b = 0") simp_all
  then show ?thesis using assms(1,2) by (simp add: rnd_mag_capped)
qed

lemma fixed8_nearest:
  assumes "n < 2 ^ 53"
  shows "fixed8_to_f64 (of_nat n) = decimal_f64 False n (- 8)"
proof -
  have u: "unat (of_nat n :: u64) = n" using assms by (simp add: unat_of_nat take_bit_nat_eq_self)
  let ?a = "f64_of_nat n" and ?d = "f64_of_nat 100000000"
  have v: "uval ?a = int n * 2 ^ 1074" "uval ?d = 100000000 * 2 ^ 1074"
    using assms uval_f64_of_nat [of n] uval_f64_of_nat [of 100000000] by simp_all
  have f: "f64_is_finite ?a" "f64_is_finite ?d" using assms f64_of_nat_finite by simp_all
  have "rounded (real_of_int (uval ?a) / uval ?d * one_units) (f64_div ?a ?d)"
    using f v(2) by (intro f64_div_rounded) simp_all
  moreover have "real_of_int (uval ?a) / uval ?d = real n * 10 powi (- 8)"
  proof -
    have p: "(10::real) powi (- 8) = 1 / 100000000" by (simp add: power_int_minus)
    have "real_of_int (int n * c) / real_of_int (100000000 * c) = real n / 100000000" if "c \<noteq> 0" for c
      using that by simp
    then show ?thesis unfolding v p by (metis mult.right_neutral power_not_zero times_divide_eq_right zero_neq_numeral)
  qed
  ultimately have r: "rounded (real n * 10 powi (- 8) * one_units) (fixed8_to_f64 (of_nat n))"
    by (simp add: fixed8_to_f64_def u)
  obtain b where b: "fixed8_to_f64 (of_nat n) = Num False b" "b \<le> inf_mag"
    using div_unsigned [OF f [unfolded f64_of_nat_def]] v(2) by (auto simp: fixed8_to_f64_def u f64_of_nat_def)
  obtain c where c: "decimal_f64 False n (- 8) = Num False c" "c \<le> inf_mag"
    by (simp add: decimal_f64_def rnd_mag_capped)
  show ?thesis using rounded_unique [OF _ _ b(2) c(2)] r decimal_rounded [of False n "- 8"] by (simp add: b c)
qed

text \<open>C35: the two readers of decimals in the repository agree: for a plain decimal text of at most eight
  decimals whose value in units of \<open>10 ^ (-8)\<close> is below \<open>2 ^ 53\<close> (about ninety million), the price the engine
  gets, parsed to a 64-bit fixed-point number and divided by \<open>1e8\<close>, is bit for bit the \<open>f64\<close> that parsing the
  text directly gives, the one nearest to the decimal: the detour through fixed point never rounds twice.\<close>

theorem decimal_as_parsed:
  assumes "digits i" "i \<noteq> []" "digits (frac_digits f)" "length (frac_digits f) \<le> 8" "fixed8_units i f < 2 ^ 53"
  shows "\<exists>x. f64_from_str (decimal_text i f) = Some x \<and> map_sum id fixed8_to_f64 (parse_fixed8 (decimal_text i f)) = Inr x"
proof -
  let ?d = "frac_digits f" and ?n = "fixed8_units i f"
  have "decimal_text i f = [] @ i @ (case f of None \<Rightarrow> [] | Some d \<Rightarrow> 46 # d) @ []"
    by (simp add: decimal_text_def split: option.split)
  moreover have "f64_from_str ([] @ i @ (case f of None \<Rightarrow> [] | Some d \<Rightarrow> 46 # d) @ []) =
      Some (decimal_f64 False (dec (i @ ?d)) (0 - int (length ?d)))"
  proof -
    have c: "\<forall>c \<in> set i \<union> set ?d. is_digit c" using assms(1,3) by blast
    have "(case f of None \<Rightarrow> [] | Some d \<Rightarrow> 46 # d) = 46 # ?d \<or> (case f of None \<Rightarrow> [] | Some d \<Rightarrow> 46 # d) = [] \<and> ?d = []"
      by (cases f) (simp_all add: frac_digits_def)
    from f64_from_str_text [OF c _ _ this, of "[]" "[]" 0] assms(2)
    show ?thesis by (simp add: exponent_text_def)
  qed
  ultimately have x: "f64_from_str (decimal_text i f) = Some (decimal_f64 False (dec (i @ ?d)) (- int (length ?d)))"
    by simp
  have p: "parse_fixed8 (decimal_text i f) = Inr (of_nat ?n)"
    using parse_fixed8_decimal [OF assms(1-4), of "[]" "[]"] assms(5) by simp
  have "decimal_f64 False (dec (i @ ?d)) (- int (length ?d)) = decimal_f64 False ?n (- 8)"
  proof -
    let ?k = "length ?d"
    have n: "?n = dec (i @ ?d) * 10 ^ (8 - ?k)"
    proof -
      have "(10::nat) ^ 8 = 10 ^ ?k * 10 ^ (8 - ?k)" using assms(4) by (simp flip: power_add)
      then show ?thesis unfolding fixed8_units_def dec_from_append dec_from_split [of "dec i"] by (simp only: algebra_simps)
    qed
    have e: "real (dec (i @ ?d)) * 10 powi (- int ?k) = real ?n * 10 powi (- 8)"
    proof -
      have "(10::real) powi (- int ?k) = 10 ^ (8 - ?k) * 10 powi (- 8)"
        using assms(4) by (simp add: power_int_minus field_simps flip: power_add)
      then show ?thesis by (simp add: n)
    qed
    obtain b c where b: "decimal_f64 False (dec (i @ ?d)) (- int ?k) = Num False b" "b \<le> inf_mag"
      "decimal_f64 False ?n (- 8) = Num False c" "c \<le> inf_mag"
      by (auto simp: decimal_f64_def rnd_mag_capped)
    show ?thesis
      using rounded_unique [OF _ _ b(2,4)] decimal_rounded [of False "dec (i @ ?d)" "- int ?k"] decimal_rounded [of False ?n "- 8"] e
      by (simp add: b)
  qed
  then show ?thesis using x p fixed8_nearest [OF assms(5)] by simp
qed

theorem decimal_as_parsed_witness:
  "\<exists>x. f64_from_str (str_of ''16578.53'') = Some x \<and> map_sum id fixed8_to_f64 (parse_fixed8 (str_of ''16578.53'')) = Inr x"
proof -
  let ?i = "str_of ''16578''" and ?f = "Some (str_of ''53'')"
  have "digits ?i" "?i \<noteq> []" "digits (frac_digits ?f)" "length (frac_digits ?f) \<le> 8" "fixed8_units ?i ?f < 2 ^ 53"
    by (simp_all add: str_of_def is_digit_def frac_digits_def fixed8_units_def)
  from decimal_as_parsed [OF this] show ?thesis by (simp add: decimal_text_def str_of_def)
qed

end
