(* ===== verification/Process.thy ===== *)
theory Process
  imports Server Health
begin

text \<open>
  The process of \<open>services/toxicity-service\<close>: \<open>main\<close> from its first statement to its end, the
  hot-reload loop over its ticks (\<open>main.rs\<close>), and the accept loop of the health endpoint (\<open>health.rs\<close>). The
  three tasks interleave: a run is the list of what happens, in the order it happens. The installation of
  the TLS provider and of the signal handlers are parameters, as they are library calls that may fail.
\<close>

subsection \<open>The hot-reload loop\<close>

text \<open>\<open>reads\<close> is what reading the streams file gives at each tick after the first, which is skipped. A zero
  interval is a panic of \<open>tokio::time::interval\<close>.\<close>

definition config_reload_loop :: "(str \<Rightarrow> str + stream_config list) \<Rightarrow> str \<Rightarrow> duration \<Rightarrow> duration \<Rightarrow>
    (str + str) list \<Rightarrow> service \<Rightarrow> service option" where
  "config_reload_loop json streams_file interval heartbeat_interval reads st =
     (if interval = 0 then None
      else Some (foldl (\<lambda>st r. reload_pass heartbeat_interval (load_streams (\<lambda>path. r) json streams_file) st) st reads))"

subsection \<open>The health endpoint's accept loop\<close>

text \<open>The connections it spawned; \<open>None\<close> when it could not bind and returned. A failed accept is passed over.\<close>

fun health_accepts :: "(str + 'peer) list \<Rightarrow> 'peer list" where
  "health_accepts [] = []"
| "health_accepts (Inl e # accepts) = health_accepts accepts"
| "health_accepts (Inr peer # accepts) = peer # health_accepts accepts"

definition health_run :: "str + unit \<Rightarrow> (str + 'peer) list \<Rightarrow> 'peer list option" where
  "health_run bound accepts = (case bound of Inl e \<Rightarrow> None | Inr _ \<Rightarrow> Some (health_accepts accepts))"

subsection \<open>Signals, and the select of \<open>main\<close>\<close>

datatype os_signal = Sigint | Sigterm | Other_Signal

text \<open>A handler that cannot be installed is a panic.\<close>

datatype signal_event = Install_Failed str | Arrived os_signal

datatype shutdown = Handler_Panic | Shutdown_On os_signal

fun shutdown_signal :: "signal_event list \<Rightarrow> shutdown option" where
  "shutdown_signal [] = None"
| "shutdown_signal (Install_Failed e # evs) = Some Handler_Panic"
| "shutdown_signal (Arrived s # evs) =
     (if s = Sigint \<or> s = Sigterm then Some (Shutdown_On s) else shutdown_signal evs)"

text \<open>How \<open>main\<close> ends: \<open>exit(1)\<close>, a panic, or a return; each ends every task of the process.\<close>

datatype main_exit = Exit_Code nat | Main_Panicked | Main_Returned

datatype 'peer main_event =
    Server_Part "'peer accept_event"
  | Signal_Part signal_event

text \<open>The two branches: the server's events and the signals, in the order they happen. The server future is
  dropped when the other branch is ready, before that branch runs.\<close>

fun server_parts :: "'peer main_event list \<Rightarrow> 'peer accept_event list" where
  "server_parts [] = []"
| "server_parts (Server_Part ev # evs) = ev # server_parts evs"
| "server_parts (Signal_Part ev # evs) = server_parts evs"

definition server_exit :: "service_error + unit \<Rightarrow> main_exit" where
  "server_exit result = (case result of Inl e \<Rightarrow> Exit_Code 1 | Inr _ \<Rightarrow> Main_Returned)"

fun select_loop :: "'peer main_event list \<Rightarrow> 'peer list \<times> main_exit option" where
  "select_loop [] = ([], None)"
| "select_loop (Server_Part ev # evs) =
     (case accept_loop [ev] of
        (peers, Some result) \<Rightarrow> (peers, Some (server_exit result))
      | (peers, None) \<Rightarrow> (case select_loop evs of (peers', x) \<Rightarrow> (peers @ peers', x)))"
| "select_loop (Signal_Part ev # evs) =
     (case shutdown_signal [ev] of
        Some Handler_Panic \<Rightarrow> ([], Some Main_Panicked)
      | Some (Shutdown_On s) \<Rightarrow> ([], Some Main_Returned)
      | None \<Rightarrow> select_loop evs)"

definition main_select :: "str + unit \<Rightarrow> 'peer main_event list \<Rightarrow> 'peer list \<times> main_exit option" where
  "main_select bound evs = (case bound of
      Inl e \<Rightarrow> ([], Some (server_exit (Inl (IoError e))))
    | Inr _ \<Rightarrow> select_loop evs)"

subsection \<open>The whole process\<close>

text \<open>\<open>pr_health\<close> is the health task's connections, \<open>pr_sessions\<close> the server's.\<close>

record 'peer process =
  pr_config :: service_config
  pr_service :: service
  pr_health :: "'peer list option"
  pr_sessions :: "'peer list"
  pr_exit :: "main_exit option"

datatype 'peer process_event =
    Poll_Tick "str + str"
  | Health_Accept "str + 'peer"
  | Main_Event "'peer main_event"

text \<open>The statements of \<open>main\<close> before its \<open>select!\<close>. \<open>None\<close> is a panic: of the TLS provider's installation, of the
  configuration, or of an invalid stream.\<close>

definition main_start :: "str + unit \<Rightarrow> (str \<Rightarrow> str option) \<Rightarrow> (str \<Rightarrow> str + str) \<Rightarrow> (str \<Rightarrow> str + stream_config list) \<Rightarrow>
    str + unit \<Rightarrow> str + unit \<Rightarrow> 'peer process option" where
  "main_start tls env read_file json health_bound server_bound =
     (case tls of Inl e \<Rightarrow> None
      | Inr _ \<Rightarrow>
          (case ServiceConfig_from_env env read_file json of None \<Rightarrow> None
           | Some cfg \<Rightarrow>
               (case service_startup cfg of None \<Rightarrow> None
                | Some sv \<Rightarrow> Some \<lparr>pr_config = cfg, pr_service = sv, pr_health = health_run health_bound [],
                    pr_sessions = [], pr_exit = snd (main_select server_bound ([] :: 'peer main_event list))\<rparr>)))"

text \<open>One thing that happens, while the process lives. The poller exists only when an interval is configured.\<close>

definition process_step :: "(str \<Rightarrow> str + stream_config list) \<Rightarrow> 'peer process \<Rightarrow> 'peer process_event \<Rightarrow> 'peer process" where
  "process_step json p ev =
     (if pr_exit p \<noteq> None then p
      else case ev of
        Poll_Tick r \<Rightarrow>
          (case cf_config_poll_interval (pr_config p) of None \<Rightarrow> p
           | Some interval \<Rightarrow>
               (case config_reload_loop json (cf_streams_file (pr_config p)) interval
                    (cf_heartbeat_interval (pr_config p)) [r] (pr_service p) of
                  None \<Rightarrow> p | Some sv \<Rightarrow> p\<lparr>pr_service := sv\<rparr>))
      | Health_Accept a \<Rightarrow> p\<lparr>pr_health := map_option (\<lambda>peers. peers @ health_accepts [a]) (pr_health p)\<rparr>
      | Main_Event e \<Rightarrow> (case select_loop [e] of
          (peers, x) \<Rightarrow> p\<lparr>pr_sessions := pr_sessions p @ peers, pr_exit := x\<rparr>))"

definition process_run :: "(str \<Rightarrow> str + stream_config list) \<Rightarrow> 'peer process_event list \<Rightarrow> 'peer process \<Rightarrow> 'peer process" where
  "process_run json evs p = foldl (process_step json) p evs"

subsection \<open>What polling amounts to\<close>

text \<open>The streams a tick sees: none when the file cannot be read, is malformed or lists no stream.\<close>

definition loadable :: "(str \<Rightarrow> str + stream_config list) \<Rightarrow> str \<Rightarrow> str + str \<Rightarrow> stream_config list" where
  "loadable json streams_file r = (case load_streams (\<lambda>path. r) json streams_file of Inl e \<Rightarrow> [] | Inr ss \<Rightarrow> ss)"

lemma reload_pass_loadable:
  "reload_pass hb (load_streams (\<lambda>path. r) json streams_file) st = reload_pass hb (Inr (loadable json streams_file r)) st"
  by (simp add: loadable_def reload_pass_def split: sum.split)

lemma reload_pass_append: "reload_pass hb (Inr (xs @ ys)) st = reload_pass hb (Inr ys) (reload_pass hb (Inr xs) st)"
  by (simp add: reload_pass_def)

lemma reload_passes:
  "foldl (\<lambda>st r. reload_pass hb (load_streams (\<lambda>path. r) json streams_file) st) st reads =
    reload_pass hb (Inr (concat (map (loadable json streams_file) reads))) st"
proof (induction reads arbitrary: st)
  case (Cons r reads)
  then show ?case by (simp add: reload_pass_append reload_pass_loadable)
qed (simp add: reload_pass_def)



subsection \<open>How \<open>main\<close> ends\<close>

lemma select_loop_Cons: "select_loop (e # evs) =
    (case select_loop [e] of (peers, Some x) \<Rightarrow> (peers, Some x)
     | (peers, None) \<Rightarrow> (peers @ fst (select_loop evs), snd (select_loop evs)))"
  by (cases e) (auto split: option.splits prod.splits shutdown.splits)

text \<open>What of a run reaches each part: everything before the first event that ends \<open>main\<close>.\<close>

definition ends_main :: "'peer main_event \<Rightarrow> bool" where
  "ends_main e \<longleftrightarrow> snd (select_loop [e]) \<noteq> None"

fun alive_events :: "'peer process_event list \<Rightarrow> 'peer process_event list" where
  "alive_events [] = []"
| "alive_events (Main_Event e # evs) = (if ends_main e then [] else Main_Event e # alive_events evs)"
| "alive_events (ev # evs) = ev # alive_events evs"

fun polls :: "'peer process_event list \<Rightarrow> (str + str) list" where
  "polls [] = []"
| "polls (Poll_Tick r # evs) = r # polls evs"
| "polls (_ # evs) = polls evs"

fun health_events :: "'peer process_event list \<Rightarrow> (str + 'peer) list" where
  "health_events [] = []"
| "health_events (Health_Accept a # evs) = a # health_events evs"
| "health_events (_ # evs) = health_events evs"

fun main_events :: "'peer process_event list \<Rightarrow> 'peer main_event list" where
  "main_events [] = []"
| "main_events (Main_Event e # evs) = e # main_events evs"
| "main_events (_ # evs) = main_events evs"

text \<open>The service after the polls, when there is a poller.\<close>

definition polled :: "(str \<Rightarrow> str + stream_config list) \<Rightarrow> service_config \<Rightarrow> (str + str) list \<Rightarrow> service \<Rightarrow> service" where
  "polled json cfg reads sv = (if cf_config_poll_interval cfg = None then sv
     else reload_pass (cf_heartbeat_interval cfg) (Inr (concat (map (loadable json (cf_streams_file cfg)) reads))) sv)"

lemma polled_simps [simp]: "polled json cfg [] sv = sv"
  "polled json cfg reads (polled json cfg [r] sv) = polled json cfg (r # reads) sv"
  by (simp add: polled_def reload_pass_def) (simp add: polled_def reload_pass_append)

lemma health_accepts_append: "health_accepts (as @ bs) = health_accepts as @ health_accepts bs"
  by (induction as rule: health_accepts.induct) simp_all

lemma process_stopped: "pr_exit p \<noteq> None \<Longrightarrow> process_run json evs p = p"
  by (induction evs) (simp_all add: process_run_def process_step_def)

lemma process_step_parts:
  assumes "pr_exit p = None" "cf_config_poll_interval (pr_config p) \<noteq> Some 0"
  shows "process_step json p (Poll_Tick r) = p\<lparr>pr_service := polled json (pr_config p) [r] (pr_service p)\<rparr>"
    "process_step json p (Health_Accept a) = p\<lparr>pr_health := map_option (\<lambda>peers. peers @ health_accepts [a]) (pr_health p)\<rparr>"
    "process_step json p (Main_Event e) =
      p\<lparr>pr_sessions := pr_sessions p @ fst (select_loop [e]), pr_exit := snd (select_loop [e])\<rparr>"
  using assms by (auto simp: process_step_def polled_def config_reload_loop_def reload_passes split: option.splits prod.splits)

lemma process_run_parts:
  assumes "pr_exit p = None" "cf_config_poll_interval (pr_config p) \<noteq> Some 0"
  shows "process_run json evs p = p\<lparr>
    pr_service := polled json (pr_config p) (polls (alive_events evs)) (pr_service p),
    pr_health := map_option (\<lambda>peers. peers @ health_accepts (health_events (alive_events evs))) (pr_health p),
    pr_sessions := pr_sessions p @ fst (select_loop (main_events evs)),
    pr_exit := snd (select_loop (main_events evs))\<rparr>"
  using assms
proof (induction evs arbitrary: p)
  case Nil
  then show ?case by (simp add: process_run_def option.map_ident)
next
  case (Cons ev evs)
  have run: "process_run json (ev # evs) p = process_run json evs (process_step json p ev)"
    by (simp add: process_run_def)
  show ?case
  proof (cases ev)
    case (Poll_Tick r)
    show ?thesis using Cons.prems Cons.IH [of "p\<lparr>pr_service := polled json (pr_config p) [r] (pr_service p)\<rparr>"]
      unfolding run unfolding Poll_Tick process_step_parts(1) [OF Cons.prems] by simp
  next
    case (Health_Accept a)
    show ?thesis using Cons.prems health_accepts_append [of "[a]" "health_events (alive_events evs)"]
        Cons.IH [of "p\<lparr>pr_health := map_option (\<lambda>peers. peers @ health_accepts [a]) (pr_health p)\<rparr>"]
      unfolding run unfolding Health_Accept process_step_parts(2) [OF Cons.prems] by (simp add: option.map_comp comp_def)
  next
    case (Main_Event e)
    let ?p = "p\<lparr>pr_sessions := pr_sessions p @ fst (select_loop [e]), pr_exit := snd (select_loop [e])\<rparr>"
    show ?thesis
    proof (cases "ends_main e")
      case True
      then obtain peers x where x: "select_loop [e] = (peers, Some x)" by (cases "select_loop [e]") (auto simp: ends_main_def)
      have "process_run json evs ?p = ?p" by (rule process_stopped) (simp add: x)
      moreover have "select_loop (e # main_events evs) = select_loop [e]"
        using select_loop_Cons [of e "main_events evs"] unfolding x by simp
      ultimately show ?thesis unfolding run unfolding Main_Event process_step_parts(3) [OF Cons.prems] using True
        by (simp add: option.map_ident)
    next
      case False
      then have n: "snd (select_loop [e]) = None" by (simp add: ends_main_def)
      then have c: "select_loop (e # main_events evs) =
          (fst (select_loop [e]) @ fst (select_loop (main_events evs)), snd (select_loop (main_events evs)))"
        by (subst select_loop_Cons) (simp add: split_beta prod.case_eq_if)
      show ?thesis using Cons.prems n False Cons.IH [of ?p]
        unfolding run unfolding Main_Event process_step_parts(3) [OF Cons.prems] by (simp add: c)
    qed
  qed
qed


text \<open>A run of a service that polls: a reload between two sessions and a scrape, then a signal, then nothing.\<close>

definition env_small :: "str \<Rightarrow> str option" where
  "env_small = [str_of ''GEIGER_STREAMS_FILE'' \<mapsto> str_of ''f'', str_of ''GEIGER_CONFIG_POLL_SECS'' \<mapsto> str_of ''60'']"


fun signal_parts :: "'peer main_event list \<Rightarrow> signal_event list" where
  "signal_parts [] = []"
| "signal_parts (Server_Part ev # evs) = signal_parts evs"
| "signal_parts (Signal_Part ev # evs) = ev # signal_parts evs"

text \<open>The end \<open>x\<close> of \<open>main\<close> after \<open>seen\<close>, on the first event of \<open>rest\<close>, with the server having got to \<open>result\<close>.\<close>

fun ends_with :: "main_exit option \<Rightarrow> (service_error + unit) option \<Rightarrow> 'peer main_event list \<Rightarrow> bool" where
  "ends_with None result rest \<longleftrightarrow> result = None \<and> rest = []"
| "ends_with (Some (Exit_Code n)) result rest \<longleftrightarrow> n = 1 \<and> (\<exists>e. result = Some (Inl e))"
| "ends_with (Some Main_Returned) result rest \<longleftrightarrow> result = None \<and> (\<exists>s es. rest = Signal_Part (Arrived s) # es \<and> s \<noteq> Other_Signal)"
| "ends_with (Some Main_Panicked) result rest \<longleftrightarrow> result = None \<and> (\<exists>e es. rest = Signal_Part (Install_Failed e) # es)"

lemma select_server:
  assumes "Server_Part Shutdown_Changed \<notin> set evs"
  shows "\<exists>seen rest. evs = seen @ rest \<and> shutdown_signal (signal_parts seen) = None \<and>
    fst (select_loop evs) = fst (accept_loop (server_parts seen)) \<and>
    ends_with (snd (select_loop evs)) (snd (accept_loop (server_parts seen))) rest"
  using assms
proof (induction evs)
  case (Cons e evs)
  then obtain seen rest where ih: "evs = seen @ rest" "shutdown_signal (signal_parts seen) = None"
    "fst (select_loop evs) = fst (accept_loop (server_parts seen))"
    "ends_with (snd (select_loop evs)) (snd (accept_loop (server_parts seen))) rest" by auto
  consider peer where "e = Server_Part (Accepted peer)" | err where "e = Server_Part (Accept_Failed err)"
    | "e = Signal_Part (Arrived Other_Signal)" | s where "e = Signal_Part (Arrived s)" "s \<noteq> Other_Signal"
    | err where "e = Signal_Part (Install_Failed err)"
    using Cons.prems by (metis accept_event.exhaust list.set_intros(1) main_event.exhaust signal_event.exhaust)
  then show ?case
  proof cases
    case 1
    then show ?thesis using ih by (intro exI [of _ "e # seen"] exI [of _ rest]) (simp add: split_beta)
  next
    case 2
    then show ?thesis by (intro exI [of _ "[e]"] exI [of _ evs]) (simp add: server_exit_def)
  next
    case 3
    then show ?thesis using ih by (intro exI [of _ "e # seen"] exI [of _ rest]) simp
  next
    case (4 s)
    then have "s = Sigint \<or> s = Sigterm" by (cases s) simp_all
    then show ?thesis using 4 by (intro exI [of _ "[]"] exI [of _ "e # evs"]) auto
  next
    case 5
    then show ?thesis by (intro exI [of _ "[]"] exI [of _ "e # evs"]) simp
  qed
qed (intro exI [of _ "[]"], simp)



end
