(* ===== verification/F64_Whole.thy ===== *)
theory F64_Whole
  imports F64_Exact
begin

text \<open>
  Whole numbers up to \<open>2 ^ 53\<close>: the operations of \<open>F64\<close> on them are those of the natural numbers, without
  rounding. Proved once from the rounding laws, so that sums of counts, of whole volumes and of whole prices
  need no evaluation of the arithmetic.
\<close>

lemma f64_of_nat_0: "f64_of_nat 0 = f64_zero"
  by (simp add: f64_of_nat_def rnd_mag_def rnd_index_def)

lemma whole_finite: "n \<le> 2 ^ 53 \<Longrightarrow> f64_is_finite (f64_of_nat n)"
  by (rule f64_of_nat_finite) simp

text \<open>A result that rounds a whole number is that number.\<close>

lemma whole_rounded:
  assumes "rounded (real n * one_units) r" "0 < n" "n \<le> 2 ^ 53"
  shows "r = f64_of_nat n"
proof -
  obtain m where m: "m < inf_mag" "f64_of_nat n = Num False m" "munits m = n * 2 ^ 1074"
    using f64_of_nat_exact [OF assms(3)] by blast
  have "rounded (real (munits m)) r" using assms(1) by (simp add: m(3) one_units_def)
  moreover have "0 < munits m" using assms(2) by (simp add: m(3))
  ultimately show ?thesis using rounded_exact m(1,2) by simp
qed

lemma whole_units: "n \<le> 2 ^ 53 \<Longrightarrow> real_of_int (uval (f64_of_nat n)) = real n * one_units"
  by (simp add: uval_f64_of_nat one_units_def)

lemma whole_add:
  assumes "a + b \<le> 2 ^ 53" shows "f64_add (f64_of_nat a) (f64_of_nat b) = f64_of_nat (a + b)"
proof (cases "a + b = 0")
  case False
  have n: "a \<le> 2 ^ 53" "b \<le> 2 ^ 53" using assms by simp_all
  have "real_of_int (uval (f64_of_nat a) + uval (f64_of_nat b)) = real (a + b) * one_units"
    unfolding of_int_add whole_units [OF n(1)] whole_units [OF n(2)] by (simp add: algebra_simps)
  then have "rounded (real (a + b) * one_units) (f64_add (f64_of_nat a) (f64_of_nat b))"
    using f64_add_rounded [OF whole_finite [OF n(1)] whole_finite [OF n(2)]] by simp
  then show ?thesis using whole_rounded False assms by simp
qed (simp add: f64_of_nat_0)

lemma whole_sub_rounded:
  assumes "a \<le> 2 ^ 53" "b \<le> 2 ^ 53"
  shows "rounded ((real a - real b) * one_units) (f64_sub (f64_of_nat a) (f64_of_nat b))"
  using f64_sub_rounded [OF whole_finite whole_finite, OF assms]
  unfolding of_int_diff whole_units [OF assms(1)] whole_units [OF assms(2)] by (simp add: algebra_simps)

lemma sub_same: "f64_is_finite x \<Longrightarrow> f64_sub x x = f64_zero"
  by (cases x) (auto simp: f64_sub_def add_at_def align_def signed_def round_int_def)

lemma whole_sub:
  assumes "b \<le> a" "a \<le> 2 ^ 53" shows "f64_sub (f64_of_nat a) (f64_of_nat b) = f64_of_nat (a - b)"
proof (cases "a = b")
  case True
  then show ?thesis using sub_same [OF whole_finite [OF assms(2)]] by (simp add: f64_of_nat_0)
next
  case False
  then show ?thesis using whole_sub_rounded [of a b] assms whole_rounded [of "a - b"] by (simp add: of_nat_diff)
qed

lemma whole_mul:
  assumes "a * b \<le> 2 ^ 53" "0 < a * b" shows "f64_mul (f64_of_nat a) (f64_of_nat b) = f64_of_nat (a * b)"
proof -
  have "a \<le> a * b" "b \<le> a * b" using assms(2) by simp_all
  then have n: "a \<le> 2 ^ 53" "b \<le> 2 ^ 53" using assms(1) order_trans by blast+
  have "rounded (real (a * b) * one_units) (f64_mul (f64_of_nat a) (f64_of_nat b))"
    using f64_mul_rounded [OF whole_finite [OF n(1)] whole_finite [OF n(2)]]
    unfolding whole_units [OF n(1)] whole_units [OF n(2)] by (simp add: field_simps)
  then show ?thesis using whole_rounded assms by blast
qed

lemma powi2_neg: "f64_powi2 (f64_neg x) = f64_powi2 x"
  by (cases x) (simp_all add: f64_powi2_def)

lemma whole_gap_rounded:
  assumes "a < b" "b \<le> 2 ^ 53" shows "f64_sub (f64_of_nat a) (f64_of_nat b) = f64_neg (f64_of_nat (b - a))"
proof -
  obtain m where m: "m < inf_mag" "f64_of_nat (b - a) = Num False m" "munits m = (b - a) * 2 ^ 1074"
    using f64_of_nat_exact [OF order_trans [OF diff_le_self assms(2)]] by blast
  have x: "\<bar>(real a - real b) * one_units\<bar> = real (munits m)" "(real a - real b) * one_units < 0"
    using assms by (simp_all add: abs_mult of_nat_diff m(3) one_units_def mult_neg_pos)
  have "f64_sub (f64_of_nat a) (f64_of_nat b) = Num True m"
    using whole_sub_rounded [of a b] assms x m(1) by (auto simp: rounded_def rounds_to_munits)
  then show ?thesis using m(2) by simp
qed

text \<open>The square of a difference, whichever is larger.\<close>

lemma whole_square_diff:
  assumes "a \<le> 2 ^ 26" "b \<le> 2 ^ 26"
  shows "f64_powi2 (f64_sub (f64_of_nat a) (f64_of_nat b)) = f64_of_nat ((if a \<le> b then b - a else a - b)\<^sup>2)"
proof -
  have "f64_powi2 (f64_of_nat n) = f64_of_nat (n\<^sup>2)" if n: "n \<le> 2 ^ 26" for n
  proof (cases "n = 0")
    case False
    have "n * n \<le> 2 ^ 26 * 2 ^ 26" by (rule mult_mono [OF n n]) simp_all
    then show ?thesis using whole_mul [of n n] False by (simp add: f64_powi2_def power2_eq_square)
  qed (simp add: f64_of_nat_0 f64_powi2_def sig_of_def exp_of_def rnd_mag_def rnd_index_def inf_mag_def)
  moreover have "f64_sub (f64_of_nat a) (f64_of_nat b) = f64_neg (f64_of_nat (b - a))" if "a < b"
    using whole_gap_rounded [OF that] assms by simp
  ultimately show ?thesis using whole_sub [of b a] assms powi2_neg by (cases a b rule: linorder_cases) simp_all
qed

text \<open>A division without remainder.\<close>

lemma whole_div:
  assumes "q * b \<le> 2 ^ 53" "0 < q" "0 < b" shows "f64_div (f64_of_nat (q * b)) (f64_of_nat b) = f64_of_nat q"
proof -
  have "b \<le> q * b" "q \<le> q * b" using assms by simp_all
  then have n: "b \<le> 2 ^ 53" "q \<le> 2 ^ 53" using assms(1) order_trans by blast+
  have "uval (f64_of_nat b) \<noteq> 0" using assms(3) n by (simp add: uval_f64_of_nat)
  then have "rounded (real q * one_units) (f64_div (f64_of_nat (q * b)) (f64_of_nat b))"
    using f64_div_rounded [OF whole_finite [OF assms(1)] whole_finite [OF n(1)]] assms(3)
    unfolding whole_units [OF assms(1)] whole_units [OF n(1)] by simp
  then show ?thesis using whole_rounded assms n by blast
qed

lemma whole_le: "a \<le> 2 ^ 53 \<Longrightarrow> b \<le> 2 ^ 53 \<Longrightarrow> f64_le (f64_of_nat a) (f64_of_nat b) \<longleftrightarrow> a \<le> b"
  by (simp add: f64_le_uval whole_finite uval_f64_of_nat)

lemma whole_less: "a \<le> 2 ^ 53 \<Longrightarrow> b \<le> 2 ^ 53 \<Longrightarrow> f64_lt (f64_of_nat a) (f64_of_nat b) \<longleftrightarrow> a < b"
  using f64_not_lt [of "f64_of_nat a" "f64_of_nat b"] whole_le [of b a] finite_not_nan [OF whole_finite] by auto

lemma whole_eq: "a \<le> 2 ^ 53 \<Longrightarrow> b \<le> 2 ^ 53 \<Longrightarrow> f64_of_nat a = f64_of_nat b \<longleftrightarrow> a = b"
  using whole_le [of a b] whole_le [of b a] whole_le [of a a] by auto

lemma whole_sum_from:
  "a + sum_list ns \<le> 2 ^ 53 \<Longrightarrow> foldl f64_add (f64_of_nat a) (map f64_of_nat ns) = f64_of_nat (a + sum_list ns)"
  by (induction ns arbitrary: a) (simp_all add: whole_add algebra_simps)

lemma whole_sum:
  assumes "ns \<noteq> []" "sum_list ns \<le> 2 ^ 53" shows "f64_sum (map f64_of_nat ns) = f64_of_nat (sum_list ns)"
proof -
  obtain n ms where ns: "ns = n # ms" using assms(1) by (cases ns) auto
  have "f64_add f64_neg_zero (f64_of_nat n) = f64_of_nat n"
    using whole_finite [of n] assms(2) ns by (cases "f64_of_nat n") auto
  then show ?thesis using whole_sum_from [of n ms] assms(2) by (simp add: f64_sum_def ns)
qed

end
