(* ===== verification/Warmup.thy ===== *)
theory Warmup
  imports Engine F64_Whole
begin

text \<open>
  When the engine of \<open>crates/vpin-engine/src/vpin.rs\<close> starts to give values. A window of price changes that
  are not all alike has a finite and positive standard deviation, in \<open>f64\<close> as well: no overflow, and no
  underflow of the squares. So on a market that moves every bucket from the \<open>sigma_window\<close>-th on is classified,
  and the warm-up of the VPIN value, of its rank and of its interval ends exactly when the windows are full.
\<close>

subsection \<open>Size of rounded results\<close>

lemma rounded_within:
  assumes "rounded y r" "\<bar>y\<bar> \<le> real (k * 2 ^ e)" "k \<le> 2 ^ 53" "k * 2 ^ e < 2 ^ 2098"
  shows "f64_is_finite r \<and> \<bar>uval r\<bar> \<le> int (k * 2 ^ e)"
proof -
  obtain m where m: "m < inf_mag" "munits m = k * 2 ^ e" using finite_scaled [OF assms(3,4)] by blast
  let ?b = "\<lambda>s. Num s m"
  have f: "f64_is_finite (?b s)" for s using m(1) by simp
  have u: "uval (?b False) = int (k * 2 ^ e)" "uval (?b True) = - int (k * 2 ^ e)" using m(2) by simp_all
  have y: "real_of_int (uval (?b True)) \<le> y" "y \<le> real_of_int (uval (?b False))"
    using assms(2) unfolding u of_int_minus of_int_of_nat_eq by linarith+
  have le: "f64_le (?b True) r" "f64_le r (?b False)"
    using le_rounded [OF f y(1) assms(1)] rounded_le [OF f y(2) assms(1)] by blast+
  have "f64_is_finite r" using le m(1) by (cases r) (auto simp: f64_le_def min_def split: if_splits)
  then show ?thesis using le f64_le_uval [OF f] f64_le_uval [OF _ f] unfolding u abs_le_iff by (smt (verit) u)
qed

lemma rounded_apart:
  assumes "rounded y r" "real (2 ^ e) \<le> y" "f64_is_finite r" "e < 2098"
  shows "2 ^ e \<le> uval r"
proof -
  have "(2::nat) ^ e < 2 ^ 2098" using assms(4) by (intro power_strict_increasing) simp_all
  then obtain m where m: "m < inf_mag" "munits m = 2 ^ e" using finite_scaled [of 1 e] by auto
  have f: "f64_is_finite (Num False m)" "uval (Num False m) = 2 ^ e" using m by simp_all
  have "f64_le (Num False m) r" using le_rounded [OF f(1) _ assms(1)] assms(2) unfolding f(2) by simp
  then show ?thesis using f64_le_uval [OF f(1) assms(3)] unfolding f(2) by blast
qed

lemma rounded_apart_abs:
  assumes "rounded y r" "real (2 ^ e) \<le> \<bar>y\<bar>" "f64_is_finite r" "e < 2098"
  shows "2 ^ e \<le> \<bar>uval r\<bar>"
proof (cases "0 \<le> y")
  case True
  then show ?thesis using rounded_apart [OF assms(1) _ assms(3,4)] assms(2) by linarith
next
  case False
  have "rounded (- y) (f64_neg r)" using assms(1) unfolding rounded_def by force
  then have "2 ^ e \<le> uval (f64_neg r)"
    using rounded_apart [of "- y" "f64_neg r" e] False assms(2-4) by simp
  then show ?thesis by simp
qed

lemma abs_int_le: "\<bar>z\<bar> \<le> int n \<Longrightarrow> \<bar>real_of_int z\<bar> \<le> real n"
  using of_int_le_iff [where 'a = real, of "\<bar>z\<bar>" "int n"] by simp

subsection \<open>Sums\<close>

lemma foldl_within:
  assumes "f64_is_finite s" "\<bar>uval s\<bar> \<le> int (j * 2 ^ e)" "e \<le> 2000" "j + length xs \<le> 2 ^ 53"
    "\<forall>x \<in> set xs. f64_is_finite x \<and> \<bar>uval x\<bar> \<le> 2 ^ e"
  shows "f64_is_finite (foldl f64_add s xs) \<and> \<bar>uval (foldl f64_add s xs)\<bar> \<le> int ((j + length xs) * 2 ^ e)"
  using assms(1,2,4,5)
proof (induction xs arbitrary: s j)
  case (Cons x xs)
  have x: "f64_is_finite x" "\<bar>uval x\<bar> \<le> 2 ^ e" using Cons.prems(4) by simp_all
  have n: "Suc j \<le> 2 ^ 53" using Cons.prems(3) by simp
  have "Suc j * 2 ^ e \<le> 2 ^ 53 * 2 ^ e" using n by (rule mult_right_mono) simp
  also have "\<dots> \<le> 2 ^ 53 * 2 ^ 2000" using assms(3) by (intro mult_left_mono power_increasing) simp_all
  also have "\<dots> < (2::nat) ^ 2098" by simp
  finally have b: "Suc j * 2 ^ e < 2 ^ 2098" .
  have "\<bar>uval s + uval x\<bar> \<le> int (Suc j * 2 ^ e)" using Cons.prems(2) x(2) by (simp add: distrib_right)
  then have "\<bar>real_of_int (uval s + uval x)\<bar> \<le> real (Suc j * 2 ^ e)"
    by (rule abs_int_le)
  from rounded_within [OF f64_add_rounded [OF Cons.prems(1) x(1)] this n b]
  show ?case using Cons.IH [of "f64_add s x" "Suc j"] Cons.prems(3,4) by simp
qed simp

lemma sum_within:
  assumes "e \<le> 2000" "length xs \<le> 2 ^ 53" "\<forall>x \<in> set xs. f64_is_finite x \<and> \<bar>uval x\<bar> \<le> 2 ^ e"
  shows "f64_is_finite (f64_sum xs) \<and> \<bar>uval (f64_sum xs)\<bar> \<le> int (length xs * 2 ^ e)"
  using foldl_within [of f64_neg_zero 0 e xs] assms by (simp add: f64_sum_def)

lemma foldl_ge:
  assumes "f64_le f64_zero s" "\<forall>x \<in> set xs. f64_le f64_zero x"
  shows "f64_le f64_zero (foldl f64_add s xs) \<and> f64_le s (foldl f64_add s xs) \<and>
    (\<forall>x \<in> set xs. f64_le x (foldl f64_add s xs))"
  using assms
proof (induction xs arbitrary: s)
  case (Cons x xs)
  have s: "f64_le f64_zero (f64_add s x)" "f64_le s (f64_add s x)" "f64_le x (f64_add s x)"
    using Cons.prems f64_add_nonneg f64_le_add_left f64_le_add_right by simp_all
  then show ?case using Cons.IH [OF s(1)] Cons.prems(2) f64_le_trans by (auto; blast)
qed (auto dest: f64_le_nan)

lemma sum_ge: "\<forall>x \<in> set xs. f64_le f64_zero x \<Longrightarrow> x \<in> set xs \<Longrightarrow> f64_le x (f64_sum xs)"
  using foldl_ge [of f64_neg_zero xs] by (simp add: f64_sum_def f64_le_def)

subsection \<open>The square root of a positive number\<close>

lemma isqrt_le: "isqrt n \<le> n"
proof (induction n rule: isqrt.induct)
  case (1 n)
  show ?case
  proof (cases "n = 0")
    case False
    have "s + 1 \<le> (s + 1) * (s + 1)" for s :: nat by simp
    then have "isqrt_step n s \<le> n" if "s \<le> n" for s
      unfolding isqrt_step_def using that order_trans by auto
    moreover have "2 * isqrt (n div 4) \<le> n" using 1 [OF False] by linarith
    ultimately show ?thesis using False by (simp add: isqrt.simps [of n])
  qed (simp add: isqrt.simps)
qed

lemma sqrt_positive:
  assumes "f64_is_finite x" "f64_lt f64_zero x"
  shows "f64_is_finite (f64_sqrt x) \<and> f64_lt f64_zero (f64_sqrt x)"
proof -
  obtain m where x: "x = Num False m" "0 < m" "m < inf_mag"
    using assms by (cases x) (auto simp: f64_lt_def split: if_splits)
  define n where "n = sqrt_sticky (sqrt_arg m) (isqrt (sqrt_arg m))"
  define e where "e = nat ((int (exp_of m) - int (sqrt_scale m)) div 2 + 536)"
  have "exp_of m mod 2 < 2" by simp
  then have sc: "sqrt_scale m \<le> 111" unfolding sqrt_scale_def by (simp split: if_split) linarith
  have ex: "exp_of m \<le> 2046" using x(3) by (simp add: exp_of_def inf_mag_def)
  have e: "int e = (int (exp_of m) - int (sqrt_scale m)) div 2 + 536" "e \<le> 1559"
    using sc ex unfolding e_def by linarith+
  have sg: "0 < sig_of m" "sig_of m \<le> 2 ^ 53" using x(2) sig_of_pos by (simp_all add: sig_of_def)
  have n0: "1 \<le> n" using sg(1) by (cases "isqrt (sqrt_arg m)") (simp_all add: n_def sqrt_sticky_def sqrt_arg_def)
  have "sqrt_arg m \<le> 2 ^ 53 * 2 ^ 111"
    unfolding sqrt_arg_def using sg(2) sc by (intro mult_mono power_increasing) simp_all
  then have "n \<le> 2 * (2 ^ 53 * 2 ^ 111) + 1"
    using isqrt_le [of "sqrt_arg m"] by (simp add: n_def sqrt_sticky_def)
  then have n1: "n \<le> 2 ^ 166" by simp
  have r: "rounded (real (n * 2 ^ e)) (f64_sqrt x)"
    using rnd_mag_signed [of 1 _ n "int e" False, OF _ refl] x(2,3) unfolding x(1) e(1) [symmetric] n_def
    by (simp add: qval_int flip: e(1)) (simp add: qval_def)
  have "n * 2 ^ e \<le> 2 ^ 166 * 2 ^ 1559" using n1 e(2) by (intro mult_mono power_increasing) simp_all
  also have "\<dots> = 1 * 2 ^ 1725" by (simp flip: power_add)
  finally have "real (n * 2 ^ e) \<le> real (1 * 2 ^ 1725)" by (simp only: of_nat_le_iff)
  then have f: "f64_is_finite (f64_sqrt x)" using rounded_within [OF r, of 1 1725] by simp
  have "1 \<le> n * 2 ^ e" using n0 by simp
  then have "real (2 ^ 0) \<le> real (n * 2 ^ e)" by (simp only: of_nat_le_iff power_0)
  from rounded_apart [OF r this f] show ?thesis using f by (simp add: f64_lt_zero_uval)
qed


subsection \<open>A window that moves\<close>

text \<open>\<open>moves ds\<close>: finite price changes of size at most \<open>2 ^ 400\<close>, two of which are at least \<open>2 ^ (-400)\<close>
  apart.\<close>

definition moves :: "f64 list \<Rightarrow> bool" where
  "moves ds \<longleftrightarrow> (\<forall>x \<in> set ds. f64_is_finite x \<and> \<bar>f64_val x\<bar> \<le> 2 ^ 400) \<and>
     (\<exists>x \<in> set ds. \<exists>y \<in> set ds. 1 / 2 ^ 400 \<le> f64_val x - f64_val y)"

lemma units_pow: "n \<le> 1074 \<Longrightarrow> one_units / 2 ^ n = 2 ^ (1074 - n)" "2 ^ n * one_units = 2 ^ (n + 1074)"
  by (simp_all add: one_units_def power_diff power_add)

lemma moves_units:
  assumes "moves ds"
  shows "\<forall>x \<in> set ds. f64_is_finite x \<and> \<bar>uval x\<bar> \<le> 2 ^ 1474"
    and "\<exists>x \<in> set ds. \<exists>y \<in> set ds. 2 ^ 674 \<le> uval x - uval y"
proof -
  have "\<bar>uval x\<bar> \<le> 2 ^ 1474" if "\<bar>f64_val x\<bar> \<le> 2 ^ 400" for x
  proof -
    have "\<bar>real_of_int (uval x)\<bar> \<le> 2 ^ 400 * one_units"
      using that by (simp add: f64_val_def divide_le_eq)
    then have "real_of_int \<bar>uval x\<bar> \<le> real_of_int (2 ^ 1474)" unfolding units_pow(2) by simp
    then show ?thesis by (simp only: of_int_le_iff)
  qed
  then show "\<forall>x \<in> set ds. f64_is_finite x \<and> \<bar>uval x\<bar> \<le> 2 ^ 1474" using assms by (simp add: moves_def)
  have "2 ^ 674 \<le> uval x - uval y" if "1 / 2 ^ 400 \<le> f64_val x - f64_val y" for x y
  proof -
    have "1 / 2 ^ 400 * one_units \<le> (f64_val x - f64_val y) * one_units"
      by (rule mult_right_mono [OF that]) simp
    then have "one_units / 2 ^ 400 \<le> real_of_int (uval x - uval y)"
      by (simp add: f64_val_def left_diff_distrib)
    then have "real_of_int (2 ^ 674) \<le> real_of_int (uval x - uval y)"
      unfolding units_pow(1) [of 400, simplified] by simp
    then show ?thesis by (simp only: of_int_le_iff)
  qed
  then show "\<exists>x \<in> set ds. \<exists>y \<in> set ds. 2 ^ 674 \<le> uval x - uval y"
    using assms unfolding moves_def by blast
qed

lemma div_nat_rounded:
  assumes "f64_is_finite a" "0 < n" "n \<le> 2 ^ 53"
  shows "rounded (real_of_int (uval a) / real n) (f64_div a (f64_of_nat n))"
proof -
  have u: "uval (f64_of_nat n) = int n * 2 ^ 1074" by (rule uval_f64_of_nat [OF assms(3)])
  have "real_of_int (uval a) / uval (f64_of_nat n) * one_units = real_of_int (uval a) / real n"
    unfolding u by (simp add: one_units_def)
  then show ?thesis
    using f64_div_rounded [OF assms(1) whole_finite [OF assms(3)]] assms(2) unfolding u by simp
qed

lemma mean_within:
  assumes "length ds = w" "0 < w" "w \<le> 2 ^ 52" "\<forall>x \<in> set ds. f64_is_finite x \<and> \<bar>uval x\<bar> \<le> 2 ^ 1474"
  shows "f64_is_finite (sample_mean ds w) \<and> \<bar>uval (sample_mean ds w)\<bar> \<le> 2 ^ 1474"
proof -
  have s: "f64_is_finite (f64_sum ds)" "\<bar>uval (f64_sum ds)\<bar> \<le> int (w * 2 ^ 1474)"
    using sum_within [of 1474 ds] assms by simp_all
  have "\<bar>real_of_int (uval (f64_sum ds)) / real w\<bar> \<le> real (1 * 2 ^ 1474)"
    using abs_int_le [OF s(2)] assms(2) by (simp add: divide_le_eq mult.commute)
  moreover have "rounded (real_of_int (uval (f64_sum ds)) / real w) (sample_mean ds w)"
    unfolding sample_mean_def using assms by (intro div_nat_rounded [OF s(1)]) simp_all
  ultimately show ?thesis using rounded_within [of _ _ 1 1474] by simp
qed

text \<open>The squared distance to the mean: bounded above, and below where the distance is not small.\<close>

lemma square_rounded:
  assumes "f64_is_finite d" shows "rounded ((real_of_int (uval d))\<^sup>2 / one_units) (f64_powi2 d)"
  using f64_mul_rounded [OF assms assms] by (simp add: f64_powi2_def power2_eq_square)

lemma square_within:
  assumes "f64_is_finite x" "\<bar>uval x\<bar> \<le> 2 ^ 1474" "f64_is_finite m" "\<bar>uval m\<bar> \<le> 2 ^ 1474"
  shows "f64_is_finite (f64_powi2 (f64_sub x m)) \<and> 0 \<le> uval (f64_powi2 (f64_sub x m)) \<and>
      uval (f64_powi2 (f64_sub x m)) \<le> 2 ^ 1876"
    and "2 ^ 673 \<le> \<bar>uval x - uval m\<bar> \<Longrightarrow> 2 ^ 272 \<le> uval (f64_powi2 (f64_sub x m))"
proof -
  let ?d = "f64_sub x m"
  have r: "rounded (real_of_int (uval x - uval m)) ?d" by (rule f64_sub_rounded [OF assms(1,3)])
  have "\<bar>uval x - uval m\<bar> \<le> int (2 * 2 ^ 1474)" using assms(2,4) by simp
  from rounded_within [OF r abs_int_le [OF this]] have d: "f64_is_finite ?d" "\<bar>uval ?d\<bar> \<le> 2 ^ 1475" by simp_all
  note sq = square_rounded [OF d(1)]
  have "\<bar>real_of_int (uval ?d)\<bar> \<le> 2 ^ 1475" using abs_int_le [of "uval ?d" "2 ^ 1475"] d(2) by simp
  then have "(real_of_int (uval ?d))\<^sup>2 \<le> (2 ^ 1475)\<^sup>2" by (metis abs_le_square_iff abs_numeral power_abs)
  also have "\<dots> = 2 ^ 1876 * one_units" by (simp add: one_units_def flip: power_mult power_add)
  finally have "\<bar>(real_of_int (uval ?d))\<^sup>2 / one_units\<bar> \<le> real (1 * 2 ^ 1876)"
    by (simp add: divide_le_eq)
  from rounded_within [OF sq this] have f: "f64_is_finite (f64_powi2 ?d)" "uval (f64_powi2 ?d) \<le> 2 ^ 1876"
    by (simp_all add: abs_le_iff)
  have "f64_le f64_zero (f64_powi2 ?d)" using sq by (intro le_rounded [OF _ _ sq]) simp_all
  then show "f64_is_finite (f64_powi2 ?d) \<and> 0 \<le> uval (f64_powi2 ?d) \<and> uval (f64_powi2 ?d) \<le> 2 ^ 1876"
    using f by (simp add: f64_le_zero_uval)
  assume a: "2 ^ 673 \<le> \<bar>uval x - uval m\<bar>"
  have "real (2 ^ 673) \<le> \<bar>real_of_int (uval x - uval m)\<bar>"
    using of_int_le_iff [where 'a = real, THEN iffD2, OF a] by simp
  from rounded_apart_abs [OF r this d(1)] have "2 ^ 673 \<le> \<bar>uval ?d\<bar>" by simp
  then have "(2 ^ 673)\<^sup>2 \<le> (uval ?d)\<^sup>2" by (metis abs_le_square_iff abs_numeral power_abs)
  then have "real_of_int ((2 ^ 673)\<^sup>2) \<le> real_of_int ((uval ?d)\<^sup>2)" by (simp only: of_int_le_iff)
  moreover have "real_of_int ((2 ^ 673)\<^sup>2) = 2 ^ 272 * one_units" by (simp add: one_units_def flip: power_mult power_add)
  ultimately have "real (2 ^ 272) \<le> (real_of_int (uval ?d))\<^sup>2 / one_units" by (simp add: le_divide_eq)
  from rounded_apart [OF sq this f(1)] show "2 ^ 272 \<le> uval (f64_powi2 ?d)" by simp
qed

lemma moving_std:
  assumes "moves ds" "length ds = w" "2 \<le> w" "w \<le> 2 ^ 52"
  shows "f64_is_finite (sample_std ds w (sample_mean ds w)) \<and> f64_lt f64_zero (sample_std ds w (sample_mean ds w))"
proof -
  note u = moves_units [OF assms(1)]
  define m where "m = sample_mean ds w"
  have m: "f64_is_finite m" "\<bar>uval m\<bar> \<le> 2 ^ 1474"
    using mean_within [OF assms(2) _ assms(4) u(1)] assms(3) by (simp_all add: m_def)
  define qs where "qs = map (\<lambda>x. f64_powi2 (f64_sub x m)) ds"
  have q: "\<forall>q \<in> set qs. f64_is_finite q \<and> 0 \<le> uval q \<and> uval q \<le> 2 ^ 1876"
    using square_within(1) [OF _ _ m] u(1) by (simp add: qs_def)
  have s: "f64_is_finite (f64_sum qs)" "\<bar>uval (f64_sum qs)\<bar> \<le> int (w * 2 ^ 1876)"
    using sum_within [of 1876 qs] q assms(2,4) by (simp_all add: qs_def)
  obtain x y where xy: "x \<in> set ds" "y \<in> set ds" "2 ^ 674 \<le> uval x - uval y" using u(2) by blast
  have "2 ^ 673 \<le> \<bar>uval x - uval m\<bar> \<or> 2 ^ 673 \<le> \<bar>uval y - uval m\<bar>" 
  proof -
    have "(2::int) ^ 674 = 2 * 2 ^ 673" by simp
    then show ?thesis using xy(3) by linarith
  qed
  then obtain z where z: "z \<in> set ds" "2 ^ 272 \<le> uval (f64_powi2 (f64_sub z m))"
    using square_within(2) [OF _ _ m] u(1) xy(1,2) by blast
  then have "f64_powi2 (f64_sub z m) \<in> set qs" by (simp add: qs_def)
  then have b: "2 ^ 272 \<le> uval (f64_sum qs)"
    using sum_ge [of qs] q z(2) f64_le_uval [OF _ s(1)] f64_le_zero_uval by (meson order_trans)
  define n where "n = w - 1"
  have n: "0 < n" "n \<le> 2 ^ 52" "n \<le> 2 ^ 53" using assms(3,4) by (simp_all add: n_def)
  note r = div_nat_rounded [OF s(1) n(1,3)]
  have "w * 2 ^ 1876 \<le> 2 ^ 52 * 2 ^ 1876" using assms(4) by (rule mult_right_mono) simp
  then have "int (w * 2 ^ 1876) \<le> int (1 * 2 ^ 1928)" by (simp only: of_nat_le_iff) (simp flip: power_add)
  then have "\<bar>uval (f64_sum qs)\<bar> \<le> int (1 * 2 ^ 1928)" using s(2) order_trans by blast
  note a = abs_int_le [OF this]
  have "\<bar>real_of_int (uval (f64_sum qs)) / real n\<bar> \<le> \<bar>real_of_int (uval (f64_sum qs))\<bar>"
    using n(1) by (simp add: divide_le_eq mult_le_cancel_left1)
  then have "\<bar>real_of_int (uval (f64_sum qs)) / real n\<bar> \<le> real (1 * 2 ^ 1928)" using a by linarith
  then have f: "f64_is_finite (f64_div (f64_sum qs) (f64_of_nat n))" using rounded_within [OF r, of 1 1928] by simp
  have "2 ^ 220 * real n \<le> 2 ^ 220 * 2 ^ 52" using n(2) by (simp only: mult_le_cancel_left_pos zero_less_power zero_less_numeral) simp
  also have "\<dots> \<le> real_of_int (uval (f64_sum qs))"
    using of_int_le_iff [where 'a = real, THEN iffD2, OF b] by (simp flip: power_add)
  finally have "real (2 ^ 220) \<le> real_of_int (uval (f64_sum qs)) / real n" using n(1) by (simp add: le_divide_eq)
  from rounded_apart [OF r this f] have "f64_lt f64_zero (f64_div (f64_sum qs) (f64_of_nat n))"
    using f by (simp add: f64_lt_zero_uval)
  then show ?thesis using sqrt_positive [OF f] by (simp add: sample_std_def qs_def m_def n_def)
qed

subsection \<open>The warm-up of the engine\<close>

text \<open>Every \<open>w\<close> consecutive buckets move the price.\<close>

definition always_moves :: "usize \<Rightarrow> closed_bucket list \<Rightarrow> bool" where
  "always_moves w bs \<longleftrightarrow> (\<forall>i. i + w \<le> length bs \<longrightarrow> moves (take w (drop i (map cb_delta_p bs))))"

lemma always_moves_finite:
  assumes "always_moves w bs" "0 < w" "w \<le> length bs" "i < length bs"
  shows "f64_is_finite (cb_delta_p (bs ! i))"
proof -
  define j where "j = min i (length bs - w)"
  have j: "j + w \<le> length bs" "j \<le> i" "i - j < w" using assms by (auto simp: j_def)
  have "take w (drop j (map cb_delta_p bs)) ! (i - j) = cb_delta_p (bs ! i)"
    "i - j < length (take w (drop j (map cb_delta_p bs)))" using j assms(4) by simp_all
  then have "cb_delta_p (bs ! i) \<in> set (take w (drop j (map cb_delta_p bs)))" using nth_mem by metis
  then show ?thesis using assms(1) j(1) by (auto simp: always_moves_def moves_def)
qed

lemma last_n_take: "w \<le> i \<Longrightarrow> i \<le> length xs \<Longrightarrow> last_n w (take i xs) = take w (drop (i - w) xs)"
  by (simp add: last_n_def drop_take)

lemma pair_of_warm:
  assumes "always_moves w bs" "2 \<le> w" "w \<le> 2 ^ 52" "i < length bs"
  shows "pair_of erf w (take i bs) (bs ! i) \<noteq> None \<longleftrightarrow> w \<le> i"
proof (cases "w \<le> i")
  case True
  let ?ds = "last_n w (map cb_delta_p (take i bs))"
  have ds: "?ds = take w (drop (i - w) (map cb_delta_p bs))"
    using last_n_take [OF True, of "map cb_delta_p bs"] assms(4) by (simp add: take_map)
  have "moves ?ds" using assms(1,4) True unfolding ds always_moves_def by simp
  moreover have "length ?ds = w" using True assms(4) by (simp add: ds)
  ultimately have s: "f64_is_finite (sample_std ?ds w (sample_mean ?ds w))"
    "f64_lt f64_zero (sample_std ?ds w (sample_mean ?ds w))" using moving_std assms(2,3) by blast+
  have "f64_is_finite (cb_delta_p (bs ! i))"
    using always_moves_finite [OF assms(1) _ _ assms(4)] assms(2,4) True by simp
  then show ?thesis using s True assms(4)
    by (simp add: pair_of_def sigma_after_def Let_def bucket_imbalance_def classify_def buy_fraction_def)
qed (simp add: pair_of_def sigma_after_def min_def)

text \<open>How much is collected when the answers start at index \<open>a\<close> and do not stop.\<close>

lemma length_collect:
  assumes "\<forall>i < length bs. f (take i bs) (bs ! i) \<noteq> None \<longleftrightarrow> a \<le> i"
  shows "i \<le> length bs \<Longrightarrow> length (collect f (take i bs)) = i - a"
proof (induction i)
  case (Suc i)
  then have i: "i < length bs" by simp
  show ?case using assms Suc.IH i
    by (auto simp: take_Suc_conv_app_nth [OF i] collect_snoc Suc_diff_le split: option.splits)
qed simp

lemma vpin_of_warm:
  assumes "always_moves w bs" "2 \<le> w" "w \<le> 2 ^ 52" "1 \<le> n" "i < length bs"
  shows "vpin_of erf w n (take i bs) (bs ! i) \<noteq> None \<longleftrightarrow> w + n - 1 \<le> i"
proof -
  have p: "\<forall>i < length bs. pair_of erf w (take i bs) (bs ! i) \<noteq> None \<longleftrightarrow> w \<le> i"
    using pair_of_warm [OF assms(1-3)] by blast
  have "length (collect (pair_of erf w) (take i bs)) = i - w"
    using length_collect [OF p] assms(5) by simp
  then show ?thesis using p assms(4,5) by (auto simp: vpin_of_def Let_def split: option.splits)
qed

lemma cdf_of_warm:
  assumes "always_moves (vc_sigma_window cfg) bs" "config_ok cfg" "vc_sigma_window cfg \<le> 2 ^ 52" "i < length bs"
  shows "cdf_of erf cfg (take i bs) (bs ! i) \<noteq> None \<longleftrightarrow>
    (\<exists>k. vc_cdf_window cfg = Some k \<and> vc_sigma_window cfg + vc_vpin_window cfg + k - 2 \<le> i)"
proof -
  let ?w = "vc_sigma_window cfg" and ?n = "vc_vpin_window cfg"
  have c: "2 \<le> ?w" "1 \<le> ?n" "pred_option (\<lambda>k. 2 \<le> k) (vc_cdf_window cfg)"
    using assms(2) by (simp_all add: config_ok_def)
  have v: "\<forall>i < length bs. vpin_of erf ?w ?n (take i bs) (bs ! i) \<noteq> None \<longleftrightarrow> ?w + ?n - 1 \<le> i"
    using vpin_of_warm [OF assms(1) c(1) assms(3) c(2)] by blast
  have "length (collect (vpin_of erf ?w ?n) (take i bs)) = i - (?w + ?n - 1)"
    using length_collect [OF v] assms(4) by simp
  then show ?thesis using v assms(4) c
    by (auto simp: cdf_of_def rank_in_def split: option.splits)
qed

lemma nth_readings_of:
  "i < length cs \<Longrightarrow> readings_of erf cfg earlier cs ! i =
    (cb_bucket_id (cs ! i), cb_ts_close_ns (cs ! i), cb_trade_count (cs ! i),
     vpin_of erf (vc_sigma_window cfg) (vc_vpin_window cfg) (earlier @ take i cs) (cs ! i),
     cdf_of erf cfg (earlier @ take i cs) (cs ! i))"
proof (induction cs arbitrary: i earlier)
  case (Cons c cs)
  then show ?case by (cases i) simp_all
qed simp

lemma length_readings_of [simp]: "length (readings_of erf cfg earlier cs) = length cs"
  by (induction cs arbitrary: earlier) simp_all

text \<open>A run on a moving tape: one reading per closed bucket, with a value and a rank from the bucket on at
  which the windows are full.\<close>

lemma warm_run:
  assumes "config_ok cfg" "vc_sigma_window cfg \<le> 2 ^ 52" "engine_run erf (fresh_engine cfg) ts = Some (e', rs)"
  defines "bs \<equiv> snd (bucketer_run (ve_bucketer (fresh_engine cfg)) ts)"
  assumes "always_moves (vc_sigma_window cfg) bs"
  shows "length rs = length bs"
    and "i < length bs \<Longrightarrow> vr_vpin (rs ! i) \<noteq> None \<longleftrightarrow> vc_sigma_window cfg + vc_vpin_window cfg - 1 \<le> i"
    and "i < length bs \<Longrightarrow> vr_vpin_cdf (rs ! i) \<noteq> None \<longleftrightarrow>
      (\<exists>k. vc_cdf_window cfg = Some k \<and> vc_sigma_window cfg + vc_vpin_window cfg + k - 2 \<le> i)"
proof -
  have m: "map reading_core rs = readings_of erf cfg [] bs"
    using engine_run_tracks [OF assms(1) tracks_fresh assms(3)] unfolding bs_def by blast
  show n: "length rs = length bs" using arg_cong [OF m, of length] by simp
  have w: "2 \<le> vc_sigma_window cfg" "1 \<le> vc_vpin_window cfg" using assms(1) by (simp_all add: config_ok_def)
  assume i: "i < length bs"
  have "reading_core (rs ! i) = readings_of erf cfg [] bs ! i" using m i n by (metis nth_map)
  then have v: "vr_vpin (rs ! i) = vpin_of erf (vc_sigma_window cfg) (vc_vpin_window cfg) (take i bs) (bs ! i)"
    "vr_vpin_cdf (rs ! i) = cdf_of erf cfg (take i bs) (bs ! i)"
    using nth_readings_of [OF i, of erf cfg "[]"] by (simp_all add: reading_core_def)
  show "vr_vpin (rs ! i) \<noteq> None \<longleftrightarrow> vc_sigma_window cfg + vc_vpin_window cfg - 1 \<le> i"
    unfolding v by (rule vpin_of_warm [OF assms(5) w(1) assms(2) w(2) i])
  show "vr_vpin_cdf (rs ! i) \<noteq> None \<longleftrightarrow>
      (\<exists>k. vc_cdf_window cfg = Some k \<and> vc_sigma_window cfg + vc_vpin_window cfg + k - 2 \<le> i)"
    unfolding v by (rule cdf_of_warm [OF assms(5,1,2) i])
qed

text \<open>What the \<open>i\<close>-th reading of a moving market carries.\<close>

definition warm_reading :: "vpin_engine_config \<Rightarrow> nat \<Rightarrow> vpin_reading \<Rightarrow> bool" where
  "warm_reading cfg i r \<longleftrightarrow>
     (vr_vpin r \<noteq> None \<longleftrightarrow> vc_sigma_window cfg + vc_vpin_window cfg - 1 \<le> i) \<and>
     (vr_vpin_cdf r \<noteq> None \<longleftrightarrow> (\<exists>k. vc_cdf_window cfg = Some k \<and>
        vc_sigma_window cfg + vc_vpin_window cfg + k - 2 \<le> i)) \<and>
     (vr_vpin_ci_low r \<noteq> None \<longleftrightarrow> vc_confidence_interval cfg \<noteq> None \<and>
        vc_sigma_window cfg + vc_vpin_window cfg - 1 \<le> i) \<and>
     (vr_vpin_ci_high r \<noteq> None \<longleftrightarrow> vr_vpin_ci_low r \<noteq> None)"

text \<open>C3: the warm-up ends, and when. An accepted configuration run on any tape of admissible volumes
  whose price keeps moving (every \<open>sigma_window\<close> consecutive buckets have finite price changes of size at
  most \<open>2 ^ 400\<close>, two of them \<open>2 ^ (-400)\<close> or more apart) never panics, gives one reading per closed bucket, and the
  reading of bucket \<open>i\<close> (from 0) has a VPIN value exactly from \<open>i = sigma_window + vpin_window - 1\<close> on, a rank
  exactly from \<open>cdf_window - 1\<close> buckets later when one is configured, and the interval exactly with the
  value when one is configured.\<close>

theorem engine_warms_up:
  assumes "erf_range erf" "VpinEngine_new cfg = Inr e" "config_bounded cfg" "vc_sigma_window cfg \<le> 2 ^ 52"
    "\<forall>(p, v, t) \<in> set ts. small v"
    "always_moves (vc_sigma_window cfg) (snd (bucketer_run (ve_bucketer e) ts))"
  shows "\<exists>e' rs. engine_run erf e ts = Some (e', rs) \<and>
    length rs = length (snd (bucketer_run (ve_bucketer e) ts)) \<and>
    (\<forall>i < length rs. warm_reading cfg i (rs ! i))"
proof -
  have c: "config_ok cfg" "e = fresh_engine cfg" using assms(2) by (simp_all add: VpinEngine_new_Inr)
  have ci: "ve_ci e \<noteq> None \<longleftrightarrow> vc_confidence_interval cfg \<noteq> None" by (simp add: c(2) fresh_engine_def)
  obtain e' rs where r: "engine_run erf e ts = Some (e', rs)"
    "\<forall>r \<in> set rs. reading_ok (vc_confidence_interval cfg \<noteq> None) r"
    using engine_run_inv [OF assms(1) fresh_engine_inv [OF c(1) assms(3)] assms(5)] ci
    unfolding c(2) [symmetric] by auto
  note w = warm_run [OF c(1) assms(4), folded c(2), OF r(1) assms(6)]
  have "warm_reading cfg i (rs ! i)" if i: "i < length rs" for i
  proof -
    have "reading_ok (vc_confidence_interval cfg \<noteq> None) (rs ! i)" using r(2) i by simp
    then show ?thesis using w(2,3) [of i] i unfolding w(1) warm_reading_def reading_ok_def by blast
  qed
  then show ?thesis using r(1) w(1) by auto
qed

definition moving_tape :: "trade_in list" where
  "moving_tape = [(f64_of_nat 10, f64_of_nat 100, 1), (f64_of_nat 11, f64_of_nat 100, 2),
     (f64_of_nat 10, f64_of_nat 100, 3), (f64_of_nat 11, f64_of_nat 100, 4)]"

lemma moving_tape_run:
  "map cb_delta_p (snd (bucketer_run bucketer_100 moving_tape)) =
    [f64_zero, f64_of_nat 1, f64_neg (f64_of_nat 1), f64_of_nat 1]"
proof -
  have v: "f64_add f64_zero (f64_of_nat 100) = f64_of_nat 100" "\<not> f64_lt (f64_of_nat 100) (f64_of_nat 100)"
    using whole_add [of 0 100] by (simp_all add: f64_of_nat_0 whole_less)
  have p: "f64_sub (f64_of_nat 10) (f64_of_nat 10) = f64_zero" "f64_sub (f64_of_nat 11) (f64_of_nat 10) = f64_of_nat 1"
    "f64_sub (f64_of_nat 10) (f64_of_nat 11) = f64_neg (f64_of_nat 1)"
    using whole_sub [of 10 11] whole_gap_rounded [of 10 11] sub_same [of "f64_of_nat 10"] by (simp_all add: whole_finite)
  show ?thesis
    by (simp add: moving_tape_def bucketer_100_def VolumeBucketer_push_def Let_def v p)
qed

lemma moves_one:
  "moves [f64_zero, f64_of_nat 1]" "moves [f64_of_nat 1, f64_neg (f64_of_nat 1)]" "moves [f64_neg (f64_of_nat 1), f64_of_nat 1]"
proof -
  have one: "f64_is_finite (f64_of_nat 1)" "f64_val (f64_of_nat 1) = 1" "f64_val (f64_neg (f64_of_nat 1)) = -1"
    by (simp_all add: whole_finite f64_val_def uval_f64_of_nat one_units_def)
  then show "moves [f64_zero, f64_of_nat 1]" "moves [f64_of_nat 1, f64_neg (f64_of_nat 1)]"
    "moves [f64_neg (f64_of_nat 1), f64_of_nat 1]" by (simp_all add: moves_def f64_val_def [of f64_zero])
qed

lemma moving_tape_moves: "always_moves 2 (snd (bucketer_run bucketer_100 moving_tape))"
proof -
  let ?bs = "snd (bucketer_run bucketer_100 moving_tape)"
  have l: "length ?bs = 4" using arg_cong [OF moving_tape_run, of length] by simp
  have "i = 0 \<or> i = 1 \<or> i = 2" if "i + 2 \<le> 4" for i :: nat using that by linarith
  then show ?thesis using moves_one unfolding always_moves_def moving_tape_run l by (fastforce simp: numeral_2_eq_2)
qed

theorem engine_warms_up_witness:
  "\<exists>e' rs. engine_run erf_sign (fresh_engine cfg_small) moving_tape = Some (e', rs) \<and> length rs = 4 \<and>
    vr_vpin (rs ! 1) = None \<and> vr_vpin (rs ! 2) \<noteq> None \<and> vr_vpin_cdf (rs ! 2) = None \<and>
    vr_vpin_cdf (rs ! 3) \<noteq> None \<and> vr_vpin_ci_low (rs ! 3) = None"
proof -
  have b: "ve_bucketer (fresh_engine cfg_small) = bucketer_100"
    by (simp add: fresh_engine_def cfg_small_def bucketer_100_def)
  have c: "vc_sigma_window cfg_small = 2" "vc_vpin_window cfg_small = 1" "vc_cdf_window cfg_small = Some 2"
    "vc_confidence_interval cfg_small = None" by (simp_all add: cfg_small_def)
  have l: "length (snd (bucketer_run bucketer_100 moving_tape)) = 4"
    using arg_cong [OF moving_tape_run, of length] by simp
  have v: "\<forall>(p, v, t) \<in> set moving_tape. small v"
    by (simp add: moving_tape_def capped_def f64_of_nat_finite uval_f64_of_nat)
  have "vc_sigma_window cfg_small \<le> 2 ^ 52"
    "always_moves (vc_sigma_window cfg_small) (snd (bucketer_run (ve_bucketer (fresh_engine cfg_small)) moving_tape))"
    unfolding b c(1) by (simp, rule moving_tape_moves)
  from engine_warms_up [OF erf_sign_range cfg_small_new cfg_small_ok(2) this(1) v this(2)]
  obtain e' rs where r: "engine_run erf_sign (fresh_engine cfg_small) moving_tape = Some (e', rs)" "length rs = 4"
    "\<forall>i < 4. warm_reading cfg_small i (rs ! i)" unfolding b l by auto
  have "warm_reading cfg_small 1 (rs ! 1)" "warm_reading cfg_small 2 (rs ! 2)" "warm_reading cfg_small 3 (rs ! 3)"
    using r(3) by simp_all
  then show ?thesis using r(1,2) unfolding warm_reading_def c by auto
qed

end
