(* ===== verification/Goes_Live.thy ===== *)
theory Goes_Live
  imports Pipeline Client Warmup
begin

text \<open>
  From the socket to a live score: on a feed whose price keeps moving, the service comes out of its warm-up.
  Puts the warm-up of the engine (\<open>Warmup\<close>) behind an adapter and a worker (\<open>Pipeline\<close>) and in front of
  a client of \<open>crates/toxicity-client-rs\<close>.
\<close>

text \<open>What a consumer's state is once it has folded all that was broadcast: the last reading's score.\<close>

lemma fold_last_reading:
  assumes "filter is_reading ms = map (reading_message exch symbol) rs" "rs \<noteq> []" "vr_vpin (last rs) = Some v"
  shows "fold apply_message ms st = Live v (vr_vpin_cdf (last rs)) (vr_trades_in_bucket (last rs))"
  using assms
proof (induction ms arbitrary: rs rule: rev_induct)
  case (snoc m ms)
  show ?case
  proof (cases "is_reading m")
    case True
    obtain rs' r where rs: "rs = rs' @ [r]" using snoc.prems(2) by (cases rs rule: rev_cases) auto
    have "m = reading_message exch symbol r" using snoc.prems(1) True by (simp add: rs)
    then show ?thesis using snoc.prems(3) by (simp add: rs reading_message_def)
  next
    case False
    then have "fold apply_message ms st = Live v (vr_vpin_cdf (last rs)) (vr_trades_in_bucket (last rs))"
      using snoc by simp
    then show ?thesis using False by (cases m) simp_all
  qed
qed simp

definition feed_buckets :: "vpin_engine_config \<Rightarrow> trade_in list \<Rightarrow> closed_bucket list" where
  "feed_buckets cfg tape = snd (bucketer_run (ve_bucketer (fresh_engine cfg)) tape)"

text \<open>The buckets a task's worker has closed after the first \<open>n\<close> prints of its feed, and how many it needs.\<close>

definition task_buckets :: "'v venue_json \<Rightarrow> 'v session_script list \<Rightarrow> nat \<Rightarrow> stream_task \<Rightarrow> closed_bucket list" where
  "task_buckets json scripts n t =
     feed_buckets (tk_engine_cfg t) (take n (venue_tape json (tk_venue t) (tk_symbol t) scripts))"

definition buckets_to_warm :: "vpin_engine_config \<Rightarrow> nat" where
  "buckets_to_warm cfg = vc_sigma_window cfg + vc_vpin_window cfg"


text \<open>A Bybit stream with three prints of 100 units at the prices 1, 2 and 1, each closing a bucket.\<close>

definition json_moving :: "unit venue_json" where
  "json_moving = json_small\<lparr>vj_bybit := (\<lambda>v. Inr (str_of ''publicTrade.BTC'', map (\<lambda>p.
     \<lparr>by_time_ms = 3, by_side = str_of ''Buy'', by_price = str_of p, by_qty = str_of ''100''\<rparr>) [''1'', ''2'', ''1'']))\<rparr>"

lemma decimals_moving:
  "parse_fixed8 (str_of ''1'') = Inr 100000000" "parse_fixed8 (str_of ''2'') = Inr 200000000"
  "parse_fixed8 (str_of ''100'') = Inr 10000000000"
  using parse_fixed8_decimal [of "str_of ''1''" None "[]" "[]"] parse_fixed8_decimal [of "str_of ''2''" None "[]" "[]"]
    parse_fixed8_decimal [of "str_of ''100''" None "[]" "[]"]
  by (simp_all add: is_digit_def frac_digits_def decimal_text_def fixed8_units_def str_of_def)

lemma fixed8_whole: "fixed8_to_f64 100000000 = f64_of_nat 1" "fixed8_to_f64 200000000 = f64_of_nat 2"
  "fixed8_to_f64 10000000000 = f64_of_nat 100"
  using whole_div [of 1 100000000] whole_div [of 2 100000000] whole_div [of 100 100000000]
  by (simp_all add: fixed8_to_f64_def)

definition tape_moving :: "trade_in list" where
  "tape_moving = map (\<lambda>p. (f64_of_nat p, f64_of_nat 100, 3000000)) [1, 2, 1]"

lemma tape_moving: "venue_tape json_moving Bybit symbol [bybit_script] = tape_moving"
  by (simp add: venue_tape_def feed_tape_def script_texts_def json_moving_def json_small_def bybit_script_def
      bybit_prints_def wire_item_def decimals_moving fixed8_whole tape_moving_def saturating_mul_u64_def)
    (simp add: starts_with_def str_of_def)

lemma tape_moving_changes:
  "map cb_delta_p (feed_buckets cfg_small tape_moving) = [f64_zero, f64_of_nat 1, f64_neg (f64_of_nat 1)]"
proof -
  have v: "f64_add f64_zero (f64_of_nat 100) = f64_of_nat 100" "\<not> f64_lt (f64_of_nat 100) (f64_of_nat 100)"
    using whole_add [of 0 100] by (simp_all add: f64_of_nat_0 whole_less)
  have p: "f64_sub (f64_of_nat 1) (f64_of_nat 1) = f64_zero" "f64_sub (f64_of_nat 2) (f64_of_nat 1) = f64_of_nat 1"
    "f64_sub (f64_of_nat 1) (f64_of_nat 2) = f64_neg (f64_of_nat 1)"
    by (rule sub_same, simp add: whole_finite) (subst whole_sub whole_gap_rounded; simp)+
  have b: "ve_bucketer (fresh_engine cfg_small) = bucketer_100"
    by (simp add: fresh_engine_def cfg_small_def bucketer_100_def)
  show ?thesis unfolding feed_buckets_def b
    by (simp only: tape_moving_def list.map) (simp only: bucketer_100_def bucketer_run.simps, simp add: VolumeBucketer_push_def Let_def v p [unfolded One_nat_def])
qed

lemma tape_moving_moves: "always_moves 2 (feed_buckets cfg_small tape_moving)"
proof -
  have l: "length (feed_buckets cfg_small tape_moving) = 3"
    using arg_cong [OF tape_moving_changes, of length] by simp
  have "i = 0 \<or> i = 1" if "i + 2 \<le> 3" for i :: nat using that by linarith
  then show ?thesis using moves_one(1,2) unfolding always_moves_def tape_moving_changes l
    by (fastforce simp: numeral_2_eq_2)
qed


end
