(* ===== verification/Sweep_Warmup.thy ===== *)
theory Sweep_Warmup
  imports Calibrate_Stats Warmup
begin

text \<open>
  What a row of a sweep counts when the price keeps moving: every bucket, every bucket but the first
  \<open>sigma_window\<close> in the comparison with the reported sides, and a value from the bucket on at which the
  engine's windows are full.
\<close>

definition tape_buckets :: "f64 \<Rightarrow> calib_trade list \<Rightarrow> closed_bucket list" where
  "tape_buckets V trades = (case VolumeBucketer_new V of Inl e \<Rightarrow> []
     | Inr b \<Rightarrow> snd (bucketer_run b (map tape_in trades)))"

text \<open>The comparison pass and the engine see the same buckets and classify the same of them.\<close>

lemma piece_buckets_of: "\<forall>p \<in> set ps. p \<noteq> [] \<Longrightarrow>
    map fst (piece_buckets i prev ps) = buckets_of i prev (map (map tape_in) ps)"
proof (induction ps arbitrary: i prev)
  case (Cons p ps)
  have "fst (last (map tape_in p)) = ct_price (last p)" using Cons.prems by (simp add: last_map tape_in_def)
  then show ?case using Cons by simp
qed simp

lemma pieces_nonempty: "p \<in> set (pieces V cur ts) \<Longrightarrow> p \<noteq> []"
  by (induction V cur ts rule: pieces.induct) (auto split: if_splits)

lemma reference_buckets:
  assumes "VolumeBucketer_new V = Inr b"
  shows "map fst (piece_buckets 0 (case trades of [] \<Rightarrow> f64_zero | t # _ \<Rightarrow> ct_price t) (pieces V [] trades)) =
    tape_buckets V trades"
proof (cases trades)
  case (Cons t ts)
  define segs rest where "segs = fst (segments V [] f64_zero (map tape_in trades))"
    and "rest = snd (segments V [] f64_zero (map tape_in trades))"
  have g: "segments V [] (volume_of []) (map tape_in trades) = (segs, rest)" by (simp add: segs_def rest_def)
  have t: "map tape_in trades = (ct_price t, ct_volume t, ct_ts_ns t) # map tape_in ts" by (simp add: Cons tape_in_def [of t])
  have "snd (bucketer_run b (map tape_in trades)) = buckets_of 0 (ct_price t) segs"
    unfolding t run_first_price [OF new_push_open(2) [OF assms]]
    using run_open_state [OF new_push_open(1) [OF assms, of "ct_price t"] g] unfolding t by blast
  moreover have "map (map tape_in) (pieces V [] trades) = segs"
    using pieces_segments [of V "[]" trades] by (simp add: segs_def)
  ultimately show ?thesis using piece_buckets_of pieces_nonempty assms by (simp add: tape_buckets_def Cons)
qed (simp add: tape_buckets_def assms)

lemma comparison_pair: "comparison erf w earlier c p \<noteq> None \<longleftrightarrow> pair_of erf w earlier c \<noteq> None"
  by (simp add: comparison_def pair_of_def bucket_imbalance_def split: option.splits)

lemma length_comparisons_from:
  "\<forall>i < length earlier + length cps. length earlier \<le> i \<longrightarrow>
      (pair_of erf w (take i (earlier @ map fst cps)) ((earlier @ map fst cps) ! i) \<noteq> None \<longleftrightarrow> w \<le> i) \<Longrightarrow>
    length (comparisons erf w earlier cps) = length earlier + length cps - max w (length earlier)"
proof (induction erf w earlier cps rule: comparisons.induct)
  case (2 erf w earlier c p cps)
  have "pair_of erf w earlier c \<noteq> None \<longleftrightarrow> w \<le> length earlier"
    using spec [OF "2.prems", of "length earlier"] by simp
  moreover have "length (comparisons erf w (earlier @ [c]) cps) =
      length (earlier @ [c]) + length cps - max w (length (earlier @ [c]))"
    using "2.prems" by (intro "2.IH") simp
  ultimately show ?case using comparison_pair [of erf w earlier c p] by (auto simp: max_def split: option.splits)
qed simp

lemma compared_when_moving:
  assumes "VolumeBucketer_new V = Inr b" "always_moves w (tape_buckets V trades)" "2 \<le> w" "w \<le> 2 ^ 52"
  shows "length (bvc_reference erf V w trades) = length (tape_buckets V trades) - w"
proof -
  define cps where "cps = piece_buckets 0 (case trades of [] \<Rightarrow> f64_zero | t # _ \<Rightarrow> ct_price t) (pieces V [] trades)"
  have b: "map fst cps = tape_buckets V trades" unfolding cps_def by (rule reference_buckets [OF assms(1)])
  have "length cps = length (tape_buckets V trades)" using arg_cong [OF b, of length] by simp
  then have "\<forall>i < length [] + length cps. length [] \<le> i \<longrightarrow>
      (pair_of erf w (take i ([] @ map fst cps)) (([] @ map fst cps) ! i) \<noteq> None \<longleftrightarrow> w \<le> i)"
    using pair_of_warm [OF assms(2-4), of _ erf] unfolding b by simp
  from length_comparisons_from [OF this] show ?thesis
    using \<open>length cps = _\<close> by (simp add: bvc_reference_def cps_def)
qed

lemma length_values_from:
  "\<forall>i < length rs. f (rs ! i) \<noteq> None \<longleftrightarrow> k \<le> i \<Longrightarrow> length (List.map_filter f rs) = length rs - k"
proof (induction rs rule: rev_induct)
  case (snoc r rs)
  have "\<forall>i < length rs. f (rs ! i) \<noteq> None \<longleftrightarrow> k \<le> i"
  proof (intro allI impI)
    fix i assume "i < length rs"
    then show "f (rs ! i) \<noteq> None \<longleftrightarrow> k \<le> i" using spec [OF snoc.prems, of i] by (simp add: nth_append)
  qed
  note l = snoc.IH [OF this]
  have "f r \<noteq> None \<longleftrightarrow> k \<le> length rs" using spec [OF snoc.prems, of "length rs"] by (simp add: nth_append)
  then show ?case using l by (auto simp: List.map_filter_def)
qed (simp add: map_filter_simps)

text \<open>What a row says: \<open>n\<close> buckets, \<open>w\<close> and \<open>m\<close> its windows.\<close>

definition warm_counts :: "nat \<Rightarrow> usize \<Rightarrow> usize \<Rightarrow> calib_stats \<Rightarrow> bool" where
  "warm_counts n w m s \<longleftrightarrow> unat (st_total_buckets s) = n \<and> unat (st_bvc_compared s) = n - w \<and>
     unat (st_non_warmup_readings s) = n - (w + m - 1)"

lemma tape_buckets_length: "length (tape_buckets V trades) \<le> length trades"
proof (cases "VolumeBucketer_new V")
  case (Inr b)
  show ?thesis using arg_cong [OF reference_buckets [OF Inr, of trades], of length] length_pieces [of V "[]" trades] by simp
qed (simp add: tape_buckets_def)

lemma run_one_counts:
  assumes "length trades < 2 ^ 64" "w \<le> 2 ^ 52" "always_moves w (tape_buckets V trades)"
    "run_one erf trades cdf V w m = Some (Inr s)"
  shows "warm_counts (length (tape_buckets V trades)) w m s"
proof -
  let ?c = "calib_config V w m cdf" and ?bs = "tape_buckets V trades"
  obtain b where b: "bvc_accuracy_stats erf trades V w = Inr b" "calibrate_one erf trades V w m cdf b = Some (Inr s)"
    using assms(4) by (auto simp: run_one_def split: sum.splits)
  obtain e' rs where r: "VpinEngine_new ?c = Inr (fresh_engine ?c)"
    "engine_run erf (fresh_engine ?c) (map tape_in trades) = Some (e', rs)"
    "st_total_buckets s = of_nat (length rs)" "st_non_warmup_readings s = of_nat (length (List.map_filter vr_vpin rs))"
    "st_bvc_compared s = bv_compared b"
    using b(2) by (cases rule: calibrate_one_cases [of V w m cdf erf trades b]) (auto split: prod.splits)
  have c: "config_ok ?c" "2 \<le> w" "vc_sigma_window ?c = w" "vc_vpin_window ?c = m"
    using r(1) by (auto simp: VpinEngine_new_Inr config_ok_def calib_config_def)
  have v: "VolumeBucketer_new V = Inr (ve_bucketer (fresh_engine ?c))"
    using c(1) by (simp add: VolumeBucketer_new_def fresh_engine_def config_ok_def calib_config_def)
  then have bs: "snd (bucketer_run (ve_bucketer (fresh_engine ?c)) (map tape_in trades)) = ?bs" by (simp add: tape_buckets_def)
  note warm = warm_run [OF c(1) _ r(2), unfolded bs c(3,4), OF assms(2,3)]
  have "\<forall>i < length rs. vr_vpin (rs ! i) \<noteq> None \<longleftrightarrow> w + m - 1 \<le> i" using warm(1,2) by simp
  from length_values_from [OF this] have n: "length (List.map_filter vr_vpin rs) = length ?bs - (w + m - 1)"
    using warm(1) by simp
  have "bv_compared b = of_nat (length ?bs - w)"
    using b(1) compared_when_moving [OF v assms(3) c(2) assms(2), of erf] unfolding bvc_accuracy_stats_eq [OF assms(1)]
    by (auto simp: Let_def split: if_splits)
  moreover have "unat (of_nat (length ?bs - k) :: u64) = length ?bs - k" for k
  proof -
    have "length ?bs - k < 2 ^ 64" using tape_buckets_length [of V trades] assms(1) by linarith
    then show ?thesis by (simp add: unat_of_nat take_bit_nat_eq_self)
  qed
  moreover from this [of 0] have "unat (of_nat (length rs) :: u64) = length ?bs" using warm(1) by simp
  ultimately show ?thesis using r(3-5) n by (simp add: warm_counts_def)
qed

text \<open>C14: on a tape whose price keeps moving, every row of a sweep counts each closed bucket, compares each
  bucket after the first \<open>sigma_window\<close> with its reported sides, and has a value from the bucket on at which
  the windows are full; no bucket is skipped, counted twice or lost to a sigma of zero.\<close>

theorem sweep_counts_when_moving:
  assumes "length trades < 2 ^ 64" "run_sweep erf trades bvs sws vws cdf = Some rows" "r \<in> set rows"
    "sw_stats r = Inr s" "sw_sigma_window r \<le> 2 ^ 52"
    "always_moves (sw_sigma_window r) (tape_buckets (sw_bucket_volume r) trades)"
  shows "warm_counts (length (tape_buckets (sw_bucket_volume r) trades)) (sw_sigma_window r) (sw_vpin_window r) s"
proof -
  define out where "out = map (row_of erf trades cdf) (List.product bvs (List.product sws vws))"
  have one: "warm_counts (length (tape_buckets (sw_bucket_volume r) trades)) (sw_sigma_window r) (sw_vpin_window r) s'"
    if r': "r' \<in> set out" "row_key r' = row_key r" "sw_stats r' = Inr s'" for r' s'
  proof -
    obtain bv sw vw where k: "r' = row_of erf trades cdf (bv, sw, vw)" using r'(1) by (auto simp: out_def)
    then have "row_key r = (bv, sw, vw)" using r'(2) by (simp add: row_of_key)
    moreover have "run_one erf trades cdf bv sw vw = Some (Inr s')" using row_of_stats(1) r'(3) k by metis
    ultimately show ?thesis using run_one_counts [OF assms(1)] assms(5,6) by simp
  qed
  show ?thesis
  proof (rule run_sweep_cases [where erf = erf and trades = trades and cdf = cdf and bvs = bvs and sws = sws and vws = vws,
        folded out_def])
    assume "run_sweep erf trades bvs sws vws cdf = Some out"
    then show ?thesis using assms(2-4) one by simp
  next
    fix b sb
    assume "run_sweep erf trades bvs sws vws cdf =
      Some (map (fill_p_value erf b (st_bvc_accuracy sb) (st_bvc_compared sb)) (enumerate 0 out))"
    then obtain i where i: "i < length out" "r = fill_p_value erf b (st_bvc_accuracy sb) (st_bvc_compared sb) (i, out ! i)"
      using assms(2,3) by (auto simp: in_set_enumerate_eq)
    obtain s' where s': "sw_stats (out ! i) = Inr s'" "st_total_buckets s = st_total_buckets s'"
      "st_bvc_compared s = st_bvc_compared s'" "st_non_warmup_readings s = st_non_warmup_readings s'"
      using assms(4) unfolding i(2) fill_p_value_parts(2) by (cases "sw_stats (out ! i)"; cases "i = b") auto
    have "row_key (out ! i) = row_key r" using fill_p_value_parts(1) i(2) by simp
    from one [OF nth_mem [OF i(1)] this s'(1)] show ?thesis using s'(2-4) by (simp add: warm_counts_def)
  qed
qed

text \<open>Which rows of a sweep are refused, and their keys.\<close>

lemma run_sweep_kinds:
  "\<exists>rows. run_sweep erf trades bvs sws vws cdf = Some rows \<and> length rows = length bvs * (length sws * length vws) \<and>
    (\<forall>i < length rows. row_key (rows ! i) = List.product bvs (List.product sws vws) ! i \<and>
       isl (sw_stats (rows ! i)) = isl (sw_stats (row_of erf trades cdf (List.product bvs (List.product sws vws) ! i))))"
proof -
  have isl_map: "isl (map_sum id f x) = isl x" for f :: "calib_stats \<Rightarrow> calib_stats" and x :: "vpin_error + calib_stats"
    by (cases x) simp_all
  have k: "row_key (row_of erf trades cdf x) = x" for x by (cases x) (simp add: row_of_key)
  show ?thesis
  proof (rule run_sweep_cases [of erf trades bvs sws vws cdf])
    assume "run_sweep erf trades bvs sws vws cdf = Some (map (row_of erf trades cdf) (List.product bvs (List.product sws vws)))"
    then show ?thesis by (simp only: option.inject ex_simps simp_thms) (simp add: length_product k)
  next
    fix b s
    assume "run_sweep erf trades bvs sws vws cdf = Some (map (fill_p_value erf b (st_bvc_accuracy s) (st_bvc_compared s))
      (enumerate 0 (map (row_of erf trades cdf) (List.product bvs (List.product sws vws)))))"
    then show ?thesis by (simp add: length_product nth_enumerate_eq fill_p_value_parts isl_map k)
  qed
qed

definition moving_trades :: "calib_trade list" where
  "moving_trades = map (\<lambda>(p, v, t). \<lparr>ct_price = p, ct_volume = v, ct_ts_ns = t, ct_taker_side = Buy\<rparr>) moving_tape"

lemma moving_trades_buckets: "tape_buckets (f64_of_nat 100) moving_trades = snd (bucketer_run bucketer_100 moving_tape)"
proof -
  have "map tape_in moving_trades = moving_tape" by (simp add: moving_trades_def tape_in_def comp_def case_prod_beta)
  moreover have "VolumeBucketer_new (f64_of_nat 100) = Inr bucketer_100"
    by (simp add: VolumeBucketer_new_def bucketer_100_def whole_finite f64_of_nat_pos)
  ultimately show ?thesis by (simp add: tape_buckets_def)
qed

theorem sweep_counts_when_moving_witness:
  "\<exists>rows r s. run_sweep erf_sign moving_trades [f64_of_nat 100] [2] [1] None = Some rows \<and> r \<in> set rows \<and>
    sw_stats r = Inr s \<and> unat (st_total_buckets s) = 4 \<and> unat (st_bvc_compared s) = 2 \<and> unat (st_non_warmup_readings s) = 2"
proof -
  let ?V = "f64_of_nat 100"
  let ?r = "row_of erf_sign moving_trades None (?V, 2, 1)"
  have n: "length moving_trades < 2 ^ 64" by (simp add: moving_trades_def moving_tape_def)
  have l: "length (tape_buckets ?V moving_trades) = 4"
    unfolding moving_trades_buckets using arg_cong [OF moving_tape_run, of length] by simp
  have m: "always_moves 2 (tape_buckets ?V moving_trades)" unfolding moving_trades_buckets by (rule moving_tape_moves)
  have c: "VpinEngine_new (calib_config ?V 2 1 None) = Inr (fresh_engine (calib_config ?V 2 1 None))"
    by (simp add: VpinEngine_new_Inr config_ok_def calib_config_def whole_finite f64_of_nat_pos)
  obtain b where b: "bvc_accuracy_stats erf_sign moving_trades ?V 2 = Inr b"
    using bvc_accuracy_stats_eq [OF n, of erf_sign ?V 2] by (simp add: whole_finite f64_of_nat_pos Let_def)
  obtain s where s: "calibrate_one erf_sign moving_trades ?V 2 1 None b = Some (Inr s)"
    using c by (cases rule: calibrate_one_cases [of ?V 2 1 None erf_sign moving_trades b]) auto
  have r: "sw_stats ?r = Inr s" using s by (simp add: row_of_def run_one_def b)
  obtain rows where w: "run_sweep erf_sign moving_trades [?V] [2] [1] None = Some rows" "length rows = 1"
    "row_key (rows ! 0) = (?V, 2, 1)" "isl (sw_stats (rows ! 0)) = isl (sw_stats ?r)"
    using run_sweep_kinds [of erf_sign moving_trades "[?V]" "[2]" "[1]" None] by auto
  then obtain s' where s': "sw_stats (rows ! 0) = Inr s'" unfolding r by (cases "sw_stats (rows ! 0)") auto
  have k: "rows ! 0 \<in> set rows" using w(2) by (intro nth_mem) simp
  have q: "sw_bucket_volume (rows ! 0) = ?V" "sw_sigma_window (rows ! 0) = 2" "sw_vpin_window (rows ! 0) = 1" using w(3) by simp_all
  have "warm_counts 4 2 1 s'"
    using sweep_counts_when_moving [OF n w(1) k s', unfolded q l, OF _ m] by simp
  then show ?thesis using w(1) k s' by (auto simp: warm_counts_def)
qed

end
