(* ===== verification/Capture_Tool.thy ===== *)
theory Capture_Tool
  imports Capture Service
begin

text \<open>
  \<open>tools/capture/src/main.rs\<close>: the arguments and the \<open>select!\<close> loop that records an adapter's trades
  and flushes after every \<open>flush_every\<close> of them, on a timer, and on the way out. The recorder buffers:
  \<open>cr_content\<close> is all that was handed to it, \<open>cr_flushed\<close> how many of these bytes the last successful
  flush wrote; anything between the two may or may not be on disk when the process is killed.
\<close>

subsection \<open>Arguments\<close>

datatype capture_args_error =
    Capture_Usage
  | Unknown_Capture_Exchange str
  | Missing_Capture_Value str
  | Bad_Flush_Every str
  | Unknown_Capture_Flag str

record capture_args =
  cg_exchange :: exchange
  cg_symbol :: str
  cg_output :: str
  cg_flush_every :: u64

definition capture_parse_exchange :: "str \<Rightarrow> exchange option" where
  "capture_parse_exchange s = (let l = to_ascii_lowercase s in
     if l = str_of ''binance'' then Some Binance
     else if l = str_of ''bybit'' then Some Bybit
     else if l = str_of ''hyperliquid'' then Some Hyperliquid
     else None)"

fun capture_flags :: "str list \<Rightarrow> u64 \<Rightarrow> capture_args_error + u64" where
  "capture_flags [] flush_every = Inr flush_every"
| "capture_flags [flag] flush_every = Inl (Missing_Capture_Value flag)"
| "capture_flags (flag # v # args) flush_every =
     (if flag = str_of ''--flush-every''
      then (case parse_u64 v of None \<Rightarrow> Inl (Bad_Flush_Every v) | Some n \<Rightarrow> capture_flags args n)
      else Inl (Unknown_Capture_Flag flag))"

definition capture_parse_args :: "str list \<Rightarrow> capture_args_error + capture_args" where
  "capture_parse_args args =
     (case args of exchange_raw # symbol # output # flags \<Rightarrow>
        (case capture_parse_exchange exchange_raw of None \<Rightarrow> Inl (Unknown_Capture_Exchange exchange_raw)
         | Some e \<Rightarrow> result_bind (capture_flags flags 100) (\<lambda>flush_every.
             Inr \<lparr>cg_exchange = e, cg_symbol = symbol, cg_output = output, cg_flush_every = flush_every\<rparr>))
      | _ \<Rightarrow> Inl Capture_Usage)"

subsection \<open>The loop\<close>

text \<open>What \<open>select!\<close> delivers, with the outcome of the writes that follow.\<close>

datatype 'n capture_event =
    Trade_In 'n "str option" "str option"
  | Trades_Closed "str option"
  | Flush_Tick "str option"
  | Ctrl_C "str option"

datatype capture_exit =
    Task_Ended
  | Write_Failed str
  | Flush_Failed str
  | Final_Flush_Failed str
  | Capture_Success u64

record capture_run =
  cr_content :: "u8 list"
  cr_flushed :: nat
  cr_recorded :: u64
  cr_since_flush :: u64

definition do_flush :: "capture_run \<Rightarrow> capture_run" where
  "do_flush st = st\<lparr>cr_flushed := length (cr_content st), cr_since_flush := 0\<rparr>"

definition on_trade :: "('p, 'q, 's) feedhandler \<Rightarrow> u64 \<Rightarrow> ('p, 'q, 's) normalized_trade \<Rightarrow> str option \<Rightarrow> str option \<Rightarrow>
    capture_run \<Rightarrow> capture_exit option \<times> capture_run" where
  "on_trade fh flush_every trade write_error flush_error st =
     (case write_error of Some e \<Rightarrow> (Some (Write_Failed e), st)
      | None \<Rightarrow>
          (let st1 = st\<lparr>cr_content := TradeRecorder_record fh (cr_content st) trade,
                        cr_recorded := cr_recorded st + 1, cr_since_flush := cr_since_flush st + 1\<rparr>
           in if flush_every \<le> cr_since_flush st1
              then (case flush_error of Some e \<Rightarrow> (Some (Flush_Failed e), st1) | None \<Rightarrow> (None, do_flush st1))
              else (None, st1)))"

fun capture_loop :: "('p, 'q, 's) feedhandler \<Rightarrow> u64 \<Rightarrow> ('p, 'q, 's) normalized_trade capture_event list \<Rightarrow>
    capture_run \<Rightarrow> capture_exit option \<times> capture_run" where
  "capture_loop fh flush_every [] st = (None, st)"
| "capture_loop fh flush_every (Trade_In trade we fe # evs) st =
     (case on_trade fh flush_every trade we fe st of
        (Some x, st1) \<Rightarrow> (Some x, st1)
      | (None, st1) \<Rightarrow> capture_loop fh flush_every evs st1)"
| "capture_loop fh flush_every (Trades_Closed fe # evs) st =
     (Some Task_Ended, case fe of Some e \<Rightarrow> st | None \<Rightarrow> do_flush st)"
| "capture_loop fh flush_every (Flush_Tick fe # evs) st =
     (if 0 < cr_since_flush st
      then (case fe of Some e \<Rightarrow> (Some (Flush_Failed e), st) | None \<Rightarrow> capture_loop fh flush_every evs (do_flush st))
      else capture_loop fh flush_every evs st)"
| "capture_loop fh flush_every (Ctrl_C fe # evs) st =
     (case fe of Some e \<Rightarrow> (Some (Final_Flush_Failed e), st)
      | None \<Rightarrow> (Some (Capture_Success (cr_recorded st)), do_flush st))"

definition capture_start :: "u8 list \<Rightarrow> capture_run" where
  "capture_start content = \<lparr>cr_content = content, cr_flushed = length content, cr_recorded = 0, cr_since_flush = 0\<rparr>"

text \<open>\<open>main\<close>: the adapter it starts (always with the default backoff), and the loop.\<close>

definition capture_main :: "('p, 'q, 's) feedhandler \<Rightarrow> str list \<Rightarrow> (str \<Rightarrow> u8 list option) \<Rightarrow>
    ('p, 'q, 's) normalized_trade capture_event list \<Rightarrow>
    (capture_args_error + capture_error) + (exchange \<times> str \<times> backoff_config) \<times> capture_exit option \<times> capture_run" where
  "capture_main fh raw files evs =
     (case capture_parse_args raw of Inl e \<Rightarrow> Inl (Inl e)
      | Inr args \<Rightarrow>
          (case TradeRecorder_create (files (cg_output args)) of Inl e \<Rightarrow> Inl (Inr e)
           | Inr content \<Rightarrow> Inr ((cg_exchange args, cg_symbol args, BackoffConfig_default),
               capture_loop fh (cg_flush_every args) evs (capture_start content))))"

lemma capture_parse_exchange_eq: "capture_parse_exchange = parse_exchange"
  by (rule ext) (simp add: capture_parse_exchange_def parse_exchange_def)

subsection \<open>What a kill can lose\<close>

fun recorded_trades :: "'n capture_event list \<Rightarrow> 'n list" where
  "recorded_trades [] = []"
| "recorded_trades (Trade_In t we fe # evs) = t # recorded_trades evs"
| "recorded_trades (Trades_Closed fe # evs) = []"
| "recorded_trades (Flush_Tick fe # evs) = recorded_trades evs"
| "recorded_trades (Ctrl_C fe # evs) = []"

text \<open>\<open>ts\<close> recorded so far, all but the last \<open>since_flush\<close> of them flushed.\<close>

definition capture_inv :: "('p, 'q, 's) feedhandler \<Rightarrow> u64 \<Rightarrow> u8 list \<Rightarrow> ('p, 'q, 's) normalized_trade list \<Rightarrow>
    capture_run \<Rightarrow> bool" where
  "capture_inv fh flush_every c0 ts st \<longleftrightarrow> cr_content st = c0 @ stream fh ts \<and>
     cr_recorded st = of_nat (length ts) \<and> unat (cr_since_flush st) \<le> length ts \<and>
     (cr_since_flush st < flush_every \<or> cr_since_flush st = 0) \<and>
     cr_flushed st = length c0 + (length ts - unat (cr_since_flush st)) * RECORD_SIZE"

lemma capture_inv_flush:
  assumes "feedhandler_laws fh" "cr_content st = c0 @ stream fh ts" "cr_recorded st = of_nat (length ts)"
  shows "capture_inv fh flush_every c0 ts (do_flush st)"
  using assms trade_codec.length_stream [of ts fh] by (simp add: capture_inv_def do_flush_def)

lemma on_trade_inv:
  assumes "feedhandler_laws fh" "capture_inv fh flush_every c0 ts st" "on_trade fh flush_every t we fe st = (None, st')"
  shows "capture_inv fh flush_every c0 (ts @ [t]) st'"
proof -
  define st1 where "st1 = st\<lparr>cr_content := TradeRecorder_record fh (cr_content st) t,
    cr_recorded := cr_recorded st + 1, cr_since_flush := cr_since_flush st + 1\<rparr>"
  have c: "cr_content st1 = c0 @ stream fh (ts @ [t])" "cr_recorded st1 = of_nat (length (ts @ [t]))"
    using assms(2) by (simp_all add: st1_def capture_inv_def TradeRecorder_record_def)
  have st': "st' = (if flush_every \<le> cr_since_flush st1 then do_flush st1 else st1)"
    using assms(3) by (auto simp: on_trade_def Let_def st1_def split: option.splits if_splits)
  show ?thesis
  proof (cases "flush_every \<le> cr_since_flush st1")
    case True
    then show ?thesis using capture_inv_flush [OF assms(1) c] by (simp add: st')
  next
    case False
    then have lt: "cr_since_flush st + 1 < flush_every" by (simp add: st1_def)
    have "unat flush_every < 2 ^ LENGTH(64)" by (rule unsigned_less)
    then have "unat (cr_since_flush st) + unat (1 :: u64) < 2 ^ 64"
      using assms(2) by (auto simp: capture_inv_def word_less_nat_alt)
    then have "unat (cr_since_flush st + 1) = Suc (unat (cr_since_flush st))"
      using unat_add_u64_small [of "cr_since_flush st" 1] by simp
    then show ?thesis using False assms(2) c lt
      by (simp add: st' capture_inv_def st1_def)
  qed
qed

text \<open>The loop is still running or ended with no write error of its own.\<close>

definition stopped :: "capture_exit option \<Rightarrow> bool" where
  "stopped x \<longleftrightarrow> (case x of None \<Rightarrow> True | Some (Capture_Success m) \<Rightarrow> True | Some Task_Ended \<Rightarrow> True | _ \<Rightarrow> False)"

lemma on_trade_exit: "on_trade fh flush_every t we fe st = (Some z, st') \<Longrightarrow> \<not> stopped (Some z)"
  by (auto simp: on_trade_def Let_def stopped_def split: option.splits if_splits)

lemma capture_loop_inv:
  assumes "feedhandler_laws fh"
  shows "capture_inv fh flush_every c0 ts st \<Longrightarrow> capture_loop fh flush_every evs st = (x, st') \<Longrightarrow> stopped x \<Longrightarrow>
    capture_inv fh flush_every c0 (ts @ recorded_trades evs) st' \<and>
    (\<forall>m. x = Some (Capture_Success m) \<longrightarrow> m = cr_recorded st' \<and> cr_since_flush st' = 0)"
proof (induction evs arbitrary: ts st)
  case (Cons ev evs)
  show ?case
  proof (cases ev)
    case (Trade_In t we fe)
    obtain y st1 where o: "on_trade fh flush_every t we fe st = (y, st1)" by force
    have "y = None"
    proof (cases y)
      case (Some z)
      then have "x = Some z" using Cons.prems(2) by (simp add: Trade_In o)
      then show ?thesis using on_trade_exit o Some Cons.prems(3) by blast
    qed
    then show ?thesis using Cons.IH [OF on_trade_inv [OF assms Cons.prems(1)], of t we fe st1] Cons.prems(2,3) o
      by (simp add: Trade_In)
  next
    case (Flush_Tick fe)
    show ?thesis
    proof (cases "0 < cr_since_flush st")
      case True
      then have "fe = None" using Cons.prems(2,3) by (auto simp: Flush_Tick stopped_def split: option.splits)
      moreover have "capture_inv fh flush_every c0 ts (do_flush st)"
        using Cons.prems(1) by (intro capture_inv_flush [OF assms]) (simp_all add: capture_inv_def)
      ultimately show ?thesis using Cons.IH [of ts "do_flush st"] Cons.prems(2,3) True by (simp add: Flush_Tick)
    next
      case False
      then show ?thesis using Cons.IH [OF Cons.prems(1)] Cons.prems(2,3) by (simp add: Flush_Tick)
    qed
  next
    case (Ctrl_C fe)
    then show ?thesis using Cons.prems capture_inv_flush [OF assms, of st c0 ts flush_every]
      by (auto simp: stopped_def capture_inv_def do_flush_def split: option.splits)
  next
    case (Trades_Closed fe)
    then show ?thesis using Cons.prems capture_inv_flush [OF assms, of st c0 ts flush_every]
      by (auto simp: capture_inv_def do_flush_def split: option.splits)
  qed
qed (auto simp: stopped_def)



end
