(* ===== verification/Py_Vpin.thy ===== *)
theory Py_Vpin
  imports Calibrate_Cli
begin

text \<open>
  \<open>bindings/py-vpin/src/lib.rs\<close>: the Python classes around the engine. Conversions between Python and
  Rust values are pyo3's; a \<open>ValueError\<close> is its message.
\<close>

record py_vpin_reading =
  py_bucket_id :: u64
  py_ts_close_ns :: u64
  py_trades_in_bucket :: u32
  py_vpin :: "f64 option"
  py_vpin_cdf :: "f64 option"

definition py_reading_from :: "vpin_reading \<Rightarrow> py_vpin_reading" where
  "py_reading_from r = \<lparr>py_bucket_id = vr_bucket_id r, py_ts_close_ns = vr_ts_close_ns r,
     py_trades_in_bucket = vr_trades_in_bucket r, py_vpin = vr_vpin r, py_vpin_cdf = vr_vpin_cdf r\<rparr>"

definition opt_repr :: "(f64 \<Rightarrow> str) \<Rightarrow> f64 option \<Rightarrow> str" where
  "opt_repr show_f64 v = (case v of Some x \<Rightarrow> show_f64 x | None \<Rightarrow> str_of ''None'')"

definition py_repr :: "(f64 \<Rightarrow> str) \<Rightarrow> py_vpin_reading \<Rightarrow> str" where
  "py_repr show_f64 r = str_of ''VpinReading(bucket_id='' @ show_u64 (py_bucket_id r) @
     str_of '', trades_in_bucket='' @ show_nat (unat (py_trades_in_bucket r)) @
     str_of '', vpin='' @ opt_repr show_f64 (py_vpin r) @
     str_of '', vpin_cdf='' @ opt_repr show_f64 (py_vpin_cdf r) @ str_of '')''"

record py_vpin_engine =
  py_inner :: vpin_engine

definition py_engine_new :: "(f64 \<Rightarrow> str) \<Rightarrow> f64 \<Rightarrow> usize \<Rightarrow> usize \<Rightarrow> usize option \<Rightarrow> str + py_vpin_engine" where
  "py_engine_new show_f64 bucket_volume sigma_window vpin_window cdf_window =
     (case VpinEngine_new \<lparr>vc_bucket_volume = bucket_volume, vc_sigma_window = sigma_window,
             vc_vpin_window = vpin_window, vc_cdf_window = cdf_window, vc_confidence_interval = None\<rparr> of
        Inl e \<Rightarrow> Inl (vpin_error_text show_f64 e)
      | Inr inner \<Rightarrow> Inr \<lparr>py_inner = inner\<rparr>)"

definition py_push_trade :: "(f64 \<Rightarrow> f64) \<Rightarrow> py_vpin_engine \<Rightarrow> f64 \<Rightarrow> f64 \<Rightarrow> u64 \<Rightarrow>
    (py_vpin_engine \<times> py_vpin_reading option) option" where
  "py_push_trade erf e price volume ts_ns =
     map_option (\<lambda>(inner, r). (e\<lparr>py_inner := inner\<rparr>, map_option py_reading_from r))
       (push_trade erf (py_inner e) price volume ts_ns)"

text \<open>Python never sees a panic: an engine it could construct has no confidence interval, and then no
  trade, whatever its numbers, makes the engine panic; nor does any trade after it.\<close>

fun py_run :: "(f64 \<Rightarrow> f64) \<Rightarrow> py_vpin_engine \<Rightarrow> trade_in list \<Rightarrow> (py_vpin_engine \<times> py_vpin_reading list) option" where
  "py_run erf e [] = Some (e, [])"
| "py_run erf e ((p, v, t) # ts) = (case py_push_trade erf e p v t of None \<Rightarrow> None
     | Some (e', out) \<Rightarrow> map_option (\<lambda>(e'', outs). (e'', (case out of None \<Rightarrow> outs | Some r \<Rightarrow> r # outs))) (py_run erf e' ts))"

lemma py_run_engine: "py_run erf e ts =
    map_option (\<lambda>(inner, rs). (e\<lparr>py_inner := inner\<rparr>, map py_reading_from rs)) (engine_run erf (py_inner e) ts)"
proof (induction ts arbitrary: e)
  case (Cons x ts)
  obtain p v t where x: "x = (p, v, t)" by (cases x)
  show ?case by (simp add: x py_push_trade_def Cons.IH option.map_comp comp_def split_beta split: option.splits)
qed simp

theorem py_never_panics:
  assumes "py_engine_new show_f64 bucket_volume sigma_window vpin_window cdf_window = Inr e"
  shows "\<exists>e' rs. py_run erf e ts = Some (e', rs) \<and>
    map_option (map py_reading_from \<circ> snd) (engine_run erf (py_inner e) ts) = Some rs"
proof -
  have "ve_ci (py_inner e) = None"
    using assms by (auto simp: py_engine_new_def VpinEngine_new_Inr fresh_engine_def split: sum.splits)
  then obtain inner rs where "engine_run erf (py_inner e) ts = Some (inner, rs)" using engine_run_no_ci by blast
  then show ?thesis by (simp add: py_run_engine)
qed

end
