(* ===== verification/Tests_Ingest.thy ===== *)
theory Tests_Ingest
  imports Capture_Reader Pipeline Process
begin

text \<open>
  The unit tests of \<open>crates/backoff\<close> and \<open>crates/trade-ingest\<close>, translated assertion by assertion and proved of
  the model: what the authors expect of the code is what the definitions do. The texts the adapters' tests
  decode enter as what the JSON parser makes of them; files are their contents.
\<close>

subsection \<open>\<open>crates/backoff/src/lib.rs\<close>\<close>

definition backoff_config_default_matches_documented_safe_defaults :: bool where
  "backoff_config_default_matches_documented_safe_defaults \<longleftrightarrow>
     (let cfg = BackoffConfig_default in bc_base cfg = millis 250 \<and> bc_max cfg = secs 30)"

definition backoff_config_build_produces_a_working_backoff :: bool where
  "backoff_config_build_produces_a_working_backoff \<longleftrightarrow>
     delays 4 (BackoffConfig_build \<lparr>bc_base = millis 10, bc_max = millis 40\<rparr>) = [millis 10, millis 20, millis 40, millis 40]"

definition doubles_each_attempt_until_capped :: bool where
  "doubles_each_attempt_until_capped \<longleftrightarrow>
     delays 4 (ExponentialBackoff_new (millis 100) (secs 5)) = [millis 100, millis 200, millis 400, millis 800]"

definition caps_at_max :: bool where
  "caps_at_max \<longleftrightarrow> (\<forall>d \<in> set (delays 10 (ExponentialBackoff_new (secs 1) (secs 3))). d \<le> secs 3)"

definition reset_goes_back_to_base :: bool where
  "reset_goes_back_to_base \<longleftrightarrow>
     (let b = ExponentialBackoff_new (millis 100) (secs 5); b2 = snd (next_delay (snd (next_delay b)))
      in fst (next_delay (backoff_reset b2)) = millis 100)"

definition never_panics_over_many_attempts :: bool where
  "never_panics_over_many_attempts \<longleftrightarrow>
     (\<forall>d \<in> set (delays 10000 (ExponentialBackoff_new (millis 50) (secs 10))). d \<le> secs 10)"

lemma delays_new: "n \<le> 2 ^ 32 \<Longrightarrow> delays n (ExponentialBackoff_new base mx) = map (delay_at base mx) [0..<n]"
  using delays_from [of "ExponentialBackoff_new base mx" 0 n] by (simp add: ExponentialBackoff_new_def)

lemma backoff_tests:
  "backoff_config_default_matches_documented_safe_defaults"
  "backoff_config_build_produces_a_working_backoff"
  "doubles_each_attempt_until_capped" "caps_at_max" "reset_goes_back_to_base" "never_panics_over_many_attempts"
proof -
  show backoff_config_default_matches_documented_safe_defaults
    by (simp add: backoff_config_default_matches_documented_safe_defaults_def BackoffConfig_default_def)
  show caps_at_max never_panics_over_many_attempts
    unfolding caps_at_max_def never_panics_over_many_attempts_def using delay_at_le by (auto simp: delays_new)
  show reset_goes_back_to_base
    by (simp add: reset_goes_back_to_base_def next_delay_def Let_def ExponentialBackoff_new_def backoff_reset_def
        saturating_pow2_u32_def duration_saturating_mul_def duration_max_def)
  show backoff_config_build_produces_a_working_backoff doubles_each_attempt_until_capped
    by (simp_all add: backoff_config_build_produces_a_working_backoff_def doubles_each_attempt_until_capped_def
        BackoffConfig_build_def delays_new upt_conv_Cons delay_at_def duration_saturating_mul_def duration_max_def)
qed

subsection \<open>\<open>crates/trade-ingest/src/types.rs\<close>\<close>

definition parses_whole_number :: bool where
  "parses_whole_number \<longleftrightarrow> parse_fixed8 (str_of ''16578'') = Inr 1657800000000"

definition parses_exact_8_decimals :: bool where
  "parses_exact_8_decimals \<longleftrightarrow> parse_fixed8 (str_of ''0.00000001'') = Inr 1"

definition parses_short_decimal_pads_with_zeros :: bool where
  "parses_short_decimal_pads_with_zeros \<longleftrightarrow> parse_fixed8 (str_of ''16578.50'') = Inr 1657850000000"

definition rejects_more_than_8_decimals :: bool where
  "rejects_more_than_8_decimals \<longleftrightarrow> is_err (parse_fixed8 (str_of ''1.123456789''))"

definition rejects_negative :: bool where
  "rejects_negative \<longleftrightarrow> is_err (parse_fixed8 (str_of ''-1.5''))"

definition rejects_garbage :: bool where
  "rejects_garbage \<longleftrightarrow> is_err (parse_fixed8 []) \<and> is_err (parse_fixed8 (str_of ''abc'')) \<and>
     is_err (parse_fixed8 (str_of ''1.2.3''))"

text \<open>\<open>format!("{int_part}.{frac_part:08}")\<close>: the integer part without leading zeros.\<close>

definition parse_fixed8_round_trips_arbitrary_values :: "u64 \<Rightarrow> bool" where
  "parse_fixed8_round_trips_arbitrary_values raw \<longleftrightarrow>
     parse_fixed8 (show_nat (unat raw div 100000000) @ 46 # digits_n 8 (unat raw mod 100000000)) = Inr raw"

named_theorems decimal_eval \<open>evaluation of the decimal parser on a literal\<close>

lemma replicate_eval [decimal_eval]: "replicate (numeral n) c = c # replicate (pred_numeral n) c"
  by (simp add: numeral_eq_Suc)

lemmas parser_eval [decimal_eval] = parse_fixed8_def str_of_def trim_def white_space_def starts_with_def utf8_len_def
  utf8_width_def parse_u64_def strip_plus_def is_digit_def checked_mul_u64_def checked_add_u64_def Let_def

lemma show_nat_dec: "show_nat n \<noteq> [] \<and> digits (show_nat n) \<and> dec (show_nat n) = n"
  by (rule show_nat_digits)

lemma types_tests:
  "parses_whole_number" "parses_exact_8_decimals" "parses_short_decimal_pads_with_zeros"
  "rejects_more_than_8_decimals" "rejects_negative" "rejects_garbage" "parse_fixed8_round_trips_arbitrary_values raw"
proof -
  show parses_whole_number parses_exact_8_decimals parses_short_decimal_pads_with_zeros
    by (simp_all add: parses_whole_number_def parses_exact_8_decimals_def parses_short_decimal_pads_with_zeros_def decimal_eval)
  show rejects_more_than_8_decimals rejects_negative rejects_garbage
    by (simp_all add: rejects_more_than_8_decimals_def rejects_negative_def rejects_garbage_def decimal_eval)
  let ?n = "unat raw"
  let ?f = "Some (digits_n 8 (?n mod 100000000))"
  have n: "?n < 2 ^ 64" using unsigned_less [of raw, where 'a = nat] by simp
  have u: "fixed8_units (show_nat (?n div 100000000)) ?f = ?n"
    using show_nat_dec [of "?n div 100000000"] by (simp add: fixed8_units_def frac_digits_def digits_n_facts)
  have "digits (frac_digits ?f)" "length (frac_digits ?f) \<le> 8" by (simp_all add: frac_digits_def digits_n_facts)
  then have "parse_fixed8 ([] @ decimal_text (show_nat (?n div 100000000)) ?f @ []) = Inr (of_nat ?n)"
    using parse_fixed8_decimal [of "show_nat (?n div 100000000)" ?f "[]" "[]"] show_nat_dec [of "?n div 100000000"] n
    unfolding u by simp
  then show "parse_fixed8_round_trips_arbitrary_values raw"
    by (simp add: parse_fixed8_round_trips_arbitrary_values_def decimal_text_def)
qed

subsection \<open>\<open>crates/trade-ingest/src/capture.rs\<close>\<close>

definition test_trade :: "('p, 'q, 's) feedhandler \<Rightarrow> u64 \<Rightarrow> ('p, 'q, 's) normalized_trade" where
  "test_trade fh seq = \<lparr>nt_price = price_new fh (100 + seq), nt_qty = qty_new fh 1, nt_ts_exchange_ns = seq * 1000,
     nt_ts_recv_ns = seq * 1000 + 50, nt_symbol = symbol_from_bytes fh (map of_nat (str_of ''BTCUSDT'')),
     nt_exchange = Binance, nt_taker_side = (if seq mod 2 = 0 then Buy else Sell), nt_sequence = seq\<rparr>"

text \<open>\<open>InvalidData\<close>: an error of this code, not of the operating system.\<close>

definition invalid_data :: "capture_error + 'a \<Rightarrow> bool" where
  "invalid_data r \<longleftrightarrow> is_err r \<and> \<not> read_failed r"

text \<open>Creating a file, recording, reading all of it.\<close>

definition recorded :: "('p, 'q, 's) feedhandler \<Rightarrow> u8 list option \<Rightarrow> ('p, 'q, 's) normalized_trade list \<Rightarrow> u8 list option" where
  "recorded fh file ts = (case write_session fh file ts of Inl e \<Rightarrow> None | Inr c \<Rightarrow> Some c)"

definition read_back :: "('p, 'q, 's) feedhandler \<Rightarrow> u8 list option \<Rightarrow> (capture_error + ('p, 'q, 's) normalized_trade) list option" where
  "read_back fh file = Option.bind file (\<lambda>c. case TradeReader_open c of Inl e \<Rightarrow> None | Inr body \<Rightarrow> Some (read_all fh [Chunk body]))"

definition round_trips_a_session_bit_for_bit :: "('p, 'q, 's) feedhandler \<Rightarrow> bool" where
  "round_trips_a_session_bit_for_bit fh \<longleftrightarrow>
     (let written = map (\<lambda>i. test_trade fh (of_nat i)) [0..<50]
      in read_back fh (recorded fh None written) = Some (map Inr written))"

definition file_starts_with_the_format_header :: "('p, 'q, 's) feedhandler \<Rightarrow> bool" where
  "file_starts_with_the_format_header fh \<longleftrightarrow> (case recorded fh None [] of None \<Rightarrow> False
     | Some bytes \<Rightarrow> length bytes = HEADER_SIZE \<and> take 4 bytes = MAGIC \<and> bytes ! 4 = FORMAT_VERSION)"

definition reopening_an_existing_file_validates_header_and_appends_after_it :: "('p, 'q, 's) feedhandler \<Rightarrow> bool" where
  "reopening_an_existing_file_validates_header_and_appends_after_it fh \<longleftrightarrow>
     read_back fh (recorded fh (recorded fh None [test_trade fh 1]) [test_trade fh 2]) =
       Some [Inr (test_trade fh 1), Inr (test_trade fh 2)]"

definition reader_rejects_wrong_magic :: bool where
  "reader_rejects_wrong_magic \<longleftrightarrow>
     invalid_data (TradeReader_open (map of_nat (str_of ''NOPE'') @ 1 # map of_nat (str_of ''somejunkafterit'')))"

definition reader_rejects_unsupported_version :: bool where
  "reader_rejects_unsupported_version \<longleftrightarrow> invalid_data (TradeReader_open (MAGIC @ [FORMAT_VERSION + 1]))"

definition reader_rejects_file_too_short_for_a_header :: bool where
  "reader_rejects_file_too_short_for_a_header \<longleftrightarrow> invalid_data (TradeReader_open (map of_nat (str_of ''GT'')))"

definition recorder_refuses_to_reopen_a_file_with_wrong_version :: bool where
  "recorder_refuses_to_reopen_a_file_with_wrong_version \<longleftrightarrow>
     invalid_data (TradeRecorder_create (Some (MAGIC @ [FORMAT_VERSION + 1])))"

definition truncated_trailing_record_is_an_error_not_a_silent_stop :: "('p, 'q, 's) feedhandler \<Rightarrow> bool" where
  "truncated_trailing_record_is_an_error_not_a_silent_stop fh \<longleftrightarrow>
     (case read_back fh (map_option (take (HEADER_SIZE + RECORD_SIZE + 10)) (recorded fh None [test_trade fh 1, test_trade fh 2])) of
        Some [r1, r2] \<Rightarrow> r1 = Inr (test_trade fh 1) \<and> is_err r2
      | _ \<Rightarrow> False)"

definition corrupt_exchange_discriminant_is_rejected :: "('p, 'q, 's) feedhandler \<Rightarrow> bool" where
  "corrupt_exchange_discriminant_is_rejected fh \<longleftrightarrow>
     (case read_back fh (map_option (\<lambda>c. c[HEADER_SIZE + 48 := 200]) (recorded fh None [test_trade fh 1])) of
        Some (r # rs) \<Rightarrow> is_err r | _ \<Rightarrow> False)"

definition corrupt_taker_side_discriminant_is_rejected :: "('p, 'q, 's) feedhandler \<Rightarrow> bool" where
  "corrupt_taker_side_discriminant_is_rejected fh \<longleftrightarrow>
     (case read_back fh (map_option (\<lambda>c. c[HEADER_SIZE + 49 := 7]) (recorded fh None [test_trade fh 1])) of
        Some (r # rs) \<Rightarrow> is_err r | _ \<Rightarrow> False)"

definition empty_file_yields_no_records :: "('p, 'q, 's) feedhandler \<Rightarrow> bool" where
  "empty_file_yields_no_records fh \<longleftrightarrow> read_back fh (recorded fh None []) = Some []"

lemma recorded_fresh: "recorded fh None ts = Some (header_bytes @ stream fh ts)"
  by (simp add: recorded_def write_session_def create_fresh foldl_record)

lemma recorded_again: "recorded fh (Some (header_bytes @ bs)) ts = Some (header_bytes @ bs @ stream fh ts)"
  by (simp add: recorded_def write_session_def create_header foldl_record)

lemma read_back_bytes: "read_back fh (Some (header_bytes @ bs)) = Some (frames RECORD_SIZE (decode_record fh) TruncatedRecord bs)"
proof (cases "bs = []")
  case True
  have "read_all fh [Chunk []] = []" by (simp add: read_all.simps TradeReader_next_def)
  then show ?thesis using read_header_ok [of header_bytes] True
    by (simp add: read_back_def TradeReader_open_def trade_codec.frames_Nil)
next
  case False
  then have "read_all fh [Chunk bs] = frames RECORD_SIZE (decode_record fh) TruncatedRecord bs" by (subst read_all_frames) (simp_all add: no_failure_def)
  then show ?thesis using read_header_ok [of "header_bytes @ bs"] by (simp add: read_back_def TradeReader_open_def)
qed

lemma read_back_stream:
  assumes "feedhandler_laws fh"
  shows "read_back fh (Some (header_bytes @ stream fh ts)) = Some (map Inr ts)"
  using trade_codec.frames_append [of ts fh "[]"] assms by (simp add: read_back_bytes trade_codec.frames_Nil)

text \<open>A record with a byte replaced is still one frame.\<close>

lemma read_back_corrupt:
  assumes "feedhandler_laws fh" "i < RECORD_SIZE"
  shows "read_back fh (map_option (\<lambda>c. c[HEADER_SIZE + i := b]) (recorded fh None [t])) =
    Some [decode_record fh ((record_bytes fh t)[i := b])]"
proof -
  have n: "length (record_bytes fh t) = RECORD_SIZE" by (rule record_bytes_length [OF assms(1)])
  have "(header_bytes @ record_bytes fh t)[HEADER_SIZE + i := b] = header_bytes @ (record_bytes fh t)[i := b]"
    by (simp add: list_update_append)
  moreover have "frames RECORD_SIZE (decode_record fh) TruncatedRecord ((record_bytes fh t)[i := b]) =
      [decode_record fh ((record_bytes fh t)[i := b])]"
    using n by (subst frames.simps) (auto simp: trade_codec.frames_Nil)
  ultimately show ?thesis by (simp add: recorded_fresh read_back_bytes)
qed

lemma capture_header_tests:
  "reader_rejects_wrong_magic" "reader_rejects_unsupported_version" "reader_rejects_file_too_short_for_a_header"
  "recorder_refuses_to_reopen_a_file_with_wrong_version"
  by (simp_all add: reader_rejects_wrong_magic_def reader_rejects_unsupported_version_def
      reader_rejects_file_too_short_for_a_header_def recorder_refuses_to_reopen_a_file_with_wrong_version_def
      invalid_data_def TradeReader_open_def TradeRecorder_create_def read_header_def validate_header_def
      MAGIC_def FORMAT_VERSION_def str_of_def)

lemma capture_tests:
  assumes "feedhandler_laws fh"
  shows "round_trips_a_session_bit_for_bit fh" "file_starts_with_the_format_header fh"
    "reopening_an_existing_file_validates_header_and_appends_after_it fh"
    "truncated_trailing_record_is_an_error_not_a_silent_stop fh"
    "corrupt_exchange_discriminant_is_rejected fh" "corrupt_taker_side_discriminant_is_rejected fh"
    "empty_file_yields_no_records fh"
proof -
  show "round_trips_a_session_bit_for_bit fh"
    by (simp only: round_trips_a_session_bit_for_bit_def Let_def recorded_fresh read_back_stream [OF assms])
  show "file_starts_with_the_format_header fh"
    by (simp add: file_starts_with_the_format_header_def recorded_fresh header_bytes_def MAGIC_def)
  show "reopening_an_existing_file_validates_header_and_appends_after_it fh"
    using read_back_stream [OF assms, of "[test_trade fh 1, test_trade fh 2]"]
    by (simp add: reopening_an_existing_file_validates_header_and_appends_after_it_def recorded_fresh recorded_again)
  show "empty_file_yields_no_records fh"
    using read_back_stream [OF assms, of "[]"] by (simp add: empty_file_yields_no_records_def recorded_fresh)
  show "truncated_trailing_record_is_an_error_not_a_silent_stop fh"
  proof -
    let ?ts = "[test_trade fh 1, test_trade fh 2]"
    have n: "length (stream fh ?ts) = 2 * RECORD_SIZE" by (simp add: record_bytes_length [OF assms])
    have r: "recorded fh None ?ts = Some (header_bytes @ stream fh ?ts)" by (rule recorded_fresh)
    define body where "body = stream fh ?ts"
    have "frames RECORD_SIZE (decode_record fh) TruncatedRecord (take 68 body) = [Inr (test_trade fh 1), Inl (TruncatedRecord 10)]"
      using trade_codec.frames_prefix [of ?ts fh 68] assms n unfolding body_def by simp
    then have "read_back fh (Some (header_bytes @ take 68 body)) = Some [Inr (test_trade fh 1), Inl (TruncatedRecord 10)]"
      using read_back_bytes [of fh "take 68 body"] by simp
    then show ?thesis unfolding truncated_trailing_record_is_an_error_not_a_silent_stop_def r body_def [symmetric] by simp
  qed
  have n: "length (record_bytes fh (test_trade fh 1)) = RECORD_SIZE" by (rule record_bytes_length [OF assms])
  show "corrupt_exchange_discriminant_is_rejected fh"
    using read_back_corrupt [OF assms, of 48] n
    by (simp add: corrupt_exchange_discriminant_is_rejected_def decode_record_def exchange_from_u8_def)
  have "record_bytes fh (test_trade fh 1) ! 48 = exchange_code fh Binance"
    using assms by (simp add: record_bytes_def nth_append feedhandler_laws_def test_trade_def)
  then show "corrupt_taker_side_discriminant_is_rejected fh"
    using read_back_corrupt [OF assms, of 49] n assms
    by (simp add: corrupt_taker_side_discriminant_is_rejected_def decode_record_def exchange_from_u8_def taker_side_from_u8_def
        feedhandler_laws_def)
qed

subsection \<open>\<open>binance.rs\<close>, \<open>bybit.rs\<close>, \<open>hyperliquid.rs\<close>\<close>

text \<open>The samples as the JSON parser reads them. A decoder is called with what it finds in the message.\<close>

definition binance_sample :: agg_trade where
  "binance_sample = \<lparr>agg_trade_time_ms = 1672515782136, agg_price = str_of ''0.001'', agg_qty = str_of ''100'',
     agg_buyer_is_maker = True\<rparr>"

definition binance_decodes_sample_envelope :: "('p, 'q, 's) feedhandler \<Rightarrow> (u64 \<Rightarrow> u64) \<Rightarrow> bool" where
  "binance_decodes_sample_envelope fh clock \<longleftrightarrow>
     (case binance_decode (\<lambda>msg. Inr binance_sample) fh clock (symbol_from_bytes fh []) [] 0 of
        (Inr t, _) \<Rightarrow> price_raw fh (nt_price t) = 100000 \<and> qty_raw fh (nt_qty t) = 100 * 100000000 \<and>
          nt_ts_exchange_ns t = 1672515782136000000 \<and> nt_taker_side t = Sell \<and> nt_exchange t = Binance \<and> nt_sequence t = 0
      | _ \<Rightarrow> False)"

definition sequence_increments_across_calls :: "('p, 'q, 's) feedhandler \<Rightarrow> (u64 \<Rightarrow> u64) \<Rightarrow> bool" where
  "sequence_increments_across_calls fh clock \<longleftrightarrow>
     (case binance_decode (\<lambda>msg. Inr binance_sample) fh clock (symbol_from_bytes fh []) [] 0 of
        (Inr a, s) \<Rightarrow> (case binance_decode (\<lambda>msg. Inr binance_sample) fh clock (symbol_from_bytes fh []) [] s of
            (Inr b, _) \<Rightarrow> nt_sequence a = 0 \<and> nt_sequence b = 1 | _ \<Rightarrow> False)
      | _ \<Rightarrow> False)"

definition buyer_is_taker_when_m_is_false :: "('p, 'q, 's) feedhandler \<Rightarrow> (u64 \<Rightarrow> u64) \<Rightarrow> bool" where
  "buyer_is_taker_when_m_is_false fh clock \<longleftrightarrow>
     (case binance_decode (\<lambda>msg. Inr (binance_sample\<lparr>agg_buyer_is_maker := False\<rparr>)) fh clock (symbol_from_bytes fh []) [] 0 of
        (Inr t, _) \<Rightarrow> nt_taker_side t = Buy | _ \<Rightarrow> False)"

definition url_is_lowercased_and_market_routed :: bool where
  "url_is_lowercased_and_market_routed \<longleftrightarrow> binance_url (str_of ''bnbusdt'') =
     str_of ''wss://fstream.binance.com/market/stream?streams=bnbusdt@aggTrade''"

definition rejects_malformed_json :: "('p, 'q, 's) feedhandler \<Rightarrow> (u64 \<Rightarrow> u64) \<Rightarrow> bool" where
  "rejects_malformed_json fh clock \<longleftrightarrow>
     is_err (fst (binance_decode Inl fh clock (symbol_from_bytes fh []) (str_of ''not json'') 0))"

definition bybit_sample :: bybit_trade where
  "bybit_sample = \<lparr>by_time_ms = 1672304486865, by_side = str_of ''Buy'', by_price = str_of ''16578.50'', by_qty = str_of ''0.001''\<rparr>"

definition bybit_decode_push :: "('p, 'q, 's) feedhandler \<Rightarrow> (u64 \<Rightarrow> u64) \<Rightarrow> bybit_trade list \<Rightarrow>
    ('p, 'q, 's) decoded" where
  "bybit_decode_push fh clock prints = bybit_decode Inr (\<lambda>v. True) (\<lambda>v. Inr (str_of ''publicTrade.BTCUSDT'', prints))
     fh clock (symbol_from_bytes fh []) [] 0"

definition bybit_decodes_sample_envelope :: "('p, 'q, 's) feedhandler \<Rightarrow> (u64 \<Rightarrow> u64) \<Rightarrow> bool" where
  "bybit_decodes_sample_envelope fh clock \<longleftrightarrow> (case bybit_decode_push fh clock [bybit_sample] of
      (Inr [t], _) \<Rightarrow> price_raw fh (nt_price t) = 1657850000000 \<and> qty_raw fh (nt_qty t) = 100000 \<and>
        nt_taker_side t = Buy \<and> nt_exchange t = Bybit \<and> nt_ts_exchange_ns t = 1672304486865000000
    | _ \<Rightarrow> False)"

text \<open>A pong and a subscription's answer have no \<open>topic\<close>.\<close>

definition ignores_control_messages_without_topic :: "('p, 'q, 's) feedhandler \<Rightarrow> (u64 \<Rightarrow> u64) \<Rightarrow> bool" where
  "ignores_control_messages_without_topic fh clock \<longleftrightarrow> (\<forall>envelope.
     bybit_decode Inr (\<lambda>v. False) envelope fh clock (symbol_from_bytes fh []) [] 0 = (Inr [], 0))"

definition handles_multiple_trades_in_one_push :: "('p, 'q, 's) feedhandler \<Rightarrow> (u64 \<Rightarrow> u64) \<Rightarrow> bool" where
  "handles_multiple_trades_in_one_push fh clock \<longleftrightarrow>
     (case bybit_decode_push fh clock [\<lparr>by_time_ms = 1, by_side = str_of ''Sell'', by_price = str_of ''100'', by_qty = str_of ''0.5''\<rparr>,
        bybit_sample] of
        (Inr [t0, t1], _) \<Rightarrow> nt_sequence t0 = 0 \<and> nt_sequence t1 = 1 \<and> nt_taker_side t0 = Sell
      | _ \<Rightarrow> False)"

definition hyperliquid_sample :: ws_trade where
  "hyperliquid_sample = \<lparr>wt_side = str_of ''B'', wt_px = str_of ''43250.5'', wt_sz = str_of ''0.25'', wt_time = 1700000000000\<rparr>"

definition hyperliquid_decode_push :: "('p, 'q, 's) feedhandler \<Rightarrow> (u64 \<Rightarrow> u64) \<Rightarrow> str \<Rightarrow> ws_trade list \<Rightarrow>
    ('p, 'q, 's) decoded" where
  "hyperliquid_decode_push fh clock channel trades =
     hyperliquid_decode (\<lambda>msg. Inr (channel, ())) (\<lambda>v. Inr trades) fh clock (symbol_from_bytes fh []) [] 0"

definition hyperliquid_decodes_sample_envelope :: "('p, 'q, 's) feedhandler \<Rightarrow> (u64 \<Rightarrow> u64) \<Rightarrow> bool" where
  "hyperliquid_decodes_sample_envelope fh clock \<longleftrightarrow>
     (case hyperliquid_decode_push fh clock (str_of ''trades'') [hyperliquid_sample] of
        (Inr [t], _) \<Rightarrow> price_raw fh (nt_price t) = 4325050000000 \<and> qty_raw fh (nt_qty t) = 25000000 \<and>
          nt_taker_side t = Buy \<and> nt_exchange t = Hyperliquid \<and> nt_ts_exchange_ns t = 1700000000000000000
      | _ \<Rightarrow> False)"

definition ignores_non_trade_channels :: "('p, 'q, 's) feedhandler \<Rightarrow> (u64 \<Rightarrow> u64) \<Rightarrow> bool" where
  "ignores_non_trade_channels fh clock \<longleftrightarrow>
     hyperliquid_decode_push fh clock (str_of ''subscriptionResponse'') [hyperliquid_sample] = (Inr [], 0) \<and>
     hyperliquid_decode_push fh clock (str_of ''pong'') [hyperliquid_sample] = (Inr [], 0)"

definition side_a_is_sell :: "('p, 'q, 's) feedhandler \<Rightarrow> (u64 \<Rightarrow> u64) \<Rightarrow> bool" where
  "side_a_is_sell fh clock \<longleftrightarrow>
     (case hyperliquid_decode_push fh clock (str_of ''trades'') [hyperliquid_sample\<lparr>wt_side := str_of ''A''\<rparr>] of
        (Inr (t # ts), _) \<Rightarrow> nt_taker_side t = Sell | _ \<Rightarrow> False)"

lemma sample_decimals:
  "parse_fixed8 (str_of ''0.001'') = Inr 100000" "parse_fixed8 (str_of ''100'') = Inr 10000000000"
  "parse_fixed8 (str_of ''16578.50'') = Inr 1657850000000" "parse_fixed8 (str_of ''0.5'') = Inr 50000000"
  "parse_fixed8 (str_of ''43250.5'') = Inr 4325050000000" "parse_fixed8 (str_of ''0.25'') = Inr 25000000"
  by (simp_all add: decimal_eval)

lemma adapter_tests:
  assumes "feedhandler_laws fh"
  shows "binance_decodes_sample_envelope fh clock" "sequence_increments_across_calls fh clock"
    "buyer_is_taker_when_m_is_false fh clock" "url_is_lowercased_and_market_routed" "rejects_malformed_json fh clock"
    "bybit_decodes_sample_envelope fh clock" "ignores_control_messages_without_topic fh clock"
    "handles_multiple_trades_in_one_push fh clock"
    "hyperliquid_decodes_sample_envelope fh clock" "ignores_non_trade_channels fh clock" "side_a_is_sell fh clock"
proof -
  note mk = make_trade_def parse_price_def parse_qty_def sample_decimals
  have laws: "price_raw fh (price_new fh r) = r" "qty_raw fh (qty_new fh r) = r" for r
    using assms by (simp_all add: feedhandler_laws_def)
  have ms: "saturating_mul_u64 1672515782136 1000000 = 1672515782136000000"
    "saturating_mul_u64 1672304486865 1000000 = 1672304486865000000"
    "saturating_mul_u64 1700000000000 1000000 = 1700000000000000000"
    by (simp_all add: saturating_mul_u64_def)
  show "binance_decodes_sample_envelope fh clock" "sequence_increments_across_calls fh clock"
    "buyer_is_taker_when_m_is_false fh clock" "rejects_malformed_json fh clock"
    by (simp_all add: binance_decodes_sample_envelope_def sequence_increments_across_calls_def
        buyer_is_taker_when_m_is_false_def rejects_malformed_json_def binance_decode_def binance_sample_def mk laws ms)
  show url_is_lowercased_and_market_routed
    by (simp add: url_is_lowercased_and_market_routed_def binance_url_def str_of_def)
  have tp: "starts_with (str_of ''publicTrade.BTCUSDT'') (str_of ''publicTrade.'')" by (simp add: starts_with_def str_of_def)
  have sd: "bybit_side (str_of ''Buy'') = Buy" "bybit_side (str_of ''Sell'') = Sell"
    "hyperliquid_side (str_of ''B'') = Buy" "hyperliquid_side (str_of ''A'') = Sell"
    by (simp_all add: bybit_side_def hyperliquid_side_def str_of_def)
  show "bybit_decodes_sample_envelope fh clock" "handles_multiple_trades_in_one_push fh clock"
    "ignores_control_messages_without_topic fh clock"
    by (simp_all add: bybit_decodes_sample_envelope_def handles_multiple_trades_in_one_push_def
        ignores_control_messages_without_topic_def bybit_decode_push_def bybit_decode_def tp bybit_sample_def sd mk laws ms)
  have ch: "str_of ''subscriptionResponse'' \<noteq> str_of ''trades''" "str_of ''pong'' \<noteq> str_of ''trades''" by (simp_all add: str_of_def)
  show "hyperliquid_decodes_sample_envelope fh clock" "ignores_non_trade_channels fh clock" "side_a_is_sell fh clock"
    by (simp_all add: hyperliquid_decodes_sample_envelope_def ignores_non_trade_channels_def side_a_is_sell_def
        hyperliquid_decode_push_def hyperliquid_decode_def hyperliquid_sample_def sd ch mk laws ms)
qed

end
