(* ===== verification/Tests_Engine.thy ===== *)
theory Tests_Engine
  imports Engine F64_Whole
begin

text \<open>
  The unit tests of \<open>crates/vpin-engine\<close>, translated assertion by assertion and proved of the model, with the
  decimal literals as the nearest \<open>f64\<close>. Left out are the tests that need values of the error function, and
  the randomised one, whose range assertions the bounds of the readings subsume.
\<close>

text \<open>\<open>(a - b).abs() < eps\<close>.\<close>

definition near :: "f64 \<Rightarrow> f64 \<Rightarrow> f64 \<Rightarrow> bool" where
  "near eps a b \<longleftrightarrow> f64_lt (f64_abs (f64_sub a b)) eps"

lemma near_self: "f64_is_finite x \<Longrightarrow> near (f64_of_dec 1 9) x x" "f64_is_finite x \<Longrightarrow> near (f64_of_dec 1 12) x x"
  using sub_same [of x] by (simp_all add: near_def) (simp_all add: f64_eval)

subsection \<open>\<open>bucket.rs\<close>\<close>

definition rejects_nonpositive_target_volume :: bool where
  "rejects_nonpositive_target_volume \<longleftrightarrow> is_err (VolumeBucketer_new f64_zero) \<and>
     is_err (VolumeBucketer_new (f64_neg f64_one)) \<and> is_err (VolumeBucketer_new NaN) \<and> is_err (VolumeBucketer_new f64_inf)"

text \<open>A bucketer of a whole target volume and the outcomes of pushing whole prices and volumes.\<close>

fun push_outcomes :: "volume_bucketer \<Rightarrow> (nat \<times> nat \<times> u64) list \<Rightarrow> volume_bucketer \<times> closed_bucket option list" where
  "push_outcomes b [] = (b, [])"
| "push_outcomes b ((p, v, t) # ts) =
     (case VolumeBucketer_push b (f64_of_nat p) (f64_of_nat v) t of (b1, out) \<Rightarrow>
      case push_outcomes b1 ts of (b2, outs) \<Rightarrow> (b2, out # outs))"

definition pushed :: "nat \<Rightarrow> (nat \<times> nat \<times> u64) list \<Rightarrow> (volume_bucketer \<times> closed_bucket option list) option" where
  "pushed V ts = (case VolumeBucketer_new (f64_of_nat V) of Inl e \<Rightarrow> None | Inr b \<Rightarrow> Some (push_outcomes b ts))"

definition closes_exactly_at_target_volume :: bool where
  "closes_exactly_at_target_volume \<longleftrightarrow> (case pushed 100 [(50, 60, 1), (51, 40, 2)] of
      Some (b, [None, Some cl]) \<Rightarrow> f64_eq (cb_volume cl) (f64_of_nat 100) \<and> cb_trade_count cl = 2 \<and> cb_bucket_id cl = 0
    | _ \<Rightarrow> False)"

definition overshoot_closes_the_bucket_it_tips_over_not_the_next_one :: bool where
  "overshoot_closes_the_bucket_it_tips_over_not_the_next_one \<longleftrightarrow> (case pushed 100 [(50, 90, 1), (51, 500, 2)] of
      Some (b, [None, Some cl]) \<Rightarrow> f64_eq (cb_volume cl) (f64_of_nat 590) \<and> f64_eq (partial_volume b) f64_zero
    | _ \<Rightarrow> False)"

definition first_bucket_has_zero_delta_p_seed :: bool where
  "first_bucket_has_zero_delta_p_seed \<longleftrightarrow> (case pushed 10 [(100, 10, 1)] of
      Some (b, [Some cl]) \<Rightarrow> f64_eq (cb_delta_p cl) f64_zero | _ \<Rightarrow> False)"

definition delta_p_is_close_to_close_not_open_to_close :: bool where
  "delta_p_is_close_to_close_not_open_to_close \<longleftrightarrow> (case pushed 10 [(100, 10, 1), (105, 4, 2), (110, 6, 3)] of
      Some (b, [Some cl1, _, Some cl2]) \<Rightarrow> f64_eq (cb_last_price cl1) (f64_of_nat 100) \<and>
        f64_eq (cb_delta_p cl2) (f64_of_nat 10)
    | _ \<Rightarrow> False)"

definition bucket_id_increments_monotonically :: bool where
  "bucket_id_increments_monotonically \<longleftrightarrow> (case pushed 10 (map (\<lambda>i. (100 + i, 10, of_nat i)) [0..<5]) of
      Some (b, outs) \<Rightarrow> map (map_option cb_bucket_id) outs = map (\<lambda>i. Some (of_nat i)) [0..<5] \<and> current_bucket_id b = 5
    | None \<Rightarrow> False)"

lemmas bucket_tests_eval = pushed_def VolumeBucketer_new_def VolumeBucketer_push_def Let_def partial_volume_def
  current_bucket_id_def whole_finite f64_of_nat_pos

lemma whole_volume: "n \<le> 2 ^ 53 \<Longrightarrow> f64_add f64_zero (f64_of_nat n) = f64_of_nat n"
  using whole_add [of 0 n] by (simp add: f64_of_nat_0)

lemma whole_f64_eq: "a \<le> 2 ^ 53 \<Longrightarrow> f64_eq (f64_of_nat a) (f64_of_nat a)"
  using finite_not_nan [OF whole_finite] by (simp add: f64_eq_def)

lemma bucket_tests:
  "rejects_nonpositive_target_volume" "closes_exactly_at_target_volume"
  "overshoot_closes_the_bucket_it_tips_over_not_the_next_one" "first_bucket_has_zero_delta_p_seed"
  "delta_p_is_close_to_close_not_open_to_close" "bucket_id_increments_monotonically"
proof -
  have "\<not> f64_lt f64_zero (f64_neg f64_one)" "\<not> f64_lt f64_zero f64_zero" "\<not> f64_is_finite f64_inf"
    by (simp_all add: f64_eval)
  then show rejects_nonpositive_target_volume
    by (simp add: rejects_nonpositive_target_volume_def VolumeBucketer_new_def f64_lt_def)
  show closes_exactly_at_target_volume overshoot_closes_the_bucket_it_tips_over_not_the_next_one
    delta_p_is_close_to_close_not_open_to_close
    by (simp_all add: closes_exactly_at_target_volume_def overshoot_closes_the_bucket_it_tips_over_not_the_next_one_def
        delta_p_is_close_to_close_not_open_to_close_def bucket_tests_eval whole_volume whole_add whole_less whole_sub whole_f64_eq)
      (simp add: f64_eq_def)
  show first_bucket_has_zero_delta_p_seed
    by (simp add: first_bucket_has_zero_delta_p_seed_def bucket_tests_eval whole_volume whole_less sub_same) (simp add: f64_eq_def)
  show bucket_id_increments_monotonically
    by (simp add: bucket_id_increments_monotonically_def bucket_tests_eval whole_volume whole_less upt_conv_Cons)
qed

subsection \<open>\<open>bvc.rs\<close>\<close>

definition zero_delta_p_splits_evenly :: "(f64 \<Rightarrow> f64) \<Rightarrow> bool" where
  "zero_delta_p_splits_evenly erf \<longleftrightarrow> (case classify erf f64_zero f64_one (f64_of_nat 100) of None \<Rightarrow> False
     | Some (buy, sell) \<Rightarrow> near (f64_of_dec 1 9) buy (f64_of_nat 50) \<and> near (f64_of_dec 1 9) sell (f64_of_nat 50))"

definition rejects_nonpositive_or_nonfinite_sigma :: "(f64 \<Rightarrow> f64) \<Rightarrow> bool" where
  "rejects_nonpositive_or_nonfinite_sigma erf \<longleftrightarrow> buy_fraction erf f64_one f64_zero = None \<and>
     buy_fraction erf f64_one (f64_neg f64_one) = None \<and> buy_fraction erf f64_one NaN = None \<and>
     buy_fraction erf f64_one f64_inf = None"

definition rejects_nonfinite_delta_p :: "(f64 \<Rightarrow> f64) \<Rightarrow> bool" where
  "rejects_nonfinite_delta_p erf \<longleftrightarrow> buy_fraction erf NaN f64_one = None \<and> buy_fraction erf f64_inf f64_one = None"

lemma bvc_tests:
  "erf f64_zero = f64_zero \<Longrightarrow> zero_delta_p_splits_evenly erf"
  "rejects_nonpositive_or_nonfinite_sigma erf" "rejects_nonfinite_delta_p erf"
proof -
  show "rejects_nonpositive_or_nonfinite_sigma erf" "rejects_nonfinite_delta_p erf"
    by (simp_all add: rejects_nonpositive_or_nonfinite_sigma_def rejects_nonfinite_delta_p_def buy_fraction_def)
      (simp_all add: f64_eval)
  assume "erf f64_zero = f64_zero"
  then have "classify erf f64_zero f64_one (f64_of_nat 100) = Some (f64_of_nat 50, f64_of_nat 50)"
    by (simp add: Let_def classify_def buy_fraction_def standard_normal_cdf_def frac_1_sqrt_2_def f64_eval)
  then show "zero_delta_p_splits_evenly erf" by (simp add: zero_delta_p_splits_evenly_def near_self [simplified] whole_finite)
qed

subsection \<open>\<open>intensity.rs\<close>\<close>

definition rejects_window_below_four :: bool where
  "rejects_window_below_four \<longleftrightarrow> is_err (IntensityAdjustedCdf_new 3) \<and> is_err (IntensityAdjustedCdf_new 0)"

text \<open>The answers to a sequence of pushes into a new window; \<open>None\<close> when \<open>unwrap\<close> panics.\<close>

fun answers :: "('s \<Rightarrow> 'a \<Rightarrow> 's \<times> 'b) \<Rightarrow> 's \<Rightarrow> 'a list \<Rightarrow> 'b list" where
  "answers push s [] = []"
| "answers push s (x # xs) = snd (push s x) # answers push (fst (push s x)) xs"

definition intensity_answers :: "usize \<Rightarrow> (f64 \<times> u32) list \<Rightarrow> f64 option list option" where
  "intensity_answers w xs = (case IntensityAdjustedCdf_new w of Inl e \<Rightarrow> None | Inr c \<Rightarrow> Some (answers intensity_push2 c xs))"

definition none_until_window_full :: bool where
  "none_until_window_full \<longleftrightarrow> (case intensity_answers 4 (replicate 4 (f64_of_dec 5 1, 10)) of
      Some [a1, a2, a3, a4] \<Rightarrow> a1 = None \<and> a2 = None \<and> a3 = None \<and> a4 \<noteq> None | _ \<Rightarrow> False)"

text \<open>\<open>(i as f64) * 0.01\<close>; the remainder of whole numbers is whole.\<close>

definition offset :: "f64 \<Rightarrow> nat \<Rightarrow> f64" where
  "offset base i = f64_add base (f64_mul (f64_of_nat i) (f64_of_dec 1 2))"

text \<open>What the last push answers; the pushes before it find the window not yet full.\<close>

definition final_rank :: "(f64 \<Rightarrow> bool) \<Rightarrow> f64 option list option \<Rightarrow> bool" where
  "final_rank P out \<longleftrightarrow> (case out of None \<Rightarrow> False
     | Some as \<Rightarrow> as \<noteq> [] \<and> (\<forall>a \<in> set (butlast as). a = None) \<and> (case List.last as of None \<Rightarrow> False | Some rank \<Rightarrow> P rank))"

definition cohorts :: "(nat \<Rightarrow> f64) \<Rightarrow> (f64 \<times> u32) list" where
  "cohorts quiet = map (\<lambda>i. if i mod 2 = 0 then (quiet i, 5) else (offset (f64_of_dec 9 1) (i mod 5), 200)) [0..<39]"

definition high_vpin_during_busy_period_ranks_unremarkable_within_cohort :: bool where
  "high_vpin_during_busy_period_ranks_unremarkable_within_cohort \<longleftrightarrow>
     final_rank (\<lambda>rank. f64_lt (f64_of_dec 1 1) rank \<and> f64_lt rank (f64_of_dec 9 1))
       (intensity_answers 40 (cohorts (\<lambda>i. offset (f64_of_dec 3 1) (i mod 5)) @ [(f64_of_dec 92 2, 200)]))"

definition quiet_and_busy_cohorts_are_scored_independently :: bool where
  "quiet_and_busy_cohorts_are_scored_independently \<longleftrightarrow>
     (let quiet_low = intensity_answers 10 (map (\<lambda>i. (offset (f64_of_dec 2 1) i, 5)) [0..<9] @ [(f64_of_dec 5 1, 5)]);
          busy_high = intensity_answers 10 (map (\<lambda>i. (offset (f64_of_dec 8 1) i, 200)) [0..<9] @ [(f64_of_dec 5 1, 200)])
      in final_rank (f64_lt (f64_of_dec 8 1)) quiet_low \<and> final_rank (\<lambda>rank. f64_lt rank (f64_of_dec 2 1)) busy_high)"

definition median_boundary_with_only_two_distinct_intensities_still_splits_correctly :: bool where
  "median_boundary_with_only_two_distinct_intensities_still_splits_correctly \<longleftrightarrow>
     final_rank (\<lambda>rank. f64_lt (f64_of_dec 5 2) rank \<and> f64_lt rank (f64_of_dec 95 2))
       (intensity_answers 40 (cohorts (\<lambda>i. f64_of_dec 3 1) @ [(f64_of_dec 92 2, 200)]))"

text \<open>The pseudo-random inputs of the last test: \<open>(state >> 40) / 2^24\<close>, capped at 1, and eight bits of the state.\<close>

fun lcg :: "nat \<Rightarrow> u64 \<Rightarrow> u64 list" where
  "lcg 0 state = []"
| "lcg (Suc n) state = (let state' = state * 6364136223846793005 + 1 in state' # lcg n state')"

definition lcg_input :: "u64 \<Rightarrow> f64 \<times> u32" where
  "lcg_input state = (f64_min (f64_div (f64_of_nat (unat (drop_bit 40 state))) (f64_of_nat (2 ^ 24))) f64_one,
     ucast (drop_bit 20 state AND 0xFF))"

definition rank_stays_in_unit_interval :: bool where
  "rank_stays_in_unit_interval \<longleftrightarrow> (case intensity_answers 20 (map lcg_input (lcg 500 7)) of None \<Rightarrow> False
     | Some as \<Rightarrow> \<forall>a \<in> set as. pred_option (\<lambda>rank. f64_le f64_zero rank \<and> f64_le rank f64_one) a)"

lemma answers_snoc: "answers push s (xs @ [x]) = answers push s xs @ [snd (push (feed push s xs) x)]"
  by (induction xs arbitrary: s) simp_all

lemma answers_mem: "a \<in> set (answers push s xs) \<Longrightarrow> \<exists>ys x zs. xs = ys @ x # zs \<and> a = snd (push (feed push s ys) x)"
proof (induction xs arbitrary: s)
  case (Cons x xs)
  then consider "a = snd (push s x)" | "a \<in> set (answers push (fst (push s x)) xs)" by auto
  then show ?case
  proof cases
    case 1
    then have "x # xs = [] @ x # xs \<and> a = snd (push (feed push s []) x)" by simp
    then show ?thesis by blast
  next
    case 2
    then obtain ys y zs where "xs = ys @ y # zs" "a = snd (push (feed push (fst (push s x)) ys) y)" using Cons.IH by blast
    then have "x # xs = (x # ys) @ y # zs \<and> a = snd (push (feed push s (x # ys)) y)" by simp
    then show ?thesis by blast
  qed
qed simp

lemma intensity_new: "4 \<le> w \<Longrightarrow> IntensityAdjustedCdf_new w = Inr \<lparr>ic_window = w, ic_history = []\<rparr>"
  by (simp add: IntensityAdjustedCdf_new_def)

text \<open>The first full window: its rank is the share of the pushed value's cohort.\<close>

lemma final_rank_full:
  assumes "4 \<le> w" "Suc (length xs) = w" "median_u32 (map snd (xs @ [(x, t)])) = Some m"
    "cohort (xs @ [(x, t)]) m (m \<le> t) = co" "P (count_ratio (le_count co x) (length co))"
  shows "final_rank P (intensity_answers w (xs @ [(x, t)]))"
proof -
  let ?c = "\<lparr>ic_window = w, ic_history = []\<rparr>"
  note c = intensity_new [OF assms(1)]
  have "snd (intensity_push2 (feed intensity_push2 ?c xs) (x, t)) = Some (count_ratio (le_count co x) (length co))"
    using intensity_answer [OF c, of xs x t] assms by (simp add: last_n_all Let_def)
  moreover have "a = None" if a: "a \<in> set (answers intensity_push2 ?c xs)" for a
  proof -
    obtain ys y zs where "xs = ys @ y # zs" "a = snd (intensity_push2 (feed intensity_push2 ?c ys) y)"
      using answers_mem [OF a] by blast
    then show ?thesis using intensity_answer [OF c, of ys "fst y" "snd y"] assms(2) by (simp add: Let_def)
  qed
  ultimately show ?thesis using assms(5) by (simp add: final_rank_def intensity_answers_def c answers_snoc)
qed

lemma offsets_below:
  "f64_le (offset (f64_of_dec 9 1) 0) (f64_of_dec 92 2)" "f64_le (offset (f64_of_dec 9 1) 1) (f64_of_dec 92 2)"
  "f64_le (offset (f64_of_dec 9 1) 2) (f64_of_dec 92 2)" "\<not> f64_le (offset (f64_of_dec 9 1) 3) (f64_of_dec 92 2)"
  "\<not> f64_le (offset (f64_of_dec 9 1) 4) (f64_of_dec 92 2)"
  by (simp_all add: offset_def f64_eval)

definition busy_cohort :: "f64 list" where
  "busy_cohort = map (\<lambda>i. offset (f64_of_dec 9 1) (i mod 5)) (filter odd [0..<39]) @ [f64_of_dec 92 2]"

lemma cohorts_split:
  "median_u32 (map snd (cohorts quiet @ [(x, 200)])) = Some 200"
  "cohort (cohorts quiet @ [(f64_of_dec 92 2, 200)]) 200 (200 \<le> (200 :: u32)) = busy_cohort"
  by (simp_all add: median_u32_def cohort_def cohorts_def busy_cohort_def upt_conv_Cons)

lemma busy_cohort_rank: "le_count busy_cohort (f64_of_dec 92 2) = 13" "length busy_cohort = 20"
  by (simp_all add: busy_cohort_def le_count_def upt_conv_Cons offsets_below [simplified]) (simp_all add: f64_of_dec_def)

text \<open>One level of activity: the cohort is everything.\<close>

lemma level_cohort:
  "median_u32 (map snd (map (\<lambda>i. (f i, t)) [0..<9] @ [(x, t)])) = Some t"
  "cohort (map (\<lambda>i. (f i, t)) [0..<9] @ [(x, t)]) t (t \<le> t) = map f [0..<9] @ [x]"
  by (simp_all add: median_u32_def cohort_def upt_conv_Cons)

lemma offset_ranks:
  "i < 9 \<Longrightarrow> f64_le (offset (f64_of_dec 2 1) i) (f64_of_dec 5 1)" "i < 9 \<Longrightarrow> \<not> f64_le (offset (f64_of_dec 8 1) i) (f64_of_dec 5 1)"
  "f64_le (f64_of_dec 5 1) (f64_of_dec 5 1)"
proof -
  have "\<forall>i \<in> {0, 1, 2, 3, 4, 5, 6, 7, 8}. f64_le (offset (f64_of_dec 2 1) i) (f64_of_dec 5 1)"
    "\<forall>i \<in> {0, 1, 2, 3, 4, 5, 6, 7, 8}. \<not> f64_le (offset (f64_of_dec 8 1) i) (f64_of_dec 5 1)"
    by (simp_all only: ball_simps) (simp_all add: offset_def f64_eval)
  moreover have "i \<in> {0, 1, 2, 3, 4, 5, 6, 7, 8}" if "i < 9" using that by auto
  ultimately show "i < 9 \<Longrightarrow> f64_le (offset (f64_of_dec 2 1) i) (f64_of_dec 5 1)"
    "i < 9 \<Longrightarrow> \<not> f64_le (offset (f64_of_dec 8 1) i) (f64_of_dec 5 1)" by blast+
qed (simp add: f64_of_dec_def)

lemma intensity_tests:
  "rejects_window_below_four" "none_until_window_full"
  "high_vpin_during_busy_period_ranks_unremarkable_within_cohort"
  "median_boundary_with_only_two_distinct_intensities_still_splits_correctly"
  "quiet_and_busy_cohorts_are_scored_independently"
proof -
  show rejects_window_below_four by (simp add: rejects_window_below_four_def IntensityAdjustedCdf_new_def)
  show none_until_window_full
    by (simp add: none_until_window_full_def intensity_answers_def intensity_new intensity_push2_def
        IntensityAdjustedCdf_push_def window_push_def Let_def numeral_eq_Suc median_u32_def split: option.splits)
  have r: "f64_lt (f64_of_dec 1 1) (count_ratio 13 20)" "f64_lt (count_ratio 13 20) (f64_of_dec 9 1)"
    "f64_lt (f64_of_dec 5 2) (count_ratio 13 20)" "f64_lt (count_ratio 13 20) (f64_of_dec 95 2)"
    by (simp_all add: count_ratio_def f64_eval)
  have n: "Suc (length (cohorts quiet)) = 40" for quiet by (simp add: cohorts_def)
  show high_vpin_during_busy_period_ranks_unremarkable_within_cohort
    median_boundary_with_only_two_distinct_intensities_still_splits_correctly
    unfolding high_vpin_during_busy_period_ranks_unremarkable_within_cohort_def
      median_boundary_with_only_two_distinct_intensities_still_splits_correctly_def
    by (rule final_rank_full [OF _ n cohorts_split]; simp only: busy_cohort_rank r simp_thms; simp)+
  show quiet_and_busy_cohorts_are_scored_independently
  proof -
    let ?x = "f64_of_dec 5 1"
    have q: "f64_lt (f64_of_dec 8 1) (count_ratio 10 10)" "f64_lt (count_ratio 1 10) (f64_of_dec 2 1)"
      by (simp_all add: count_ratio_def f64_eval)
    have le: "le_count (map (offset (f64_of_dec 2 1)) [0..<9] @ [?x]) ?x = 10" "le_count (map (offset (f64_of_dec 8 1)) [0..<9] @ [?x]) ?x = 1"
      by (simp_all add: le_count_def upt_conv_Cons offset_ranks [simplified])
    show ?thesis
      unfolding quiet_and_busy_cohorts_are_scored_independently_def Let_def
      by (intro conjI; rule final_rank_full [OF _ _ level_cohort]; simp only: le length_append length_map length_upt list.size; simp add: q [simplified])
  qed
qed

text \<open>Whatever is pushed, a rank is in the unit interval.\<close>

lemma intensity_rank_unit:
  assumes "4 \<le> w" "w < 2 ^ 64" "a \<in> set (answers intensity_push2 \<lparr>ic_window = w, ic_history = []\<rparr> xs)"
  shows "pred_option (\<lambda>rank. f64_le f64_zero rank \<and> f64_le rank f64_one) a"
proof -
  obtain ys v t zs where a: "a = snd (intensity_push2 (feed intensity_push2 \<lparr>ic_window = w, ic_history = []\<rparr> ys) (v, t))"
    using answers_mem [OF assms(3)] by auto
  let ?h = "last_n w (ys @ [(v, t)])" let ?m = "the (median_u32 (map snd (last_n w (ys @ [(v, t)]))))"
  let ?co = "cohort ?h ?m (?m \<le> t)"
  have "(v, t) \<in> set ?h" using assms(1) by (auto simp: last_n_def Suc_diff_le split: nat_diff_split)
  then have "v \<in> set ?co" by (force simp: cohort_def)
  then have "0 < length ?co" by (cases ?co) auto
  moreover have "length ?co \<le> length ?h" by (simp add: cohort_def del: length_last_n)
  then have "length ?co < 2 ^ 64" using assms(2) by (simp add: min_def split: if_splits)
  ultimately show ?thesis
    unfolding a using intensity_answer [OF intensity_new [OF assms(1)], of ys v t] count_ratio_unit le_count_bounds(1)
    by (simp add: Let_def)
qed

lemma intensity_random_test: "rank_stays_in_unit_interval"
  using intensity_rank_unit [of 20] by (simp add: rank_stays_in_unit_interval_def intensity_answers_def intensity_new del: lcg.simps)

subsection \<open>\<open>vpin.rs\<close>\<close>

definition rolling_sigma_none_until_window_full :: bool where
  "rolling_sigma_none_until_window_full \<longleftrightarrow> (case RollingSigma_new 5 of Inl e \<Rightarrow> False
     | Inr s \<Rightarrow> (case answers RollingSigma_push s (map f64_of_nat [0, 1, 2, 3, 4]) of
         [a0, a1, a2, a3, a4] \<Rightarrow> a0 = None \<and> a1 = None \<and> a2 = None \<and> a3 = None \<and> a4 \<noteq> None | _ \<Rightarrow> False))"

definition known_data :: "f64 list" where
  "known_data = map f64_of_nat [2, 4, 4, 4, 5, 5, 7, 9]"

definition rolling_sigma_matches_known_sample_std :: bool where
  "rolling_sigma_matches_known_sample_std \<longleftrightarrow> (case RollingSigma_new 8 of Inl e \<Rightarrow> False
     | Inr s \<Rightarrow> (case List.last (answers RollingSigma_push s known_data) of None \<Rightarrow> False
         | Some std \<Rightarrow> near (f64_of_dec 1 9) std (f64_of_dec 2138089935299395 15)))"

definition rejects_window_below_two :: bool where
  "rejects_window_below_two \<longleftrightarrow> is_err (RollingSigma_new 1) \<and> is_err (RollingSigma_new 0) \<and> is_err (EmpiricalCdf_new 1)"

definition empirical_cdf_rank_of_max_is_one :: bool where
  "empirical_cdf_rank_of_max_is_one \<longleftrightarrow> (case EmpiricalCdf_new 4 of Inl e \<Rightarrow> False
     | Inr c \<Rightarrow> (case List.last (answers EmpiricalCdf_push c (map f64_of_nat [1, 2, 3, 4])) of None \<Rightarrow> False
         | Some rank \<Rightarrow> near (f64_of_dec 1 9) rank f64_one))"

definition empirical_cdf_rank_of_min_is_one_over_window :: bool where
  "empirical_cdf_rank_of_min_is_one_over_window \<longleftrightarrow> (case EmpiricalCdf_new 4 of Inl e \<Rightarrow> False
     | Inr c \<Rightarrow> (case List.last (answers EmpiricalCdf_push c (map f64_of_nat [4, 3, 2, 1])) of None \<Rightarrow> False
         | Some rank \<Rightarrow> near (f64_of_dec 1 9) rank (f64_of_dec 25 2)))"

text \<open>The configuration of these tests.\<close>

definition base_config :: vpin_engine_config where
  "base_config = \<lparr>vc_bucket_volume = f64_of_nat 10, vc_sigma_window = 3, vc_vpin_window = 3, vc_cdf_window = None,
     vc_confidence_interval = None\<rparr>"

definition vpin_engine_rejects_zero_vpin_window :: bool where
  "vpin_engine_rejects_zero_vpin_window \<longleftrightarrow> is_err (VpinEngine_new (base_config\<lparr>vc_vpin_window := 0\<rparr>))"

fun outputs :: "nat \<Rightarrow> split_mix64 \<Rightarrow> u64 list" where
  "outputs 0 rng = []"
| "outputs (Suc n) rng = (case next_u64 rng of (z, rng') \<Rightarrow> z # outputs n rng')"

definition splitmix64_is_deterministic_given_the_same_seed :: bool where
  "splitmix64_is_deterministic_given_the_same_seed \<longleftrightarrow>
     outputs 100 (SplitMix64_new 42) = outputs 100 (SplitMix64_new 42)"

definition splitmix64_different_seeds_diverge :: bool where
  "splitmix64_different_seeds_diverge \<longleftrightarrow> outputs 20 (SplitMix64_new 1) \<noteq> outputs 20 (SplitMix64_new 2)"

definition near_value :: "f64 \<Rightarrow> f64 \<Rightarrow> f64 option \<Rightarrow> bool" where
  "near_value eps x r \<longleftrightarrow> (case r of None \<Rightarrow> False | Some y \<Rightarrow> near eps y x)"

definition percentile_matches_hand_computed_values :: bool where
  "percentile_matches_hand_computed_values \<longleftrightarrow> (let data = map f64_of_nat [1, 2, 3, 4, 5] in
     near_value (f64_of_dec 1 12) f64_one (percentile data f64_zero) \<and>
     near_value (f64_of_dec 1 12) (f64_of_nat 5) (percentile data f64_one) \<and>
     near_value (f64_of_dec 1 12) (f64_of_nat 3) (percentile data (f64_of_dec 5 1)) \<and>
     near_value (f64_of_dec 1 12) (f64_of_nat 2) (percentile data (f64_of_dec 25 2)) \<and>
     near_value (f64_of_dec 1 9) (f64_of_dec 14 1) (percentile data (f64_of_dec 1 1)))"

definition percentile_of_single_value_is_that_value :: bool where
  "percentile_of_single_value_is_that_value \<longleftrightarrow>
     (\<forall>p \<in> {f64_zero, f64_of_dec 5 1, f64_one}. percentile [f64_of_nat 7] p = Some (f64_of_nat 7))"

definition rejects_confidence_level_outside_open_unit_interval :: bool where
  "rejects_confidence_level_outside_open_unit_interval \<longleftrightarrow>
     (\<forall>bad_level \<in> {f64_zero, f64_one, f64_neg (f64_of_dec 5 1), f64_of_dec 15 1, NaN}.
        is_err (VpinEngine_new (base_config\<lparr>vc_confidence_interval :=
          Some \<lparr>ci_confidence_level = bad_level, ci_bootstrap_samples = 100, ci_seed = 1\<rparr>\<rparr>)))"

definition rejects_too_few_bootstrap_samples :: bool where
  "rejects_too_few_bootstrap_samples \<longleftrightarrow>
     (\<forall>bad_n \<in> {0, 1}. is_err (VpinEngine_new (base_config\<lparr>vc_confidence_interval :=
        Some \<lparr>ci_confidence_level = f64_of_dec 95 2, ci_bootstrap_samples = bad_n, ci_seed = 1\<rparr>\<rparr>)))"

text \<open>The data of the worked example are whole numbers; only the square root has to be computed.\<close>

lemma known_mean: "f64_div (f64_sum known_data) (f64_of_nat 8) = f64_of_nat 5"
  using whole_sum [of "[2, 4, 4, 4, 5, 5, 7, 9]"] whole_div [of 5 8] by (simp add: known_data_def del: list.map)

lemma known_squares: "f64_sum (map (\<lambda>v. f64_powi2 (f64_sub v (f64_of_nat 5))) known_data) = f64_of_nat 32"
proof -
  have "map (\<lambda>v. f64_powi2 (f64_sub v (f64_of_nat 5))) known_data = map f64_of_nat [9, 1, 1, 1, 0, 0, 4, 16]"
    by (simp add: known_data_def whole_square_diff)
  then show ?thesis using whole_sum [of "[9, 1, 1, 1, 0, 0, 4, 16]"] by (simp del: list.map)
qed

lemma known_std: "near (f64_of_dec 1 9) (f64_sqrt (f64_div (f64_of_nat 32) (f64_of_nat 7))) (f64_of_dec 2138089935299395 15)"
proof -
  have "f64_div (f64_of_nat 32) (f64_of_nat 7) = Num False 0x4012492492492492" by (simp add: f64_eval)
  moreover have "f64_sqrt (Num False 0x4012492492492492) = Num False 0x40011ACEE560242A" by (simp add: f64_eval)
  moreover have "f64_of_dec 2138089935299395 15 = Num False 0x40011ACEE560242A" by (simp add: f64_eval)
  ultimately show ?thesis by (simp add: near_def f64_eval)
qed

lemma rolling_tests:
  "rolling_sigma_none_until_window_full" "rolling_sigma_matches_known_sample_std" "rejects_window_below_two"
  "empirical_cdf_rank_of_max_is_one" "empirical_cdf_rank_of_min_is_one_over_window"
proof -
  show rejects_window_below_two by (simp add: rejects_window_below_two_def RollingSigma_new_def EmpiricalCdf_new_def)
  show rolling_sigma_none_until_window_full
    by (simp add: rolling_sigma_none_until_window_full_def RollingSigma_new_def RollingSigma_push_def window_push_def Let_def)
  have s: "RollingSigma_new 8 = Inr \<lparr>rs_window = 8, rs_buf = [], rs_current = None\<rparr>" by (simp add: RollingSigma_new_def)
  obtain xs where k: "known_data = xs @ [f64_of_nat 9]" "length xs = 7"
    using that [of "map f64_of_nat [2, 4, 4, 4, 5, 5, 7]"] by (simp add: known_data_def)
  have std: "sample_std known_data 8 (sample_mean known_data 8) = f64_sqrt (f64_div (f64_of_nat 32) (f64_of_nat 7))"
    unfolding sample_std_def sample_mean_def known_mean known_squares by simp
  have "List.last (answers RollingSigma_push \<lparr>rs_window = 8, rs_buf = [], rs_current = None\<rparr> known_data) =
      Some (sample_std known_data 8 (sample_mean known_data 8))"
    using RollingSigma_answer [OF s, of xs "f64_of_nat 9"] by (simp add: k answers_snoc last_n_all Let_def)
  then show rolling_sigma_matches_known_sample_std
    unfolding rolling_sigma_matches_known_sample_std_def s std using known_std by simp
  have e: "EmpiricalCdf_new 4 = Inr \<lparr>ec_window = 4, ec_buf = []\<rparr>" by (simp add: EmpiricalCdf_new_def)
  have r: "near (f64_of_dec 1 9) (count_ratio 4 4) f64_one" "near (f64_of_dec 1 9) (count_ratio 1 4) (f64_of_dec 25 2)"
    by (simp_all add: near_def count_ratio_def f64_eval)
  have four: "Suc (Suc (Suc (Suc 0))) = 4" by simp
  show empirical_cdf_rank_of_max_is_one empirical_cdf_rank_of_min_is_one_over_window
    unfolding empirical_cdf_rank_of_max_is_one_def empirical_cdf_rank_of_min_is_one_over_window_def e
    using r by (simp_all add: EmpiricalCdf_push_def window_push_def Let_def le_count_def whole_le four)
qed

lemma engine_new_tests:
  "vpin_engine_rejects_zero_vpin_window" "rejects_confidence_level_outside_open_unit_interval"
  "rejects_too_few_bootstrap_samples"
proof -
  show vpin_engine_rejects_zero_vpin_window
    by (simp add: vpin_engine_rejects_zero_vpin_window_def base_config_def VpinEngine_new_def)
  have "\<not> f64_lt f64_zero f64_zero" "\<not> f64_lt f64_one f64_one" "\<not> f64_lt f64_zero (f64_neg (f64_of_dec 5 1))"
    "\<not> f64_lt (f64_of_dec 15 1) f64_one" "\<not> f64_lt f64_zero NaN"
    by (simp_all add: f64_eval)
  then show rejects_confidence_level_outside_open_unit_interval
    by (simp add: rejects_confidence_level_outside_open_unit_interval_def base_config_def VpinEngine_new_def checked_ci_def)
  have "f64_lt f64_zero (f64_of_dec 95 2)" "f64_lt (f64_of_dec 95 2) f64_one" by (simp_all add: f64_eval)
  then show rejects_too_few_bootstrap_samples
    by (simp add: rejects_too_few_bootstrap_samples_def base_config_def VpinEngine_new_def checked_ci_def)
qed

lemma splitmix_tests: "splitmix64_is_deterministic_given_the_same_seed" "splitmix64_different_seeds_diverge"
proof -
  show splitmix64_is_deterministic_given_the_same_seed by (simp add: splitmix64_is_deterministic_given_the_same_seed_def)
  have "mix64 (1 + golden_gamma) \<noteq> mix64 (2 + golden_gamma)" using mix64_inj [of "1 + golden_gamma" "2 + golden_gamma"] by auto
  then show splitmix64_different_seeds_diverge
    by (simp add: splitmix64_different_seeds_diverge_def SplitMix64_new_def next_u64_def numeral_eq_Suc Let_def del: mix64_def)
qed

lemma percentile_tests: "percentile_matches_hand_computed_values" "percentile_of_single_value_is_that_value"
proof -
  show percentile_of_single_value_is_that_value
    by (simp add: percentile_of_single_value_is_that_value_def percentile_def index_of_def)
  let ?r = "\<lambda>p. percentile_rank p 5"
  have r: "?r f64_zero = f64_zero" "?r f64_one = f64_of_nat 4" "?r (f64_of_dec 5 1) = f64_of_nat 2"
    "?r (f64_of_dec 25 2) = f64_one" "?r (f64_of_dec 1 1) = f64_of_dec 4 1"
    by (simp_all add: percentile_rank_def f64_eval)
  have i: "f64_to_usize (f64_floor f64_zero) = 0" "f64_to_usize (f64_ceil f64_zero) = 0"
    "f64_to_usize (f64_floor (f64_of_nat 4)) = 4" "f64_to_usize (f64_ceil (f64_of_nat 4)) = 4"
    "f64_to_usize (f64_floor (f64_of_nat 2)) = 2" "f64_to_usize (f64_ceil (f64_of_nat 2)) = 2"
    "f64_to_usize (f64_floor f64_one) = 1" "f64_to_usize (f64_ceil f64_one) = 1"
    "f64_to_usize (f64_floor (f64_of_dec 4 1)) = 0" "f64_to_usize (f64_ceil (f64_of_dec 4 1)) = 1"
    by (simp_all add: f64_eval)
  have p: "near (f64_of_dec 1 9) (interpolate (f64_of_nat 1) (f64_of_nat 2) (f64_sub (f64_of_dec 4 1) (f64_of_nat 0))) (f64_of_dec 14 1)"
    by (simp add: interpolate_def near_def f64_eval)
  define xs where "xs = map f64_of_nat [1, 2, 3, 4, 5]"
  have x: "length xs = 5" "xs = [] \<longleftrightarrow> False" "index_of xs 0 = Some (f64_of_nat 1)" "index_of xs 1 = Some (f64_of_nat 2)"
    "index_of xs 2 = Some (f64_of_nat 3)" "index_of xs 4 = Some (f64_of_nat 5)" "(5 :: nat) = 1 \<longleftrightarrow> False" "(0 :: nat) = 1 \<longleftrightarrow> False"
    by (simp_all add: xs_def index_of_def)
  note v = percentile_def percentile_at_def x r i if_False simp_thms if_True option.case prod.case
  have "percentile xs f64_zero = Some (f64_of_nat 1)" "percentile xs f64_one = Some (f64_of_nat 5)"
    "percentile xs (f64_of_dec 5 1) = Some (f64_of_nat 3)" "percentile xs (f64_of_dec 25 2) = Some (f64_of_nat 2)"
    "percentile xs (f64_of_dec 1 1) =
      Some (interpolate (f64_of_nat 1) (f64_of_nat 2) (f64_sub (f64_of_dec 4 1) (f64_of_nat 0)))"
    by (simp_all only: v)
  then show percentile_matches_hand_computed_values
    unfolding percentile_matches_hand_computed_values_def xs_def [symmetric] Let_def near_value_def
    using near_self(2) [OF whole_finite] near_self(2) [OF uval_one(2)] p f64_of_nat_1 by simp
qed

end
