(* ===== verification/Tests_Warmup.thy ===== *)
theory Tests_Warmup
  imports Tests_Engine Warmup
begin

text \<open>
  The tests of \<open>crates/vpin-engine/src/vpin.rs\<close> that run the engine on a zigzag of prices until it gives a
  value, for any error function. That such a tape moves (\<open>always_moves\<close>) is proved from the size of the
  steps: each price change is its nominal step up to \<open>2 ^ (-39)\<close>.
\<close>

subsection \<open>A zigzag and its price changes\<close>

definition zig :: "(nat \<Rightarrow> f64) \<Rightarrow> nat \<Rightarrow> f64" where
  "zig s i = foldl f64_add (f64_of_nat 100) (map s [0..<Suc i])"

definition steps_ok :: "(nat \<Rightarrow> f64) \<Rightarrow> bool" where
  "steps_ok s \<longleftrightarrow> (\<forall>i. f64_is_finite (s i) \<and> \<bar>uval (s i)\<bar> \<le> 2 ^ 1074)"

lemma rounded_close_nonneg:
  assumes "rounded x r" "0 \<le> x" "x \<le> 2 ^ (e + 52)" "e \<le> 2044"
  shows "\<bar>real_of_int (uval r) - x\<bar> \<le> 2 ^ e"
proof -
  define k where "k = nat \<lfloor>x / 2 ^ e\<rfloor>"
  have k: "real k \<le> x / 2 ^ e" "x / 2 ^ e \<le> real (Suc k)"
    using assms(2) of_int_floor_le [of "x / 2 ^ e"] real_of_int_floor_add_one_ge [of "x / 2 ^ e"]
    unfolding k_def by (simp_all only: of_nat_nat of_nat_Suc zero_le_floor zero_le_divide_iff zero_le_power) simp_all
  have "x / 2 ^ e \<le> 2 ^ 52" using assms(3) by (simp add: divide_le_eq power_add mult.commute)
  then have "real k \<le> real (2 ^ 52)" using k(1) by simp
  then have n: "k \<le> 2 ^ 52" by (simp only: of_nat_le_iff)
  have b: "\<exists>m < inf_mag. munits m = j * 2 ^ e" if "j \<le> 2 ^ 53" for j
  proof -
    have "j * 2 ^ e \<le> 2 ^ 53 * 2 ^ e" using that by (rule mult_right_mono) simp
    also have "\<dots> = 2 ^ (53 + e)" by (simp only: power_add)
    also have "\<dots> < (2::nat) ^ 2098" using assms(4) by (intro power_strict_increasing) simp_all
    finally show ?thesis by (rule finite_scaled [OF that])
  qed
  obtain l h where l: "l < inf_mag" "munits l = k * 2 ^ e" and h: "h < inf_mag" "munits h = Suc k * 2 ^ e"
    using b [of k] b [of "Suc k"] n by auto
  have lf: "f64_is_finite (Num False l)" "uval (Num False l) = int (k * 2 ^ e)" using l by simp_all
  have hf: "f64_is_finite (Num False h)" "uval (Num False h) = int (Suc k * 2 ^ e)" using h(1) by (simp_all add: h(2))
  have "real (k * 2 ^ e) \<le> x" "x \<le> real (Suc k * 2 ^ e)"
    using k by (simp_all add: le_divide_eq divide_le_eq distrib_right)
  then have x: "real_of_int (uval (Num False l)) \<le> x" "x \<le> real_of_int (uval (Num False h))"
    unfolding lf hf of_int_of_nat_eq .
  have "f64_le (Num False l) r" "f64_le r (Num False h)"
    using le_rounded [OF lf(1) x(1) assms(1)] rounded_le [OF hf(1) x(2) assms(1)] .
  moreover from this have "f64_is_finite r" using hf(1) l(1) by (cases r) (auto simp: f64_le_def min_def split: if_splits)
  ultimately have "uval (Num False l) \<le> uval r" "uval r \<le> uval (Num False h)"
    using f64_le_uval lf(1) hf(1) by blast+
  then have "real_of_int (uval (Num False l)) \<le> real_of_int (uval r)" "real_of_int (uval r) \<le> real_of_int (uval (Num False h))"
    by (simp_all only: of_int_le_iff)
  moreover have "real_of_int (uval (Num False h)) = real_of_int (uval (Num False l)) + 2 ^ e"
    unfolding lf hf by (simp add: algebra_simps)
  ultimately show ?thesis using x by (simp only: abs_le_iff) linarith
qed

lemma rounded_close:
  assumes "rounded x r" "\<bar>x\<bar> \<le> 2 ^ 1086" shows "\<bar>real_of_int (uval r) - x\<bar> \<le> 2 ^ 1034"
proof (cases "0 \<le> x")
  case True
  then show ?thesis using rounded_close_nonneg [OF assms(1), of 1034] assms(2) by simp
next
  case False
  have "rounded (- x) (f64_neg r)" using assms(1) unfolding rounded_def by force
  then have "\<bar>real_of_int (uval (f64_neg r)) - (- x)\<bar> \<le> 2 ^ 1034"
    using rounded_close_nonneg [of "- x" "f64_neg r" 1034] False assms(2) by simp
  then show ?thesis by simp
qed

lemma zig_Suc: "zig s (Suc i) = f64_add (zig s i) (s (Suc i))"
  by (simp add: zig_def)

lemma zig_bounds:
  assumes "steps_ok s" "i \<le> 900"
  shows "f64_is_finite (zig s i)" "\<bar>real_of_int (uval (zig s i))\<bar> \<le> 2 ^ 1084"
proof -
  have "f64_is_finite (zig s i) \<and> \<bar>uval (zig s i)\<bar> \<le> int ((100 + length (map s [0..<Suc i])) * 2 ^ 1074)"
    unfolding zig_def using assms
    by (intro foldl_within) (auto simp: whole_finite uval_f64_of_nat steps_ok_def)
  then have z: "f64_is_finite (zig s i)" "\<bar>uval (zig s i)\<bar> \<le> int ((101 + i) * 2 ^ 1074)" by simp_all
  have "(101 + i) * 2 ^ 1074 \<le> 2 ^ 10 * 2 ^ 1074" using assms(2) by (intro mult_right_mono) simp_all
  then have "real ((101 + i) * 2 ^ 1074) \<le> real (2 ^ 10 * 2 ^ 1074)" by (simp only: of_nat_le_iff)
  then have "real ((101 + i) * 2 ^ 1074) \<le> 2 ^ 1084" by simp
  then show "f64_is_finite (zig s i)" "\<bar>real_of_int (uval (zig s i))\<bar> \<le> 2 ^ 1084"
    using z(1) abs_int_le [OF z(2)] by linarith+
qed

text \<open>A price change is close to the step; the first bucket has none.\<close>

definition nominal :: "(nat \<Rightarrow> f64) \<Rightarrow> nat \<Rightarrow> f64" where
  "nominal s i = (if i = 0 then f64_zero else s i)"

text \<open>Prices that follow the zigzag up to \<open>2 ^ (-24)\<close>, as after a conversion to fixed point and back.\<close>

definition follows :: "(nat \<Rightarrow> f64) \<Rightarrow> (nat \<Rightarrow> f64) \<Rightarrow> bool" where
  "follows s P \<longleftrightarrow> (\<forall>i \<le> 900. f64_is_finite (P i) \<and> \<bar>real_of_int (uval (P i)) - real_of_int (uval (zig s i))\<bar> \<le> 2 ^ 1050)"

lemma zig_follows: "steps_ok s \<Longrightarrow> follows s (zig s)"
  using zig_bounds by (simp add: follows_def)

lemma zig_change:
  assumes "steps_ok s" "follows s P" "i \<le> 900"
  defines "d \<equiv> f64_sub (P i) (P (i - 1))"
  shows "f64_is_finite d" "\<bar>real_of_int (uval d) - real_of_int (uval (nominal s i))\<bar> \<le> 2 ^ 1052"
proof -
  have P: "f64_is_finite (P j) \<and> \<bar>real_of_int (uval (P j)) - real_of_int (uval (zig s j))\<bar> \<le> 2 ^ 1050" if "j \<le> 900" for j
    using assms(2) that by (simp add: follows_def)
  have "f64_is_finite d \<and> \<bar>real_of_int (uval d) - real_of_int (uval (nominal s i))\<bar> \<le> 2 ^ 1052"
  proof (cases i)
    case 0
    then show ?thesis using sub_same [of "P 0"] P [of 0] by (simp add: d_def nominal_def)
  next
    case (Suc j)
    have j: "j \<le> 900" "Suc j \<le> 900" using assms(3) Suc by simp_all
    note p = zig_bounds [OF assms(1) j(1)] and p' = zig_bounds [OF assms(1) j(2)] and q = P [OF j(1)] and q' = P [OF j(2)]
    have s: "f64_is_finite (s (Suc j))" "\<bar>real_of_int (uval (s (Suc j)))\<bar> \<le> 2 ^ 1074"
      using assms(1) abs_int_le [of "uval (s (Suc j))" "2 ^ 1074"] by (simp_all add: steps_ok_def)
    have b: "(2::real) ^ 1084 + 2 ^ 1074 \<le> 2 ^ 1086" "(2::real) ^ 1084 + 2 ^ 1084 + 2 ^ 1050 + 2 ^ 1050 \<le> 2 ^ 1086"
      "(2::real) ^ 1034 + 2 ^ 1034 + 2 ^ 1050 + 2 ^ 1050 \<le> 2 ^ 1052" by simp_all
    have "rounded (real_of_int (uval (zig s j) + uval (s (Suc j)))) (zig s (Suc j))"
      unfolding zig_Suc by (rule f64_add_rounded [OF p(1) s(1)])
    moreover have "\<bar>real_of_int (uval (zig s j) + uval (s (Suc j)))\<bar> \<le> 2 ^ 1086"
      using p(2) s(2) b(1) unfolding of_int_add by linarith
    ultimately have 1: "\<bar>real_of_int (uval (zig s (Suc j))) - real_of_int (uval (zig s j) + uval (s (Suc j)))\<bar> \<le> 2 ^ 1034"
      by (rule rounded_close)
    have r: "rounded (real_of_int (uval (P (Suc j)) - uval (P j))) d"
      unfolding d_def Suc using f64_sub_rounded [of "P (Suc j)" "P j"] q q' by simp
    have l: "\<bar>real_of_int (uval (P (Suc j)) - uval (P j))\<bar> \<le> 2 ^ 1086"
      using p(2) p'(2) q q' b(2) unfolding of_int_diff by linarith
    have f: "f64_is_finite d" using rounded_within [OF r, of 1 1086] l by simp
    have "\<bar>real_of_int (uval d) - real_of_int (uval (P (Suc j)) - uval (P j))\<bar> \<le> 2 ^ 1034"
      using r l by (rule rounded_close)
    then have "\<bar>real_of_int (uval d) - real_of_int (uval (s (Suc j)))\<bar> \<le> 2 ^ 1052"
      using 1 q q' b(3) unfolding of_int_diff of_int_add by linarith
    then show ?thesis using f by (simp add: Suc nominal_def)
  qed
  then show "f64_is_finite d" "\<bar>real_of_int (uval d) - real_of_int (uval (nominal s i))\<bar> \<le> 2 ^ 1052" by blast+
qed

text \<open>Every window of \<open>w\<close> steps has two that are a sixteenth apart.\<close>

definition varied :: "usize \<Rightarrow> (nat \<Rightarrow> f64) \<Rightarrow> bool" where
  "varied w s \<longleftrightarrow> (\<forall>j. \<exists>a \<in> {j..<j + w}. \<exists>b \<in> {j..<j + w}. 2 ^ 1070 \<le> uval (nominal s a) - uval (nominal s b))"

definition zig_bucket :: "(nat \<Rightarrow> f64) \<Rightarrow> (nat \<Rightarrow> u64) \<Rightarrow> nat \<Rightarrow> closed_bucket" where
  "zig_bucket P T i = bucket_of i (P (i - 1)) [(P i, f64_of_nat 10, T i)]"

definition zig_tape :: "(nat \<Rightarrow> f64) \<Rightarrow> (nat \<Rightarrow> u64) \<Rightarrow> nat \<Rightarrow> trade_in list" where
  "zig_tape P T n = map (\<lambda>i. (P i, f64_of_nat 10, T i)) [0..<n]"

lemma zig_bucket_change: "cb_delta_p (zig_bucket P T i) = f64_sub (P i) (P (i - 1))"
  by (simp add: zig_bucket_def bucket_of_def)

lemma change_size:
  assumes "steps_ok s" "follows s P" "i \<le> 900" defines "d \<equiv> f64_sub (P i) (P (i - 1))"
  shows "f64_is_finite d \<and> \<bar>f64_val d\<bar> \<le> 2 ^ 400"
proof -
  note c = zig_change [OF assms(1-3), folded d_def]
  have "\<bar>uval (nominal s i)\<bar> \<le> int (2 ^ 1074)" using assms(1) by (simp add: nominal_def steps_ok_def)
  moreover have "(2::real) ^ 1074 + 2 ^ 1052 \<le> 2 * 2 ^ 1074" by simp
  ultimately have "\<bar>real_of_int (uval d)\<bar> \<le> 2 * 2 ^ 1074" using c(2) abs_int_le [of "uval (nominal s i)" "2 ^ 1074"] by simp
  then have "\<bar>f64_val d\<bar> \<le> 2" by (simp add: f64_val_def one_units_def divide_le_eq)
  then show ?thesis using c(1) by simp
qed

lemma zig_moves:
  assumes "steps_ok s" "follows s P" "varied w s" "n \<le> 900"
  shows "always_moves w (map (zig_bucket P T) [0..<n])"
  unfolding always_moves_def
proof (intro allI impI)
  fix j assume j: "j + w \<le> length (map (zig_bucket P T) [0..<n])"
  let ?c = "\<lambda>i. f64_sub (P i) (P (i - 1))"
  have w: "take w (drop j (map cb_delta_p (map (zig_bucket P T) [0..<n]))) = map ?c [j..<j + w]"
    using j by (simp add: drop_map take_map drop_upt take_upt zig_bucket_change comp_def)
  obtain a b where ab: "a \<in> {j..<j + w}" "b \<in> {j..<j + w}" "2 ^ 1070 \<le> uval (nominal s a) - uval (nominal s b)"
    using assms(3) unfolding varied_def by blast
  have n: "a \<le> 900" "b \<le> 900" using ab(1,2) j assms(4) by simp_all
  have "real_of_int (2 ^ 1070) \<le> real_of_int (uval (nominal s a) - uval (nominal s b))" using ab(3) by (simp only: of_int_le_iff)
  moreover have "(2::real) ^ 674 + 2 ^ 1052 + 2 ^ 1052 \<le> 2 ^ 1070" by simp
  ultimately have "2 ^ 674 \<le> real_of_int (uval (?c a)) - real_of_int (uval (?c b))"
    using zig_change(2) [OF assms(1,2) n(1)] zig_change(2) [OF assms(1,2) n(2)] by simp
  then have "1 / 2 ^ 400 \<le> f64_val (?c a) - f64_val (?c b)"
    unfolding f64_val_def one_units_def diff_divide_distrib [symmetric] by (simp add: le_divide_eq)
  moreover have "\<forall>x \<in> set (map ?c [j..<j + w]). f64_is_finite x \<and> \<bar>f64_val x\<bar> \<le> 2 ^ 400"
    using change_size [OF assms(1,2)] j assms(4) by auto
  moreover have "?c a \<in> set (map ?c [j..<j + w])" "?c b \<in> set (map ?c [j..<j + w])" using ab(1,2) by auto
  ultimately show "moves (take w (drop j (map cb_delta_p (map (zig_bucket P T) [0..<n]))))"
    unfolding w moves_def by blast
qed

subsection \<open>The buckets and the readings\<close>

lemma segments_single:
  "\<forall>(p, v, t) \<in> set ts. \<not> f64_lt (f64_add f64_zero v) V \<Longrightarrow> segments V [] f64_zero ts = (map (\<lambda>x. [x]) ts, [])"
  by (induction ts) auto

lemma zig_buckets_from:
  "buckets_of i (P (i - 1)) (map (\<lambda>j. [(P j, f64_of_nat 10, T j)]) [i..<n]) = map (zig_bucket P T) [i..<n]"
proof (induction "n - i" arbitrary: i)
  case (Suc k)
  then have "[i..<n] = i # [Suc i..<n]" "k = n - Suc i" by (simp_all add: upt_conv_Cons)
  then show ?case using Suc.hyps(1) [of "Suc i"] by (simp add: zig_bucket_def)
qed simp

lemma zig_bucket_count: "cb_trade_count (zig_bucket P T i) = 1"
  by (simp add: zig_bucket_def bucket_of_def)

lemma zig_segments: "segments (f64_of_nat 10) [] f64_zero (zig_tape P T n) = (map (\<lambda>x. [x]) (zig_tape P T n), [])"
  using segments_single [of "zig_tape P T n" "f64_of_nat 10"] by (auto simp: zig_tape_def whole_volume whole_less)

lemma zig_buckets:
  assumes "VpinEngine_new cfg = Inr e" "vc_bucket_volume cfg = f64_of_nat 10" "0 < n"
  shows "snd (bucketer_run (ve_bucketer e) (zig_tape P T n)) = map (zig_bucket P T) [0..<n]"
proof -
  have e: "ve_bucketer e = \<lparr>vb_target_volume = f64_of_nat 10, vb_bucket_id = 0, vb_acc_volume = f64_zero,
      vb_last_price = f64_zero, vb_prev_close = None, vb_trade_count = 0, vb_started = False\<rparr>"
    using assms by (auto simp: VpinEngine_new_Inr fresh_engine_def)
  have b: "VolumeBucketer_new (f64_of_nat 10) = Inr (ve_bucketer e)"
    by (simp add: VolumeBucketer_new_def e whole_finite f64_of_nat_pos)
  obtain ts where t: "zig_tape P T n = (P 0, f64_of_nat 10, T 0) # ts"
    using assms(3) by (simp add: zig_tape_def upt_conv_Cons)
  have g: "segments (f64_of_nat 10) [] (volume_of []) ((P 0, f64_of_nat 10, T 0) # ts) =
      (map (\<lambda>x. [x]) ((P 0, f64_of_nat 10, T 0) # ts), [])"
    using zig_segments [of P T n] unfolding t by simp
  have "snd (bucketer_run (ve_bucketer e) (zig_tape P T n)) = buckets_of 0 (P 0) (map (\<lambda>x. [x]) (zig_tape P T n))"
    unfolding t run_first_price [OF new_push_open(2) [OF b]]
    using run_open_state [OF new_push_open(1) [OF b, of "P 0"] g] by blast
  then show ?thesis using zig_buckets_from [of 0 P T n] by (simp add: zig_tape_def comp_def)
qed

text \<open>The engine on a varied zigzag: a reading per trade, with a value once the windows are full.\<close>

lemma zig_readings:
  assumes "erf_range erf" "config_ok cfg" "config_bounded cfg" "vc_sigma_window cfg \<le> 2 ^ 52"
    "vc_bucket_volume cfg = f64_of_nat 10" "steps_ok s" "varied (vc_sigma_window cfg) s" "0 < n" "n \<le> 900" "follows s P"
  shows "\<exists>e' rs. engine_run erf (fresh_engine cfg) (zig_tape P T n) = Some (e', rs) \<and> length rs = n \<and>
    (\<forall>r \<in> set rs. reading_ok (vc_confidence_interval cfg \<noteq> None) r \<and> vr_trades_in_bucket r = 1) \<and>
    (\<forall>i < n. vr_vpin (rs ! i) \<noteq> None \<longleftrightarrow> vc_sigma_window cfg + vc_vpin_window cfg - 1 \<le> i)"
proof -
  have new: "VpinEngine_new cfg = Inr (fresh_engine cfg)" using assms(2) by (simp add: VpinEngine_new_Inr)
  have "small (f64_of_nat 10)" by (simp add: capped_def whole_finite uval_f64_of_nat)
  then have v: "\<forall>(p, v, t) \<in> set (zig_tape P T n). small v" by (auto simp: zig_tape_def)
  obtain e' rs where r: "engine_run erf (fresh_engine cfg) (zig_tape P T n) = Some (e', rs)"
    "\<forall>r \<in> set rs. reading_ok (vc_confidence_interval cfg \<noteq> None) r"
    using engine_run_inv [OF assms(1) fresh_engine_inv [OF assms(2,3)] v] by (auto simp: fresh_engine_def)
  note b = zig_buckets [OF new assms(5,8), of P T]
  note w = warm_run [OF assms(2,4) r(1), unfolded b, OF zig_moves [OF assms(6,10,7,9)]]
  have "map reading_core rs = readings_of erf cfg [] (map (zig_bucket P T) [0..<n])"
    using engine_run_tracks [OF assms(2) tracks_fresh r(1)] unfolding b by simp
  then have "reading_core (rs ! i) = readings_of erf cfg [] (map (zig_bucket P T) [0..<n]) ! i" if "i < n" for i
    using that w(1) by (metis length_map length_upt minus_nat.diff_0 nth_map)
  then have "vr_trades_in_bucket (rs ! i) = 1" if i: "i < n" for i
    using i nth_readings_of [of i "map (zig_bucket P T) [0..<n]" erf cfg "[]"] zig_bucket_count [of P T i]
    unfolding reading_core_def by fastforce
  then have "\<forall>r \<in> set rs. vr_trades_in_bucket r = 1" using w(1) by (auto simp: in_set_conv_nth)
  then show ?thesis using r w(1,2) by auto
qed

lemma zig_gives_value:
  assumes "length rs = n" "\<forall>i < n. vr_vpin (rs ! i) \<noteq> None \<longleftrightarrow> k \<le> i" "k < n"
  shows "\<exists>r \<in> set rs. vr_vpin r \<noteq> None"
  using assms by (intro bexI [of _ "rs ! k"]) auto

subsection \<open>The tests\<close>

definition tick :: "f64 \<Rightarrow> nat \<Rightarrow> f64" where
  "tick price i = f64_add price (if i mod 2 = 0 then f64_of_dec 5 1 else f64_neg (f64_of_dec 3 1))"

definition tick_price :: "nat \<Rightarrow> f64" where
  "tick_price i = foldl tick (f64_of_nat 100) [0..<Suc i]"

text \<open>\<open>for i in 0..n { price += ..; engine.push_trade(price, 10.0, i) }\<close>.\<close>

definition ticks :: "nat \<Rightarrow> trade_in list" where
  "ticks n = map (\<lambda>i. (tick_price i, f64_of_nat 10, of_nat i)) [0..<n]"

text \<open>The readings of a run; \<open>None\<close> when \<open>new\<close> is refused or a push panics.\<close>

definition readings :: "(f64 \<Rightarrow> f64) \<Rightarrow> vpin_engine_config \<Rightarrow> trade_in list \<Rightarrow> vpin_reading list option" where
  "readings erf cfg ts = (case VpinEngine_new cfg of Inl e \<Rightarrow> None | Inr engine \<Rightarrow> map_option snd (engine_run erf engine ts))"

definition vpin_engine_none_during_warmup_then_produces_readings :: "(f64 \<Rightarrow> f64) \<Rightarrow> bool" where
  "vpin_engine_none_during_warmup_then_produces_readings erf \<longleftrightarrow> (case readings erf base_config (ticks 200) of None \<Rightarrow> False
     | Some rs \<Rightarrow> (\<forall>r \<in> set rs. pred_option in_unit (vr_vpin r)) \<and> (\<exists>r \<in> set rs. vr_vpin r \<noteq> None))"

definition ci_fields_stay_none_when_not_configured :: "(f64 \<Rightarrow> f64) \<Rightarrow> bool" where
  "ci_fields_stay_none_when_not_configured erf \<longleftrightarrow> (case readings erf base_config (ticks 100) of None \<Rightarrow> False
     | Some rs \<Rightarrow> (\<forall>r \<in> set rs. vr_vpin_ci_low r = None \<and> vr_vpin_ci_high r = None) \<and> (\<exists>r \<in> set rs. vr_vpin r \<noteq> None))"

definition ci_config :: vpin_engine_config where
  "ci_config = base_config\<lparr>vc_confidence_interval :=
     Some \<lparr>ci_confidence_level = f64_of_dec 95 2, ci_bootstrap_samples = 100, ci_seed = 3\<rparr>\<rparr>"

definition ci_fields_track_vpin_warmup_exactly_when_configured :: "(f64 \<Rightarrow> f64) \<Rightarrow> bool" where
  "ci_fields_track_vpin_warmup_exactly_when_configured erf \<longleftrightarrow> (case readings erf ci_config (ticks 100) of None \<Rightarrow> False
     | Some rs \<Rightarrow> (\<forall>r \<in> set rs. (vr_vpin r \<noteq> None \<longleftrightarrow> vr_vpin_ci_low r \<noteq> None) \<and> (vr_vpin r \<noteq> None \<longleftrightarrow> vr_vpin_ci_high r \<noteq> None)) \<and>
         (\<exists>r \<in> set rs. vr_vpin r \<noteq> None))"

lemma step_sizes:
  "f64_is_finite (f64_of_dec 5 1) \<and> uval (f64_of_dec 5 1) = 2 ^ 1073"
  "f64_is_finite (f64_of_dec 3 1) \<and> uval (f64_of_dec 3 1) \<le> 2 ^ 1073 \<and> 2 ^ 1072 \<le> uval (f64_of_dec 3 1)"
  "f64_is_finite (f64_of_dec 8 1) \<and> uval (f64_of_dec 8 1) \<le> 2 ^ 1074 \<and> 2 ^ 1073 \<le> uval (f64_of_dec 8 1)"
  by (simp_all add: f64_of_dec_def rnd_mag_def rnd_index_def rnd_at_def fit_exp_def rne_def round_quotient_def
      compute_floorlog munits_def sig_of_def exp_of_def inf_mag_def)

definition alternating :: "f64 \<Rightarrow> f64 \<Rightarrow> nat \<Rightarrow> f64" where
  "alternating up down i = (if i mod 2 = 0 then up else f64_neg down)"

lemma alternating_steps:
  assumes "f64_is_finite up" "f64_is_finite down" "\<bar>uval up\<bar> \<le> 2 ^ 1074" "\<bar>uval down\<bar> \<le> 2 ^ 1074"
    "2 ^ 1070 \<le> uval up + uval down"
  shows "steps_ok (alternating up down)" "3 \<le> w \<Longrightarrow> varied w (alternating up down)"
proof -
  let ?s = "alternating up down"
  show "steps_ok ?s" using assms(1-4) by (auto simp: steps_ok_def alternating_def)
  assume w: "3 \<le> w"
  show "varied w ?s" unfolding varied_def
  proof
    fix j :: nat
    define a b where "a = (if even j then j + 2 else j + 1)" and "b = (if even j then j + 1 else j)"
    have "a \<in> {j..<j + w}" "b \<in> {j..<j + w}" "even a" "odd b" "a \<noteq> 0" "b \<noteq> 0" using w by (auto simp: a_def b_def odd_pos)
    moreover from this have "2 ^ 1070 \<le> uval (nominal ?s a) - uval (nominal ?s b)"
      using assms(5) by (simp add: nominal_def alternating_def even_iff_mod_2_eq_zero odd_iff_mod_2_eq_one)
    ultimately show "\<exists>a \<in> {j..<j + w}. \<exists>b \<in> {j..<j + w}. 2 ^ 1070 \<le> uval (nominal ?s a) - uval (nominal ?s b)"
      by blast
  qed
qed

abbreviation tick_step :: "nat \<Rightarrow> f64" where
  "tick_step \<equiv> alternating (f64_of_dec 5 1) (f64_of_dec 3 1)"

lemma ticks_zig: "ticks n = zig_tape (zig tick_step) of_nat n"
proof -
  have "tick p i = f64_add p (tick_step i)" for p i by (simp add: tick_def alternating_def)
  then have "tick_price i = zig tick_step i" for i unfolding tick_price_def zig_def foldl_map by presburger
  then show ?thesis by (simp add: ticks_def zig_tape_def)
qed

lemma tick_steps: "steps_ok tick_step" "3 \<le> w \<Longrightarrow> varied w tick_step"
  using step_sizes by (auto intro!: alternating_steps)

text \<open>A configuration with 10 units per bucket on the ticks.\<close>

lemma ticks_readings:
  assumes "erf_range erf" "config_ok cfg" "config_bounded cfg" "vc_bucket_volume cfg = f64_of_nat 10"
    "3 \<le> vc_sigma_window cfg" "vc_sigma_window cfg + vc_vpin_window cfg \<le> n" "n \<le> 900"
  shows "\<exists>rs. readings erf cfg (ticks n) = Some rs \<and> (\<exists>r \<in> set rs. vr_vpin r \<noteq> None) \<and>
    (\<forall>r \<in> set rs. reading_ok (vc_confidence_interval cfg \<noteq> None) r \<and> vr_trades_in_bucket r = 1)"
proof -
  have n: "vc_sigma_window cfg \<le> 2 ^ 52" "0 < n" "vc_sigma_window cfg + vc_vpin_window cfg - 1 < n"
    using assms(5-7) by simp_all
  from zig_readings [OF assms(1-3) n(1) assms(4) tick_steps(1) tick_steps(2) [OF assms(5)] n(2) assms(7)
      zig_follows [OF tick_steps(1)], of of_nat]
  obtain e' rs where r: "engine_run erf (fresh_engine cfg) (ticks n) = Some (e', rs)" "length rs = n"
    "\<forall>r \<in> set rs. reading_ok (vc_confidence_interval cfg \<noteq> None) r \<and> vr_trades_in_bucket r = 1"
    "\<forall>i < n. vr_vpin (rs ! i) \<noteq> None \<longleftrightarrow> vc_sigma_window cfg + vc_vpin_window cfg - 1 \<le> i"
    unfolding ticks_zig by blast
  have "VpinEngine_new cfg = Inr (fresh_engine cfg)" using assms(2) by (simp add: VpinEngine_new_Inr)
  then show ?thesis using r zig_gives_value [OF r(2,4) n(3)] by (simp add: readings_def)
qed

lemma base_config_ok: "config_ok base_config" "config_bounded base_config" "vc_bucket_volume base_config = f64_of_nat 10"
  "vc_sigma_window base_config = 3" "vc_vpin_window base_config = 3" "vc_confidence_interval base_config = None"
  by (simp_all add: config_ok_def config_bounded_def base_config_def whole_finite f64_of_nat_pos capped_def uval_f64_of_nat)

lemma ci_level_ok: "f64_lt f64_zero (f64_of_dec 95 2) \<and> f64_lt (f64_of_dec 95 2) f64_one"
  by (simp add: f64_eval)

lemma ci_config_ok: "config_ok ci_config" "config_bounded ci_config" "vc_bucket_volume ci_config = f64_of_nat 10"
  "vc_sigma_window ci_config = 3" "vc_vpin_window ci_config = 3" "vc_confidence_interval ci_config \<noteq> None"
  using base_config_ok(1-5) ci_level_ok by (simp_all add: ci_config_def config_ok_def config_bounded_def ci_ok_def)

lemma warmup_tests:
  assumes "erf_range erf"
  shows "vpin_engine_none_during_warmup_then_produces_readings erf" "ci_fields_stay_none_when_not_configured erf"
    "ci_fields_track_vpin_warmup_exactly_when_configured erf"
proof -
  note b = base_config_ok and c = ci_config_ok
  show "vpin_engine_none_during_warmup_then_produces_readings erf"
    using ticks_readings [OF assms b(1-3), of 200] b(4,5)
    by (force simp: vpin_engine_none_during_warmup_then_produces_readings_def reading_ok_def)
  show "ci_fields_stay_none_when_not_configured erf"
    using ticks_readings [OF assms b(1-3), of 100] b(4-6)
    by (force simp: ci_fields_stay_none_when_not_configured_def reading_ok_def)
  show "ci_fields_track_vpin_warmup_exactly_when_configured erf"
    using ticks_readings [OF assms c(1-3), of 100] c(4-6)
    by (force simp: ci_fields_track_vpin_warmup_exactly_when_configured_def reading_ok_def)
qed

subsection \<open>Reproducible intervals\<close>

definition seed_step :: "nat \<Rightarrow> f64" where
  "seed_step i = (if i mod 3 = 0 then f64_of_dec 8 1 else f64_neg (f64_of_dec 5 1))"

definition seed_config :: vpin_engine_config where
  "seed_config = base_config\<lparr>vc_vpin_window := 5, vc_confidence_interval :=
     Some \<lparr>ci_confidence_level = f64_of_dec 95 2, ci_bootstrap_samples = 300, ci_seed = 99\<rparr>\<rparr>"

text \<open>\<open>run\<close> of the test: the interval bounds of 150 ticks of 10 units, where both are given.\<close>

definition reading_bounds :: "vpin_reading \<Rightarrow> (f64 \<times> f64) option" where
  "reading_bounds r = (case (vr_vpin_ci_low r, vr_vpin_ci_high r) of (Some low, Some high) \<Rightarrow> Some (low, high) | _ \<Rightarrow> None)"

definition seeded_run :: "(f64 \<Rightarrow> f64) \<Rightarrow> (f64 \<times> f64) list option" where
  "seeded_run erf = map_option (List.map_filter reading_bounds) (readings erf seed_config (zig_tape (zig seed_step) of_nat 150))"

definition same_seed_gives_bit_identical_ci_bounds_across_runs :: "(f64 \<Rightarrow> f64) \<Rightarrow> bool" where
  "same_seed_gives_bit_identical_ci_bounds_across_runs erf \<longleftrightarrow> (case (seeded_run erf, seeded_run erf) of
      (Some first, Some second) \<Rightarrow> first \<noteq> [] \<and>
        list_all2 (\<lambda>(a, b) (c, d). f64_eq a c \<and> f64_eq b d) first second
    | _ \<Rightarrow> False)"

lemma seed_steps: "steps_ok seed_step" "varied 3 seed_step"
proof -
  show "steps_ok seed_step" using step_sizes by (auto simp: steps_ok_def seed_step_def)
  show "varied 3 seed_step" unfolding varied_def
  proof
    fix j :: nat
    define a b where "a = (if j mod 3 = 0 then j else if j mod 3 = 1 then j + 2 else j + 1)"
      and "b = (if j mod 3 = 0 then j + 1 else j)"
    have ab: "a \<in> {j..<j + 3}" "b \<in> {j..<j + 3}" by (simp_all add: a_def b_def)
    have "a mod 3 = 0" "b mod 3 \<noteq> 0" unfolding a_def b_def by (cases "j mod 3 = 0"; presburger)+
    moreover from this have "b \<noteq> 0" by (cases b) simp_all
    ultimately have "2 ^ 1070 \<le> uval (nominal seed_step a) - uval (nominal seed_step b)"
      using step_sizes(1,3) by (simp add: nominal_def seed_step_def)
    then show "\<exists>a \<in> {j..<j + 3}. \<exists>b \<in> {j..<j + 3}. 2 ^ 1070 \<le> uval (nominal seed_step a) - uval (nominal seed_step b)"
      using ab by blast
  qed
qed

lemma seed_config_ok: "config_ok seed_config" "config_bounded seed_config" "vc_bucket_volume seed_config = f64_of_nat 10"
  "vc_sigma_window seed_config = 3" "vc_vpin_window seed_config = 5" "vc_confidence_interval seed_config \<noteq> None"
  using base_config_ok ci_level_ok by (simp_all add: seed_config_def config_ok_def config_bounded_def ci_ok_def)

lemma in_unit_eq: "in_unit x \<Longrightarrow> f64_eq x x"
  by (cases x) (simp_all add: in_unit_def f64_eq_def f64_le_def)

lemma seeded_test:
  assumes "erf_range erf" shows "same_seed_gives_bit_identical_ci_bounds_across_runs erf"
proof -
  note c = seed_config_ok
  have n: "vc_sigma_window seed_config \<le> 2 ^ 52" "varied (vc_sigma_window seed_config) seed_step" "7 < (150 :: nat)"
    using seed_steps(2) c(4) by simp_all
  from zig_readings [OF assms c(1,2) n(1) c(3) seed_steps(1) n(2), of 150 "zig seed_step" of_nat]
  obtain e' rs where r: "engine_run erf (fresh_engine seed_config) (zig_tape (zig seed_step) of_nat 150) = Some (e', rs)"
    "length rs = 150" "\<forall>r \<in> set rs. reading_ok True r" "\<forall>i < 150. vr_vpin (rs ! i) \<noteq> None \<longleftrightarrow> 7 \<le> i"
    using c(4-6) zig_follows [OF seed_steps(1)] by auto
  have "VpinEngine_new seed_config = Inr (fresh_engine seed_config)" using c(1) by (simp add: VpinEngine_new_Inr)
  then have run: "seeded_run erf = Some (List.map_filter reading_bounds rs)" using r(1) by (simp add: seeded_run_def readings_def)
  have b: "x \<in> set (List.map_filter reading_bounds rs) \<longleftrightarrow> (\<exists>r \<in> set rs. reading_bounds r = Some x)" for x
    by (induction rs) (auto simp: map_filter_simps split: option.splits)
  obtain r where "r \<in> set rs" "vr_vpin r \<noteq> None" using zig_gives_value [OF r(2,4) n(3)] by blast
  moreover from this r(3) have "reading_bounds r \<noteq> None" by (auto simp: reading_bounds_def reading_ok_def)
  ultimately have ne: "List.map_filter reading_bounds rs \<noteq> []" using b by fastforce
  have "f64_eq l l \<and> f64_eq h h" if x: "(l, h) \<in> set (List.map_filter reading_bounds rs)" for l h
  proof -
    obtain r where m: "r \<in> set rs" and s: "reading_bounds r = Some (l, h)" using x unfolding b by (elim bexE)
    have "vr_vpin_ci_low r = Some l" "vr_vpin_ci_high r = Some h"
      using s by (simp_all add: reading_bounds_def split: option.splits)
    then have "in_unit l" "in_unit h" using bspec [OF r(3) m] by (simp_all add: reading_ok_def)
    then show ?thesis by (simp add: in_unit_eq)
  qed
  then have "list_all2 (\<lambda>(a, b) (c, d). f64_eq a c \<and> f64_eq b d) (List.map_filter reading_bounds rs)
      (List.map_filter reading_bounds rs)"
    unfolding list_all2_same by (intro ballI) (auto split: prod.splits)
  then show ?thesis
    unfolding same_seed_gives_bit_identical_ci_bounds_across_runs_def run using ne by simp
qed

end
