(* ===== verification/Tests_Service.thy ===== *)
theory Tests_Service
  imports Process Client
begin

text \<open>
  The unit tests of \<open>services/toxicity-service\<close> and \<open>crates/toxicity-client-rs\<close>, translated assertion by
  assertion and proved of the model. What a test does over a socket is the list of events its two ends see; a
  JSON text enters as what the parser makes of it. Tests whose outcome depends on values of \<open>erf\<close> are left out.
\<close>

subsection \<open>\<open>config.rs\<close>\<close>

definition parses_known_exchanges_case_insensitively :: bool where
  "parses_known_exchanges_case_insensitively \<longleftrightarrow> parse_exchange (str_of ''Binance'') = Some Binance \<and>
     parse_exchange (str_of ''BYBIT'') = Some Bybit \<and> parse_exchange (str_of ''hyperliquid'') = Some Hyperliquid"

definition rejects_unknown_exchange :: bool where
  "rejects_unknown_exchange \<longleftrightarrow> parse_exchange (str_of ''okx'') = None"

definition stream_key_normalizes_casing :: bool where
  "stream_key_normalizes_casing \<longleftrightarrow>
     stream_key (str_of ''Binance'') (str_of ''btcusdt'') = str_of ''binance:BTCUSDT'' \<and>
     stream_key (str_of ''BYBIT'') (str_of ''BTCUSDT'') = str_of ''bybit:BTCUSDT''"

text \<open>The stream of the tests' JSON texts, with the two backoff fields as given.\<close>

definition json_stream :: "u64 option \<Rightarrow> u64 option \<Rightarrow> stream_config" where
  "json_stream base_ms max_secs = \<lparr>sc_exchange = str_of ''binance'', sc_symbol = str_of ''BTCUSDT'',
     sc_bucket_volume = f64_of_nat 50, sc_sigma_window = 50, sc_vpin_window = 50, sc_cdf_window = None,
     sc_backoff_base_ms = base_ms, sc_backoff_max_secs = max_secs\<rparr>"

definition backoff_config_falls_back_to_default_when_unset :: bool where
  "backoff_config_falls_back_to_default_when_unset \<longleftrightarrow>
     StreamConfig_backoff_config (json_stream None None) = BackoffConfig_default"

definition backoff_config_uses_per_stream_override_when_set :: bool where
  "backoff_config_uses_per_stream_override_when_set \<longleftrightarrow>
     (let resolved = StreamConfig_backoff_config (json_stream (Some 500) (Some 60))
      in bc_base resolved = millis 500 \<and> bc_max resolved = secs 60)"

definition backoff_config_allows_overriding_only_one_field :: bool where
  "backoff_config_allows_overriding_only_one_field \<longleftrightarrow>
     (let resolved = StreamConfig_backoff_config (json_stream (Some 500) None)
      in bc_base resolved = millis 500 \<and> bc_max resolved = bc_max BackoffConfig_default)"

definition load_streams_reads_a_valid_file :: "str \<Rightarrow> bool" where
  "load_streams_reads_a_valid_file path \<longleftrightarrow> (case load_streams Inr (\<lambda>raw. Inr [json_stream None None]) path of
      Inl e \<Rightarrow> False | Inr streams \<Rightarrow> length streams = 1 \<and> sc_symbol (streams ! 0) = str_of ''BTCUSDT'')"

definition load_streams_errors_on_missing_file :: "str \<Rightarrow> bool" where
  "load_streams_errors_on_missing_file os_error \<longleftrightarrow>
     (case load_streams (\<lambda>path. Inl os_error) (\<lambda>raw. Inr []) (str_of ''/nonexistent/path/does-not-exist.json'') of
        Inl (FailedToRead path e) \<Rightarrow> True | _ \<Rightarrow> False)"

definition load_streams_errors_on_invalid_json :: "str \<Rightarrow> str \<Rightarrow> bool" where
  "load_streams_errors_on_invalid_json path json_error \<longleftrightarrow>
     (case load_streams (\<lambda>path. Inr (str_of ''not valid json at all'')) (\<lambda>raw. Inl json_error) path of
        Inl (FailedToParse p e) \<Rightarrow> True | _ \<Rightarrow> False)"

definition load_streams_errors_on_zero_streams :: "str \<Rightarrow> bool" where
  "load_streams_errors_on_zero_streams path \<longleftrightarrow>
     (case load_streams Inr (\<lambda>raw. Inr []) path of Inl (ZeroStreams p) \<Rightarrow> True | _ \<Rightarrow> False)"

lemma config_tests:
  "parses_known_exchanges_case_insensitively" "rejects_unknown_exchange" "stream_key_normalizes_casing"
  "backoff_config_falls_back_to_default_when_unset" "backoff_config_uses_per_stream_override_when_set"
  "backoff_config_allows_overriding_only_one_field" "load_streams_reads_a_valid_file path"
  "load_streams_errors_on_missing_file e" "load_streams_errors_on_invalid_json path e"
  "load_streams_errors_on_zero_streams path"
  by (simp_all add: parses_known_exchanges_case_insensitively_def rejects_unknown_exchange_def
      stream_key_normalizes_casing_def backoff_config_falls_back_to_default_when_unset_def
      backoff_config_uses_per_stream_override_when_set_def backoff_config_allows_overriding_only_one_field_def
      load_streams_reads_a_valid_file_def load_streams_errors_on_missing_file_def
      load_streams_errors_on_invalid_json_def load_streams_errors_on_zero_streams_def
      parse_exchange_def stream_key_def str_of_def ascii_lower_def ascii_upper_def json_stream_def
      StreamConfig_backoff_config_def BackoffConfig_default_def load_streams_def)

subsection \<open>\<open>main.rs\<close>\<close>

definition resolve_stream_accepts_a_valid_config :: bool where
  "resolve_stream_accepts_a_valid_config \<longleftrightarrow> (case resolve_stream (json_stream None None) of
      Inl e \<Rightarrow> False | Inr (exch, engine_cfg) \<Rightarrow> exch = Binance \<and> vc_bucket_volume engine_cfg = f64_of_nat 50)"

definition resolve_stream_rejects_unknown_exchange :: bool where
  "resolve_stream_rejects_unknown_exchange \<longleftrightarrow>
     (case resolve_stream ((json_stream None None)\<lparr>sc_exchange := str_of ''okx''\<rparr>) of
        Inl (UnknownExchange s) \<Rightarrow> True | _ \<Rightarrow> False)"

definition resolve_stream_rejects_invalid_vpin_config :: bool where
  "resolve_stream_rejects_invalid_vpin_config \<longleftrightarrow>
     (case resolve_stream ((json_stream None None)\<lparr>sc_bucket_volume := f64_neg f64_one\<rparr>) of
        Inl (InvalidVpinConfig e) \<Rightarrow> True | _ \<Rightarrow> False)"

lemma main_tests:
  "resolve_stream_accepts_a_valid_config" "resolve_stream_rejects_unknown_exchange"
  "resolve_stream_rejects_invalid_vpin_config"
proof -
  let ?s = "json_stream None None"
  have x: "parse_exchange (str_of ''binance'') = Some Binance" "parse_exchange (str_of ''okx'') = None"
    by (simp_all add: parse_exchange_def str_of_def ascii_lower_def)
  have "config_ok (engine_cfg_of ?s)"
    by (simp add: config_ok_def engine_cfg_of_def json_stream_def f64_of_nat_finite f64_of_nat_pos)
  then have "resolve_stream ?s = Inr (Binance, engine_cfg_of ?s)"
    using x resolve_stream_Inr [of ?s Binance "engine_cfg_of ?s"] by (simp add: json_stream_def)
  then show resolve_stream_accepts_a_valid_config
    by (simp add: resolve_stream_accepts_a_valid_config_def engine_cfg_of_def json_stream_def)
  show resolve_stream_rejects_unknown_exchange
    by (simp add: resolve_stream_rejects_unknown_exchange_def resolve_stream_def x)
  have "\<not> f64_lt f64_zero (f64_neg f64_one)" by (simp add: f64_eval)
  then have "VolumeBucketer_new (f64_neg f64_one) = Inl (InvalidBucketVolume (f64_neg f64_one))"
    by (simp add: VolumeBucketer_new_def)
  then show resolve_stream_rejects_invalid_vpin_config
    by (simp add: resolve_stream_rejects_invalid_vpin_config_def resolve_stream_def x json_stream_def Let_def VpinEngine_new_def
        checked_ci_def)
qed

subsection \<open>\<open>server.rs\<close>\<close>

text \<open>The server of the tests has one stream; the peer subscribes to it, or to another one.\<close>

definition test_registry :: "server_message option \<Rightarrow> str \<rightharpoonup> stream_entry" where
  "test_registry snapshot = [stream_key (str_of ''binance'') (str_of ''BTCUSDT'') \<mapsto>
     (StreamEntry_new (str_of ''binance'') (str_of ''BTCUSDT''))\<lparr>se_last_message := snapshot\<rparr>]"

definition test_reading :: "u64 \<Rightarrow> u64 \<Rightarrow> u32 \<Rightarrow> f64 option \<Rightarrow> f64 option \<Rightarrow> server_message" where
  "test_reading bucket_id ts trades vpin cdf = Reading (str_of ''binance'') (str_of ''BTCUSDT'') bucket_id ts trades vpin cdf"

definition test_session :: "(server_message \<Rightarrow> str) \<Rightarrow> server_message option \<Rightarrow> str \<Rightarrow> session_event list \<Rightarrow>
    rejection + ws_frame list \<times> (service_error + unit) option" where
  "test_session json snapshot symbol evs = handle_connection json
     (\<lambda>t. Inr \<lparr>sr_exchange = str_of ''binance'', sr_symbol = symbol\<rparr>) (\<lambda>k. None) (test_registry snapshot) None None
     (Some (TextFrame [])) evs"

definition subscribes_and_receives_broadcast_reading :: "(server_message \<Rightarrow> str) \<Rightarrow> bool" where
  "subscribes_and_receives_broadcast_reading json \<longleftrightarrow>
     (let msg = test_reading 1 42 5 (Some (f64_of_dec 5 1)) (Some (f64_of_dec 9 1))
      in test_session json None (str_of ''BTCUSDT'') [Received msg] = Inr ([TextFrame (json msg)], None))"

definition catches_up_new_subscriber_with_last_message :: "(server_message \<Rightarrow> str) \<Rightarrow> bool" where
  "catches_up_new_subscriber_with_last_message json \<longleftrightarrow>
     (let snapshot = test_reading 7 999 3 (Some (f64_of_dec 42 2)) None
      in test_session json (Some snapshot) (str_of ''BTCUSDT'') [] = Inr ([TextFrame (json snapshot)], None))"

definition unknown_stream_gets_an_error_and_disconnect :: "(server_message \<Rightarrow> str) \<Rightarrow> bool" where
  "unknown_stream_gets_an_error_and_disconnect json \<longleftrightarrow>
     (case test_session json None (str_of ''DOGEUSDT'') [] of
        Inr ([TextFrame t], Some (Inl e)) \<Rightarrow> \<exists>msg. t = json (Error_Message msg)
      | _ \<Rightarrow> False)"

text \<open>A peer that only connects: the handshake fails when the handler rejects it.\<close>

definition test_handshake :: "str option \<Rightarrow> str option \<Rightarrow> rejection + ws_frame list \<times> (service_error + unit) option" where
  "test_handshake auth_token header =
     handle_connection (\<lambda>m. []) Inl (\<lambda>k. None) (test_registry None) auth_token header None []"

definition connects_fine_with_no_auth_configured_and_no_header_sent :: bool where
  "connects_fine_with_no_auth_configured_and_no_header_sent \<longleftrightarrow> \<not> is_err (test_handshake None None)"

definition rejects_connection_with_missing_bearer_token :: bool where
  "rejects_connection_with_missing_bearer_token \<longleftrightarrow> is_err (test_handshake (Some (str_of ''secret-token'')) None)"

definition rejects_connection_with_wrong_bearer_token :: bool where
  "rejects_connection_with_wrong_bearer_token \<longleftrightarrow>
     is_err (test_handshake (Some (str_of ''secret-token'')) (Some (str_of ''Bearer wrong-token'')))"

definition accepts_connection_with_correct_bearer_token :: bool where
  "accepts_connection_with_correct_bearer_token \<longleftrightarrow>
     \<not> is_err (test_handshake (Some (str_of ''secret-token'')) (Some (str_of ''Bearer secret-token'')))"

definition stops_accepting_new_connections_after_shutdown_signal :: "'peer \<Rightarrow> 'peer \<Rightarrow> bool" where
  "stops_accepting_new_connections_after_shutdown_signal first later \<longleftrightarrow>
     server_run (Inr ()) [Accepted first, Shutdown_Changed, Accepted later] = ([first], Some (Inr ()))"

lemma server_tests:
  "subscribes_and_receives_broadcast_reading json" "catches_up_new_subscriber_with_last_message json"
  "unknown_stream_gets_an_error_and_disconnect json" "connects_fine_with_no_auth_configured_and_no_header_sent"
  "rejects_connection_with_missing_bearer_token" "rejects_connection_with_wrong_bearer_token"
  "accepts_connection_with_correct_bearer_token"
  "stops_accepting_new_connections_after_shutdown_signal first later"
proof -
  have k: "stream_key (str_of ''binance'') (str_of ''DOGEUSDT'') \<noteq> stream_key (str_of ''binance'') (str_of ''BTCUSDT'')"
    by (simp add: stream_key_def str_of_def ascii_lower_def ascii_upper_def)
  note t = test_session_def handle_connection_def test_registry_def check_auth_def Let_def ws_send_def StreamEntry_new_def
  show "subscribes_and_receives_broadcast_reading json" "catches_up_new_subscriber_with_last_message json"
    by (simp_all add: subscribes_and_receives_broadcast_reading_def catches_up_new_subscriber_with_last_message_def t)
  show "unknown_stream_gets_an_error_and_disconnect json"
    using k by (auto simp: unknown_stream_gets_an_error_and_disconnect_def t)
  show connects_fine_with_no_auth_configured_and_no_header_sent rejects_connection_with_missing_bearer_token
    rejects_connection_with_wrong_bearer_token accepts_connection_with_correct_bearer_token
    by (simp_all add: connects_fine_with_no_auth_configured_and_no_header_sent_def
        rejects_connection_with_missing_bearer_token_def rejects_connection_with_wrong_bearer_token_def
        accepts_connection_with_correct_bearer_token_def test_handshake_def handle_connection_def check_auth_def Let_def
        strip_prefix_def starts_with_def str_of_def)
  show "stops_accepting_new_connections_after_shutdown_signal first later"
    by (simp add: stops_accepting_new_connections_after_shutdown_signal_def server_run_def)
qed

subsection \<open>\<open>worker.rs\<close>\<close>

definition test_engine_cfg :: vpin_engine_config where
  "test_engine_cfg = \<lparr>vc_bucket_volume = f64_of_nat 10, vc_sigma_window = 3, vc_vpin_window = 3, vc_cdf_window = None,
     vc_confidence_interval = None\<rparr>"

definition heartbeat_fires_even_with_no_trades :: "(f64 \<Rightarrow> f64) \<Rightarrow> ('p, 'q, 's) feedhandler \<Rightarrow> u64 \<Rightarrow> u64 \<Rightarrow> bool" where
  "heartbeat_fires_even_with_no_trades erf fh t1 t2 \<longleftrightarrow>
     (case worker_run erf fh (str_of ''bybit'') (str_of ''ETHUSDT'') test_engine_cfg (millis 30)
        (StreamEntry_new (str_of ''bybit'') (str_of ''ETHUSDT'')) [HeartbeatTick t1, HeartbeatTick t2] of
        None \<Rightarrow> False
      | Some entry \<Rightarrow> se_sender entry = [Heartbeat t1, Heartbeat t2] \<and> sh_last_heartbeat_ts_ns (se_health entry) \<noteq> None)"

definition worker_exits_when_trade_channel_closes :: "(f64 \<Rightarrow> f64) \<Rightarrow> ('p, 'q, 's) feedhandler \<Rightarrow> bool" where
  "worker_exits_when_trade_channel_closes erf fh \<longleftrightarrow>
     (case worker_run erf fh (str_of ''hyperliquid'') (str_of ''BTC'') test_engine_cfg (secs 3600)
        (StreamEntry_new (str_of ''hyperliquid'') (str_of ''BTC'')) [ChannelClosed] of
        None \<Rightarrow> False | Some entry \<Rightarrow> \<not> sh_worker_alive (se_health entry))"

lemma worker_tests: "heartbeat_fires_even_with_no_trades erf fh t1 t2" "worker_exits_when_trade_channel_closes erf fh"
proof -
  have "config_ok test_engine_cfg" by (simp add: config_ok_def test_engine_cfg_def f64_of_nat_finite f64_of_nat_pos)
  then have "VpinEngine_new test_engine_cfg = Inr (fresh_engine test_engine_cfg)" by (simp add: VpinEngine_new_Inr)
  then show "heartbeat_fires_even_with_no_trades erf fh t1 t2" "worker_exits_when_trade_channel_closes erf fh"
    by (simp_all add: heartbeat_fires_even_with_no_trades_def worker_exits_when_trade_channel_closes_def worker_run_def
        worker_start_def worker_heartbeat_def update_health_def publish_def broadcast_send_def record_last_def StreamEntry_new_def)
qed

subsection \<open>\<open>health.rs\<close>\<close>

definition health_registry :: "(str \<times> stream_entry) list" where
  "health_registry =
     [(str_of ''binance:BTCUSDT'', (StreamEntry_new (str_of ''binance'') (str_of ''BTCUSDT''))\<lparr>se_health :=
        \<lparr>sh_trades_processed = 42, sh_readings_emitted = 3, sh_last_trade_ts_ns = Some 1700000000000000000,
         sh_last_heartbeat_ts_ns = Some 1700000000500000000, sh_worker_alive = True\<rparr>\<rparr>),
      (str_of ''bybit:ETHUSDT'', StreamEntry_new (str_of ''bybit'') (str_of ''ETHUSDT''))]"

text \<open>\<open>value["field"]\<close>\<close>

fun json_get :: "json \<Rightarrow> str \<Rightarrow> json" where
  "json_get (JObject kvs) name = (case map_of kvs name of None \<Rightarrow> JNull | Some v \<Rightarrow> v)"
| "json_get _ name = JNull"

definition render_health_reports_status_and_per_stream_counters :: bool where
  "render_health_reports_status_and_per_stream_counters \<longleftrightarrow>
     (let v = render_health health_registry; streams = json_get v (str_of ''streams'')
      in json_get v (str_of ''status'') = JString (str_of ''ok'') \<and> json_get v (str_of ''stream_count'') = JCount 2 \<and>
         json_get (json_get streams (str_of ''binance:BTCUSDT'')) (str_of ''alive'') = JBool True \<and>
         json_get (json_get streams (str_of ''binance:BTCUSDT'')) (str_of ''trades_processed'') = JNumber 42 \<and>
         json_get (json_get streams (str_of ''bybit:ETHUSDT'')) (str_of ''alive'') = JBool False)"

lemma health_tests: "render_health_reports_status_and_per_stream_counters"
  by (simp add: render_health_reports_status_and_per_stream_counters_def render_health_def health_registry_def
      StreamEntry_new_def StreamHealth_default_def str_of_def Let_def)

subsection \<open>\<open>crates/toxicity-client-rs\<close>\<close>

definition is_live_only_true_for_live :: bool where
  "is_live_only_true_for_live \<longleftrightarrow> is_live (Live (f64_of_dec 1 1) None 5) \<and> \<not> is_live (Warming 0) \<and>
     \<not> is_live Connecting \<and> \<not> is_live Stale"

definition is_stale_only_true_for_stale_not_connecting :: bool where
  "is_stale_only_true_for_stale_not_connecting \<longleftrightarrow> is_stale Stale \<and> \<not> is_stale Connecting \<and> \<not> is_stale (Warming 0)"

text \<open>A client of the fake server, which sends the given messages, one a nanosecond, and then does the rest.\<close>

definition test_client :: "(server_message \<Rightarrow> str) \<Rightarrow> (str \<Rightarrow> str + server_message) \<Rightarrow> str \<Rightarrow> str \<Rightarrow> duration \<Rightarrow>
    server_message list \<Rightarrow> (nat \<times> client_event) list \<Rightarrow> toxicity_state" where
  "test_client json parse exch symbol stale_after msgs rest =
     cl_state (snd (client_run parse (\<lambda>sub. []) exch symbol stale_after
       [\<lparr>cs_connect_error = None, cs_subscribe_error = None, cs_started_at = 0,
         cs_events = map (\<lambda>(k, m). (k, Client_Frame (TextFrame (json m)) None)) (enumerate 1 msgs) @ rest\<rparr>]
       (tc_task (ToxicityClient_connect BackoffConfig_default))))"

definition binance_client :: "(server_message \<Rightarrow> str) \<Rightarrow> (str \<Rightarrow> str + server_message) \<Rightarrow> server_message list \<Rightarrow> toxicity_state" where
  "binance_client json parse msgs = test_client json parse (str_of ''binance'') (str_of ''BTCUSDT'') (secs 30) msgs []"

definition goes_from_connecting_to_live_on_a_reading :: "(server_message \<Rightarrow> str) \<Rightarrow> (str \<Rightarrow> str + server_message) \<Rightarrow> bool" where
  "goes_from_connecting_to_live_on_a_reading json parse \<longleftrightarrow>
     ToxicityClient_state (ToxicityClient_connect BackoffConfig_default) = Connecting \<and>
     binance_client json parse [test_reading 1 0 12 (Some (f64_of_dec 42 2)) (Some (f64_of_dec 9 1))] =
       Live (f64_of_dec 42 2) (Some (f64_of_dec 9 1)) 12"

definition warmup_reading_maps_to_warming_not_live :: "(server_message \<Rightarrow> str) \<Rightarrow> (str \<Rightarrow> str + server_message) \<Rightarrow> bool" where
  "warmup_reading_maps_to_warming_not_live json parse \<longleftrightarrow>
     (let state = test_client json parse (str_of ''bybit'') (str_of ''ETHUSDT'') (secs 30)
            [Reading (str_of ''bybit'') (str_of ''ETHUSDT'') 0 0 3 None None] []
      in state = Warming 3 \<and> \<not> is_live state)"

text \<open>Once the server is silent, the client finds out by its own check, or because the connection ends or
  fails: the test does not say which comes first.\<close>

definition goes_stale_when_messages_stop_arriving :: "(server_message \<Rightarrow> str) \<Rightarrow> (str \<Rightarrow> str + server_message) \<Rightarrow> str \<Rightarrow> bool" where
  "goes_stale_when_messages_stop_arriving json parse e \<longleftrightarrow>
     (let client = test_client json parse (str_of ''hyperliquid'') (str_of ''BTC'') (millis 100) [Heartbeat 0]
      in client [] \<noteq> Connecting \<and>
         (\<forall>rest \<in> {[(millis 50, Staleness_Tick), (millis 150, Staleness_Tick)], [(2, Client_End)], [(2, Client_Error e)]}.
            is_stale (client rest)))"

definition heartbeat_does_not_downgrade_an_existing_live_reading :: "(server_message \<Rightarrow> str) \<Rightarrow>
    (str \<Rightarrow> str + server_message) \<Rightarrow> bool" where
  "heartbeat_does_not_downgrade_an_existing_live_reading json parse \<longleftrightarrow>
     (let reading = test_reading 1 0 5 (Some (f64_of_dec 7 1)) (Some (f64_of_dec 95 2))
      in is_live (binance_client json parse [reading]) \<and>
         binance_client json parse [reading, Heartbeat 1] = Live (f64_of_dec 7 1) (Some (f64_of_dec 95 2)) 5)"

definition dropping_the_client_ends_the_background_task :: bool where
  "dropping_the_client_ends_the_background_task \<longleftrightarrow>
     tc_aborted (ToxicityClient_drop (ToxicityClient_connect BackoffConfig_default))"

lemma client_tests:
  assumes "\<And>m. parse (json m) = Inr m"
  shows "is_live_only_true_for_live" "is_stale_only_true_for_stale_not_connecting"
    "goes_from_connecting_to_live_on_a_reading json parse" "warmup_reading_maps_to_warming_not_live json parse"
    "goes_stale_when_messages_stop_arriving json parse e" "heartbeat_does_not_downgrade_an_existing_live_reading json parse"
    "dropping_the_client_ends_the_background_task"
proof -
  note t = test_client_def binance_client_def client_run_once_def Let_def ToxicityClient_connect_def ToxicityClient_state_def client_connect_def
    handle_message_def assms test_reading_def
  show is_live_only_true_for_live is_stale_only_true_for_stale_not_connecting dropping_the_client_ends_the_background_task
    by (simp_all add: is_live_only_true_for_live_def is_stale_only_true_for_stale_not_connecting_def is_stale_def
        dropping_the_client_ends_the_background_task_def ToxicityClient_drop_def)
  show "goes_from_connecting_to_live_on_a_reading json parse" "warmup_reading_maps_to_warming_not_live json parse"
    "goes_stale_when_messages_stop_arriving json parse e" "heartbeat_does_not_downgrade_an_existing_live_reading json parse"
    by (simp_all add: goes_from_connecting_to_live_on_a_reading_def warmup_reading_maps_to_warming_not_live_def
        goes_stale_when_messages_stop_arriving_def heartbeat_does_not_downgrade_an_existing_live_reading_def is_stale_def t
        split_beta)
qed

end
