(* ===== verification/Tests_Worker.thy ===== *)
theory Tests_Worker
  imports Tests_Warmup Tests_Service
begin

text \<open>
  The test of \<open>services/toxicity-service/src/worker.rs\<close> that runs a worker over a zigzag of a hundred trades until
  it broadcasts values. Its prices go through fixed point: \<open>(price * 1e8) as u64\<close>, and back in the worker.
\<close>

subsection \<open>The test\<close>

definition to_fixed8 :: "f64 \<Rightarrow> u64" where
  "to_fixed8 x = of_nat (f64_to_usize (f64_mul x (f64_of_nat 100000000)))"

definition test_worker_trade :: "('p, 'q, 's) feedhandler \<Rightarrow> f64 \<Rightarrow> f64 \<Rightarrow> u64 \<Rightarrow> u64 \<Rightarrow> ('p, 'q, 's) normalized_trade" where
  "test_worker_trade fh price qty ts_ns seq = \<lparr>nt_price = price_new fh (to_fixed8 price), nt_qty = qty_new fh (to_fixed8 qty),
     nt_ts_exchange_ns = ts_ns, nt_ts_recv_ns = ts_ns, nt_symbol = symbol_from_bytes fh (map of_nat (str_of ''BTCUSDT'')),
     nt_exchange = Binance, nt_taker_side = Buy, nt_sequence = seq\<rparr>"

definition worker_tick :: "f64 \<Rightarrow> nat \<Rightarrow> f64" where
  "worker_tick price i = f64_add price (if i mod 2 = 0 then f64_of_dec 7 1 else f64_neg (f64_of_dec 4 1))"

definition worker_price :: "nat \<Rightarrow> f64" where
  "worker_price i = foldl worker_tick (f64_of_nat 100) [0..<Suc i]"

fun value_seen :: "server_message \<Rightarrow> bool" where
  "value_seen (Reading exch symbol bucket_id ts trades_in_bucket vpin cdf) \<longleftrightarrow> vpin \<noteq> None"
| "value_seen _ \<longleftrightarrow> False"

fun trades_seen :: "server_message \<Rightarrow> bool" where
  "trades_seen (Reading exch symbol bucket_id ts trades_in_bucket vpin cdf) \<longleftrightarrow> 0 < trades_in_bucket"
| "trades_seen _ \<longleftrightarrow> True"

text \<open>The heartbeat interval is an hour, so the worker sees the trades and then the closed channel; the test
  looks at the first hundred messages.\<close>

definition emits_readings_and_heartbeats :: "(f64 \<Rightarrow> f64) \<Rightarrow> ('p, 'q, 's) feedhandler \<Rightarrow> bool" where
  "emits_readings_and_heartbeats erf fh \<longleftrightarrow>
     (case worker_run erf fh (str_of ''binance'') (str_of ''BTCUSDT'') test_engine_cfg (secs 3600)
        (StreamEntry_new (str_of ''binance'') (str_of ''BTCUSDT''))
        (map (\<lambda>i. TradeReceived (test_worker_trade fh (worker_price i) (f64_of_nat 10) (of_nat i) (of_nat i))) [0..<100] @ [ChannelClosed])
      of None \<Rightarrow> False
      | Some entry \<Rightarrow> (\<forall>m \<in> set (take 100 (se_sender entry)). trades_seen m) \<and>
          (\<exists>m \<in> set (take 100 (se_sender entry)). value_seen m) \<and>
          \<not> sh_worker_alive (se_health entry) \<and> sh_trades_processed (se_health entry) = 100 \<and>
          0 < sh_readings_emitted (se_health entry) \<and> sh_last_trade_ts_ns (se_health entry) \<noteq> None \<and>
          se_last_message entry \<noteq> None)"

subsection \<open>Fixed point and back\<close>

abbreviation worker_step :: "nat \<Rightarrow> f64" where
  "worker_step \<equiv> alternating (f64_of_dec 7 1) (f64_of_dec 4 1)"

lemma worker_step_sizes:
  "f64_is_finite (f64_of_dec 7 1) \<and> uval (f64_of_dec 7 1) \<le> 2 ^ 1074 \<and> 2 ^ 1073 \<le> uval (f64_of_dec 7 1)"
  "f64_is_finite (f64_of_dec 4 1) \<and> uval (f64_of_dec 4 1) \<le> 2 ^ 1073 \<and> 0 \<le> uval (f64_of_dec 4 1)"
  by (simp_all add: f64_of_dec_def rnd_mag_def rnd_index_def rnd_at_def fit_exp_def rne_def round_quotient_def
      compute_floorlog munits_def sig_of_def exp_of_def inf_mag_def)

lemma worker_steps: "steps_ok worker_step" "3 \<le> w \<Longrightarrow> varied w worker_step"
  using worker_step_sizes by (auto intro!: alternating_steps)

lemma worker_price_zig: "worker_price i = zig worker_step i"
proof -
  have "worker_tick p i = f64_add p (worker_step i)" for p i by (simp add: worker_tick_def alternating_def)
  then show ?thesis unfolding worker_price_def zig_def foldl_map by presburger
qed

text \<open>The zigzag stays above its start, up to its rounding errors: each rise is at least the fall after it.\<close>

lemma zig_step_close:
  assumes "steps_ok s" "Suc i \<le> 900"
  shows "real_of_int (uval (zig s i)) + real_of_int (uval (s (Suc i))) - 2 ^ 1034 \<le> real_of_int (uval (zig s (Suc i)))"
proof -
  have i: "i \<le> 900" using assms(2) by simp
  note z = zig_bounds [OF assms(1) i]
  have s: "f64_is_finite (s (Suc i))" "\<bar>real_of_int (uval (s (Suc i)))\<bar> \<le> 2 ^ 1074"
    using assms(1) abs_int_le [of "uval (s (Suc i))" "2 ^ 1074"] by (simp_all add: steps_ok_def)
  have "(2::real) ^ 1084 + 2 ^ 1074 \<le> 2 ^ 1086" by simp
  then have "\<bar>real_of_int (uval (zig s i) + uval (s (Suc i)))\<bar> \<le> 2 ^ 1086" using z(2) s(2) unfolding of_int_add by linarith
  from rounded_close [OF f64_add_rounded [OF z(1) s(1)] this] show ?thesis unfolding zig_Suc of_int_add by linarith
qed

lemma zig_above:
  assumes "steps_ok (alternating up down)" "0 \<le> uval down" "uval down \<le> uval up"
  shows "i \<le> 900 \<Longrightarrow> 100 * 2 ^ 1074 - real (Suc i) * 2 ^ 1034 + real_of_int (if i mod 2 = 0 then uval up else uval up - uval down)
    \<le> real_of_int (uval (zig (alternating up down) i))"
proof (induction i)
  case 0
  let ?h = "f64_of_nat 100"
  have h: "f64_is_finite ?h" "uval ?h = 100 * 2 ^ 1074" by (simp_all add: whole_finite uval_f64_of_nat)
  have u: "f64_is_finite up" "\<bar>real_of_int (uval up)\<bar> \<le> 2 ^ 1074"
    using assms(1) abs_int_le [of "uval up" "2 ^ 1074"] by (auto simp: steps_ok_def alternating_def dest: spec [of _ 0])
  have e: "real_of_int (100 * 2 ^ 1074) = 100 * 2 ^ 1074" "(100::real) * 2 ^ 1074 + 2 ^ 1074 \<le> 2 ^ 1086" by simp_all
  have "\<bar>real_of_int (uval ?h + uval up)\<bar> \<le> 2 ^ 1086" using u(2) e unfolding h(2) of_int_add by linarith
  from rounded_close [OF f64_add_rounded [OF h(1) u(1)] this] show ?case
    using e(1) unfolding of_int_add h(2) by (simp add: zig_def alternating_def)
next
  case (Suc i)
  let ?s = "alternating up down"
  have d: "real_of_int (uval down) \<le> real_of_int (uval up)" "0 \<le> real_of_int (uval down)" using assms(2,3) by simp_all
  have e: "real (Suc (Suc i)) * 2 ^ 1034 = real (Suc i) * 2 ^ 1034 + 2 ^ 1034" by (simp only: of_nat_Suc distrib_right)
  have z: "real_of_int (uval (zig ?s i)) + real_of_int (uval (?s (Suc i))) - 2 ^ 1034 \<le> real_of_int (uval (zig ?s (Suc i)))"
    by (rule zig_step_close [OF assms(1) Suc.prems])
  note ih = Suc.IH [OF Suc_leD [OF Suc.prems]]
  show ?case
  proof (cases "i mod 2 = 0")
    case True
    then have "uval (?s (Suc i)) = - uval down" "Suc i mod 2 \<noteq> 0" by (simp_all add: alternating_def mod_Suc)
    then show ?thesis using ih z d True unfolding e of_int_diff by simp
  next
    case False
    then have "uval (?s (Suc i)) = uval up" "Suc i mod 2 = 0" by (simp_all add: alternating_def mod_Suc)
    then show ?thesis using ih z d False unfolding e of_int_diff by simp
  qed
qed

text \<open>The cast reads the integer part.\<close>

lemma cast_part:
  assumes "f64_is_finite y" "0 \<le> uval y" "real_of_int (uval y) < 2 ^ 64 * 2 ^ 1074"
  shows "real (f64_to_usize y) * 2 ^ 1074 \<le> real_of_int (uval y)"
    and "real_of_int (uval y) < real (f64_to_usize y) * 2 ^ 1074 + 2 ^ 1074" "f64_to_usize y < 2 ^ 64"
proof -
  obtain t m where y: "y = Num t m" using assms(1) by (cases y) simp_all
  have v: "real_of_int (uval y) = real (munits m)" and t: "t \<Longrightarrow> munits m = 0"
    using assms(2) by (cases t; simp add: y)+
  have d: "munits m div 2 ^ 1074 < 2 ^ 64"
  proof -
    have "real (munits m) < real (2 ^ 64 * 2 ^ 1074)" using assms(3) unfolding v by simp
    then have "munits m < 2 ^ 64 * 2 ^ 1074" by (simp only: of_nat_less_iff)
    then show ?thesis by (intro less_mult_imp_div_less)
  qed
  have m: "m < inf_mag" using assms(1) y by simp
  have "f64_to_usize y = munits m div 2 ^ 1074"
  proof (cases t)
    case False
    have "munits m div 2 ^ 1074 \<le> 2 ^ 64 - 1" using d by linarith
    then show ?thesis using m False unfolding y f64_to_usize.simps int_part_munits by (simp only: if_False not_le [symmetric] min_absorb2)
  qed (simp add: y t)
  moreover have "munits m div 2 ^ 1074 * 2 ^ 1074 \<le> munits m" "munits m < munits m div 2 ^ 1074 * 2 ^ 1074 + 2 ^ 1074"
    using div_times_less_eq_dividend dividend_less_div_times by simp_all
  then have "real (munits m div 2 ^ 1074 * 2 ^ 1074) \<le> real (munits m)"
    "real (munits m) < real (munits m div 2 ^ 1074 * 2 ^ 1074 + 2 ^ 1074)" by (simp_all only: of_nat_le_iff of_nat_less_iff)
  ultimately show "real (f64_to_usize y) * 2 ^ 1074 \<le> real_of_int (uval y)"
    "real_of_int (uval y) < real (f64_to_usize y) * 2 ^ 1074 + 2 ^ 1074" "f64_to_usize y < 2 ^ 64"
    using d unfolding v by simp_all
qed

lemma scaled_price:
  assumes "f64_is_finite x" "0 \<le> real_of_int (uval x)" "real_of_int (uval x) \<le> 2 ^ 1084"
  defines "y \<equiv> f64_mul x (f64_of_nat 100000000)"
  shows "f64_is_finite y" "0 \<le> uval y" "\<bar>real_of_int (uval y) - real_of_int (uval x) * 100000000\<bar> \<le> 2 ^ 1059"
proof -
  let ?h = "f64_of_nat 100000000"
  have h: "f64_is_finite ?h" "uval ?h = 100000000 * 2 ^ 1074" by (simp_all add: whole_finite uval_f64_of_nat)
  have "real_of_int (uval x) * uval ?h / one_units = real_of_int (uval x) * 100000000"
    unfolding h(2) one_units_def by simp
  then have r: "rounded (real_of_int (uval x) * 100000000) y"
    using f64_mul_rounded [OF assms(1) h(1)] unfolding y_def by simp
  have "(2::real) ^ 1084 * 100000000 \<le> 2 ^ 1111" by simp
  then have b: "real_of_int (uval x) * 100000000 \<le> 2 ^ (1059 + 52)" using assms(3) by simp
  have n: "0 \<le> real_of_int (uval x) * 100000000" using assms(2) by simp
  show "\<bar>real_of_int (uval y) - real_of_int (uval x) * 100000000\<bar> \<le> 2 ^ 1059"
    by (rule rounded_close_nonneg [OF r n b]) simp
  have "\<bar>real_of_int (uval x) * 100000000\<bar> \<le> real (1 * 2 ^ 1111)" using b n by simp
  from rounded_within [OF r this] show f: "f64_is_finite y" by simp
  show "0 \<le> uval y" using le_rounded [OF finite_zero _ r] n f64_le_zero_uval [OF f] by simp
qed

lemma fixed8_close:
  assumes "f64_is_finite x" "0 \<le> real_of_int (uval x)" "real_of_int (uval x) \<le> 2 ^ 1084"
  shows "f64_is_finite (fixed8_to_f64 (to_fixed8 x))"
    "\<bar>real_of_int (uval (fixed8_to_f64 (to_fixed8 x))) - real_of_int (uval x)\<bar> \<le> 2 ^ 1050"
proof -
  let ?y = "f64_mul x (f64_of_nat 100000000)" and ?h = "f64_of_nat 100000000"
  define k where "k = f64_to_usize ?y"
  note y = scaled_price [OF assms]
  have e: "(2::real) ^ 1084 * 100000000 + 2 ^ 1059 < 2 ^ 1112" "(2::real) ^ 1112 \<le> 2 ^ 64 * 2 ^ 1074"
    "(2::real) ^ 1059 + 2 ^ 1074 \<le> 2 ^ 1049 * 100000000" "(2::real) ^ 1034 + 2 ^ 1049 \<le> 2 ^ 1050"
    "(2::real) ^ 1084 + 2 ^ 1049 \<le> 2 ^ 1086" by simp_all
  have "real_of_int (uval ?y) < 2 ^ 1112" using y(3) assms(3) e(1) by linarith
  then have "real_of_int (uval ?y) < 2 ^ 64 * 2 ^ 1074" using e(2) by linarith
  note c = cast_part [OF y(1,2) this, folded k_def]
  define q where "q = real k * 2 ^ 1074 / 100000000"
  have "\<bar>real k * 2 ^ 1074 - real_of_int (uval x) * 100000000\<bar> \<le> 2 ^ 1049 * 100000000"
    using c(1,2) y(3) e(3) by linarith
  moreover have "real k * 2 ^ 1074 = q * 100000000" by (simp add: q_def)
  ultimately have q: "\<bar>q - real_of_int (uval x)\<bar> \<le> 2 ^ 1049" by linarith
  have u: "unat (to_fixed8 x) = k" using c(3) by (simp add: to_fixed8_def k_def [symmetric] unat_of_nat take_bit_nat_eq_self)
  have "real k * 2 ^ 1074 < 2 ^ 53 * 2 ^ 1074"
    using c(1) \<open>real_of_int (uval ?y) < 2 ^ 1112\<close> by (rule order_trans_rules(21) [OF _ less_le_trans]) simp
  then have "real k < real (2 ^ 53)" by simp
  then have kb: "k \<le> 2 ^ 53" by (simp only: of_nat_less_iff less_imp_le)
  have h: "f64_is_finite ?h" "uval ?h = 100000000 * 2 ^ 1074" by (simp_all add: whole_finite uval_f64_of_nat)
  have "real_of_int (uval (f64_of_nat k)) / uval ?h * one_units = q"
    unfolding h(2) one_units_def uval_f64_of_nat [OF kb] q_def by simp
  then have r: "rounded q (fixed8_to_f64 (to_fixed8 x))"
    using f64_div_rounded [OF whole_finite [OF kb] h(1)] h(2) unfolding fixed8_to_f64_def u by simp
  have l: "\<bar>q\<bar> \<le> 2 ^ 1086" using q assms(2,3) e(5) by linarith
  show "f64_is_finite (fixed8_to_f64 (to_fixed8 x))" using rounded_within [OF r, of 1 1086] l by simp
  show "\<bar>real_of_int (uval (fixed8_to_f64 (to_fixed8 x))) - real_of_int (uval x)\<bar> \<le> 2 ^ 1050"
    using rounded_close [OF r l] q e(4) by linarith
qed

subsection \<open>The test holds\<close>

definition worker_sent :: "nat \<Rightarrow> f64" where
  "worker_sent i = fixed8_to_f64 (to_fixed8 (worker_price i))"

lemma worker_sent_follows: "follows worker_step worker_sent"
  unfolding follows_def
proof (intro allI impI)
  fix i :: nat assume i: "i \<le> 900"
  note z = zig_bounds [OF worker_steps(1) i]
  have d: "0 \<le> uval (f64_of_dec 4 1)" "uval (f64_of_dec 4 1) \<le> uval (f64_of_dec 7 1)" using worker_step_sizes by simp_all
  have "real (Suc i) * 2 ^ 1034 \<le> 901 * 2 ^ 1034" using i by (intro mult_right_mono) simp_all
  moreover have "901 * 2 ^ 1034 \<le> (100::real) * 2 ^ 1074" by simp
  moreover have "0 \<le> real_of_int (if i mod 2 = 0 then uval (f64_of_dec 7 1) else uval (f64_of_dec 7 1) - uval (f64_of_dec 4 1))"
    unfolding of_int_0_le_iff using d by (cases "i mod 2 = 0") simp_all
  ultimately have "0 \<le> real_of_int (uval (zig worker_step i))" using zig_above [OF worker_steps(1) d i] by linarith
  from fixed8_close [OF z(1) this] z(2) show "f64_is_finite (worker_sent i) \<and>
      \<bar>real_of_int (uval (worker_sent i)) - real_of_int (uval (zig worker_step i))\<bar> \<le> 2 ^ 1050"
    unfolding worker_sent_def worker_price_zig by (simp only: abs_le_iff simp_thms)
qed

lemma ten_units: "fixed8_to_f64 (to_fixed8 (f64_of_nat 10)) = f64_of_nat 10"
proof -
  have "f64_mul (f64_of_nat 10) (f64_of_nat 100000000) = f64_of_nat 1000000000" using whole_mul [of 10 100000000] by simp
  moreover have "f64_to_usize (f64_of_nat 1000000000) = 1000000000"
  proof -
    have u: "uval (f64_of_nat 1000000000) = 1000000000 * 2 ^ 1074" "f64_is_finite (f64_of_nat 1000000000)"
      by (simp_all add: whole_finite uval_f64_of_nat)
    have e: "real_of_int (1000000000 * 2 ^ 1074) = 1000000000 * 2 ^ 1074" "(0::int) \<le> 1000000000 * 2 ^ 1074"
      "(1000000000::real) * 2 ^ 1074 < 2 ^ 64 * 2 ^ 1074" by simp_all
    from cast_part(1,2) [OF u(2)] show ?thesis unfolding u(1) e(1) using e(2,3) by simp
  qed
  ultimately have "to_fixed8 (f64_of_nat 10) = 1000000000" by (simp add: to_fixed8_def)
  then show ?thesis using whole_div [of 10 100000000] by (simp add: fixed8_to_f64_def)
qed

lemma live_trades: "live (map (\<lambda>i. TradeReceived (f i)) xs @ [ChannelClosed]) = map (\<lambda>i. TradeReceived (f i)) xs"
  by (induction xs) simp_all

lemma tape_of_sent:
  assumes "feedhandler_laws fh"
  shows "tape_of fh (map (\<lambda>i. TradeReceived (test_worker_trade fh (worker_price i) (f64_of_nat 10) (of_nat i) (of_nat i))) xs) =
    map (\<lambda>i. (worker_sent i, f64_of_nat 10, of_nat i)) xs"
  using assms ten_units by (induction xs) (simp_all add: test_worker_trade_def worker_sent_def feedhandler_laws_def)

lemma ticks_of_trades: "ticks_of (map (\<lambda>i. TradeReceived (f i)) xs) = []"
  by (induction xs) simp_all

lemma filter_all: "filter (Not \<circ> P) xs = [] \<Longrightarrow> filter P xs = xs"
  by (induction xs) (simp_all split: if_splits)

lemma worker_sends:
  assumes "erf_range erf" "feedhandler_laws fh"
  defines "evs \<equiv> map (\<lambda>i. TradeReceived (test_worker_trade fh (worker_price i) (f64_of_nat 10) (of_nat i) (of_nat i))) [0..<100] @ [ChannelClosed]"
  shows "\<exists>entry e' rs. worker_run erf fh exch symbol test_engine_cfg (secs 3600) (StreamEntry_new exch symbol) evs = Some entry \<and>
    engine_run erf (fresh_engine test_engine_cfg) (zig_tape worker_sent of_nat 100) = Some (e', rs) \<and>
    se_sender entry = map (reading_message exch symbol) rs \<and> se_last_message entry = last_or None (se_sender entry) \<and>
    sh_trades_processed (se_health entry) = 100 \<and> sh_readings_emitted (se_health entry) = of_nat (length rs) \<and>
    sh_last_trade_ts_ns (se_health entry) = Some 99 \<and> \<not> sh_worker_alive (se_health entry)"
proof -
  have ok: "config_ok test_engine_cfg" "config_bounded test_engine_cfg"
    by (simp_all add: config_ok_def config_bounded_def test_engine_cfg_def whole_finite f64_of_nat_pos capped_def uval_f64_of_nat)
  have new: "VpinEngine_new test_engine_cfg = Inr (fresh_engine test_engine_cfg)" using ok(1) by (simp add: VpinEngine_new_Inr)
  have l: "live evs = map (\<lambda>i. TradeReceived (test_worker_trade fh (worker_price i) (f64_of_nat 10) (of_nat i) (of_nat i))) [0..<100]"
    unfolding evs_def by (rule live_trades)
  have tape: "tape_of fh (live evs) = zig_tape worker_sent of_nat 100" "ticks_of (live evs) = []" "live evs \<noteq> evs"
    unfolding l tape_of_sent [OF assms(2)] zig_tape_def ticks_of_trades by (rule refl)+ (simp add: evs_def)
  obtain entry where w: "worker_run erf fh exch symbol test_engine_cfg (secs 3600) (StreamEntry_new exch symbol) evs = Some entry"
    using worker_run_safe [OF assms(1) new ok(2), of "secs 3600" fh exch symbol evs] by auto
  then have "worker_loop erf fh exch symbol (fresh_engine test_engine_cfg)
      (update_health (\<lambda>h. h\<lparr>sh_worker_alive := True\<rparr>) (StreamEntry_new exch symbol)) evs = Some entry"
    by (simp add: worker_run_def worker_start_def new)
  from worker_loop_spec [OF this] obtain e' rs where
    r: "engine_run erf (fresh_engine test_engine_cfg) (zig_tape worker_sent of_nat 100) = Some (e', rs)"
    and p: "published exch symbol [] (zig_tape worker_sent of_nat 100) rs (live evs = evs)
      (update_health (\<lambda>h. h\<lparr>sh_worker_alive := True\<rparr>) (StreamEntry_new exch symbol)) entry" unfolding tape(1,2) by blast
  have t: "length (zig_tape worker_sent of_nat 100) = 100" "last_or None (map (snd \<circ> snd) (zig_tape worker_sent of_nat 100)) = Some 99"
    by (simp_all add: zig_tape_def last_or_def last_map)
  have "filter is_reading (se_sender entry) = map (reading_message exch symbol) rs" "filter (Not \<circ> is_reading) (se_sender entry) = []"
    "se_last_message entry = last_or None (se_sender entry)"
    using p by (auto simp: published_def update_health_def StreamEntry_new_def)
  moreover from this have "se_sender entry = map (reading_message exch symbol) rs" using filter_all by metis
  ultimately show ?thesis using w r p t tape(3)
    by (auto simp: published_def update_health_def StreamEntry_new_def StreamHealth_default_def)
qed

lemma worker_replay_test:
  assumes "erf_range erf" "feedhandler_laws fh" shows "emits_readings_and_heartbeats erf fh"
proof -
  let ?b = "str_of ''binance''" and ?s = "str_of ''BTCUSDT''"
  have ok: "config_ok test_engine_cfg" "config_bounded test_engine_cfg" "vc_bucket_volume test_engine_cfg = f64_of_nat 10"
    "vc_sigma_window test_engine_cfg = 3" "vc_vpin_window test_engine_cfg = 3" "vc_confidence_interval test_engine_cfg = None"
    by (simp_all add: config_ok_def config_bounded_def test_engine_cfg_def whole_finite f64_of_nat_pos capped_def uval_f64_of_nat)
  obtain entry e1 rs1 where w: "worker_run erf fh ?b ?s test_engine_cfg (secs 3600) (StreamEntry_new ?b ?s)
      (map (\<lambda>i. TradeReceived (test_worker_trade fh (worker_price i) (f64_of_nat 10) (of_nat i) (of_nat i))) [0..<100] @ [ChannelClosed]) = Some entry"
    "engine_run erf (fresh_engine test_engine_cfg) (zig_tape worker_sent of_nat 100) = Some (e1, rs1)"
    "se_sender entry = map (reading_message ?b ?s) rs1" "se_last_message entry = last_or None (se_sender entry)"
    "sh_trades_processed (se_health entry) = 100" "sh_readings_emitted (se_health entry) = of_nat (length rs1)"
    "sh_last_trade_ts_ns (se_health entry) = Some 99" "\<not> sh_worker_alive (se_health entry)"
    using worker_sends [OF assms, of ?b ?s] by blast
  have v: "vc_sigma_window test_engine_cfg \<le> 2 ^ 52" "varied (vc_sigma_window test_engine_cfg) worker_step"
    using ok(4) worker_steps(2) by simp_all
  from zig_readings [OF assms(1) ok(1,2) v(1) ok(3) worker_steps(1) v(2) _ _ worker_sent_follows, of 100 of_nat]
  have r: "length rs1 = 100" "\<forall>r \<in> set rs1. vr_trades_in_bucket r = 1" "\<forall>i < 100. vr_vpin (rs1 ! i) \<noteq> None \<longleftrightarrow> 5 \<le> i"
    using ok(4-6) w(2) by auto
  obtain x where x: "x \<in> set rs1" "vr_vpin x \<noteq> None" using zig_gives_value [OF r(1,3)] by auto
  have "take 100 (se_sender entry) = map (reading_message ?b ?s) rs1" using w(3) r(1) by simp
  moreover have "\<forall>m \<in> set (map (reading_message ?b ?s) rs1). trades_seen m" using r(2) by (simp add: reading_message_def)
  moreover have "\<exists>m \<in> set (map (reading_message ?b ?s) rs1). value_seen m" using x by (auto simp: reading_message_def)
  moreover have "se_last_message entry \<noteq> None" using w(3,4) r(1) by (auto simp: last_or_def)
  ultimately show ?thesis unfolding emits_readings_and_heartbeats_def w(1) option.case using w(5-8) r(1) by simp
qed

end
