(* ===== verification/Tests_Tools.thy ===== *)
theory Tests_Tools
  imports Calibrate_Cli Capture_Tool Tests_Engine
begin

text \<open>
  The unit tests of \<open>tools/calibrate\<close> and \<open>tools/capture\<close>, translated assertion by assertion and proved of the
  model. The error function is a parameter, so the tests that need its values at other points than zero are
  left out.
\<close>

subsection \<open>\<open>tools/capture/src/main.rs\<close>\<close>

definition parses_valid_args_with_default_flush_every :: bool where
  "parses_valid_args_with_default_flush_every \<longleftrightarrow>
     (case capture_parse_args (map str_of [''binance'', ''BTCUSDT'', ''out.cap'']) of Inl e \<Rightarrow> False
      | Inr args \<Rightarrow> cg_exchange args = Binance \<and> cg_symbol args = str_of ''BTCUSDT'' \<and>
          cg_output args = str_of ''out.cap'' \<and> cg_flush_every args = 100)"

definition parses_flush_every_override :: bool where
  "parses_flush_every_override \<longleftrightarrow>
     (case capture_parse_args (map str_of [''bybit'', ''ETHUSDT'', ''out.cap'', ''--flush-every'', ''10'']) of Inl e \<Rightarrow> False
      | Inr args \<Rightarrow> cg_exchange args = Bybit \<and> cg_flush_every args = 10)"

definition exchange_names_are_case_insensitive :: bool where
  "exchange_names_are_case_insensitive \<longleftrightarrow>
     (case capture_parse_args (map str_of [''HyperLiquid'', ''BTC'', ''out.cap'']) of Inl e \<Rightarrow> False
      | Inr args \<Rightarrow> cg_exchange args = Hyperliquid)"

definition capture_rejects_unknown_exchange :: bool where
  "capture_rejects_unknown_exchange \<longleftrightarrow> is_err (capture_parse_args (map str_of [''okx'', ''BTCUSDT'', ''out.cap'']))"

definition rejects_missing_required_args :: bool where
  "rejects_missing_required_args \<longleftrightarrow> is_err (capture_parse_args []) \<and> is_err (capture_parse_args [str_of ''binance''])"

definition rejects_unknown_flag :: bool where
  "rejects_unknown_flag \<longleftrightarrow>
     is_err (capture_parse_args (map str_of [''binance'', ''BTCUSDT'', ''out.cap'', ''--bogus'', ''1'']))"

definition rejects_flag_missing_its_value :: bool where
  "rejects_flag_missing_its_value \<longleftrightarrow>
     is_err (capture_parse_args (map str_of [''binance'', ''BTCUSDT'', ''out.cap'', ''--flush-every'']))"

lemmas number_eval = parse_usize_def parse_u64_def strip_plus_def is_digit_def checked_mul_u64_def checked_add_u64_def

lemmas capture_args_eval = capture_parse_args_def capture_parse_exchange_def str_of_def ascii_lower_def number_eval

lemma capture_tool_tests:
  "parses_valid_args_with_default_flush_every" "parses_flush_every_override" "exchange_names_are_case_insensitive"
  "capture_rejects_unknown_exchange" "rejects_missing_required_args" "rejects_unknown_flag"
  "rejects_flag_missing_its_value"
  by (simp_all add: parses_valid_args_with_default_flush_every_def parses_flush_every_override_def
      exchange_names_are_case_insensitive_def capture_rejects_unknown_exchange_def rejects_missing_required_args_def
      rejects_unknown_flag_def rejects_flag_missing_its_value_def capture_args_eval)

subsection \<open>\<open>tools/calibrate/src/main.rs\<close>: arguments\<close>

definition parses_valid_args :: bool where
  "parses_valid_args \<longleftrightarrow>
     (case calib_parse_args (map str_of [''trades.cap'', ''--bucket-volumes'', ''10,25,50'', ''--sigma-windows'', ''20,50'',
         ''--vpin-windows'', ''30,60'', ''--cdf-window'', ''100'', ''--format'', ''csv'']) of Inl e \<Rightarrow> False
      | Inr args \<Rightarrow> ca_file args = str_of ''trades.cap'' \<and>
          ca_bucket_volumes args = [f64_of_nat 10, f64_of_nat 25, f64_of_nat 50] \<and>
          ca_sigma_windows args = [20, 50] \<and> ca_vpin_windows args = [30, 60] \<and> ca_cdf_window args = Some 100 \<and>
          ca_format args = Csv)"

definition cdf_window_and_format_are_optional_with_sane_defaults :: bool where
  "cdf_window_and_format_are_optional_with_sane_defaults \<longleftrightarrow>
     (case calib_parse_args (map str_of [''trades.cap'', ''--bucket-volumes'', ''10'', ''--sigma-windows'', ''20'',
         ''--vpin-windows'', ''20'']) of Inl e \<Rightarrow> False
      | Inr args \<Rightarrow> ca_cdf_window args = None \<and> ca_format args = Table)"

definition missing_required_flag_is_an_error :: bool where
  "missing_required_flag_is_an_error \<longleftrightarrow>
     is_err (calib_parse_args (map str_of [''trades.cap'', ''--sigma-windows'', ''20'', ''--vpin-windows'', ''20'']))"

definition missing_vpin_windows_is_an_error :: bool where
  "missing_vpin_windows_is_an_error \<longleftrightarrow>
     is_err (calib_parse_args (map str_of [''trades.cap'', ''--bucket-volumes'', ''10'', ''--sigma-windows'', ''20'']))"

definition unknown_flag_is_an_error :: bool where
  "unknown_flag_is_an_error \<longleftrightarrow> is_err (calib_parse_args (map str_of [''trades.cap'', ''--bogus'', ''1'']))"

definition unknown_format_is_an_error :: bool where
  "unknown_format_is_an_error \<longleftrightarrow>
     is_err (calib_parse_args (map str_of [''trades.cap'', ''--bucket-volumes'', ''10'', ''--sigma-windows'', ''20'',
       ''--vpin-windows'', ''20'', ''--format'', ''xml'']))"

definition malformed_number_in_csv_is_an_error :: bool where
  "malformed_number_in_csv_is_an_error \<longleftrightarrow>
     is_err (calib_parse_args (map str_of [''trades.cap'', ''--bucket-volumes'', ''10,abc,50'', ''--sigma-windows'', ''20'',
       ''--vpin-windows'', ''20'']))"

text \<open>The numbers of the tests' command lines.\<close>

lemma volumes_read:
  "f64_from_str (str_of ''10'') = Some (f64_of_nat 10)" "f64_from_str (str_of ''25'') = Some (f64_of_nat 25)"
  "f64_from_str (str_of ''50'') = Some (f64_of_nat 50)" "f64_from_str (str_of ''abc'') = None"
  by (simp_all add: f64_from_str_def take_sign_def str_of_def ascii_lower_def is_digit_def parse_exponent_def
      decimal_f64_def f64_of_nat_def)

lemma windows_read:
  "parse_usize (str_of ''20'') = Some 20" "parse_usize (str_of ''30'') = Some 30" "parse_usize (str_of ''50'') = Some 50"
  "parse_usize (str_of ''60'') = Some 60" "parse_usize (str_of ''100'') = Some 100"
  by (simp_all add: str_of_def number_eval)

lemma numbers_trim:
  "s \<in> {''10'', ''20'', ''25'', ''30'', ''50'', ''60'', ''100'', ''abc''} \<Longrightarrow> trim (str_of s) = str_of s"
  by (auto simp: trim_def str_of_def) (simp_all add: white_space_def)

lemma lists_split:
  "split_on 44 (str_of ''10,25,50'') = map str_of [''10'', ''25'', ''50'']"
  "split_on 44 (str_of ''10,abc,50'') = map str_of [''10'', ''abc'', ''50'']"
  "split_on 44 (str_of ''20,50'') = map str_of [''20'', ''50'']"
  "split_on 44 (str_of ''30,60'') = map str_of [''30'', ''60'']"
  "split_on 44 (str_of ''10'') = [str_of ''10'']" "split_on 44 (str_of ''20'') = [str_of ''20'']"
  by (simp_all add: str_of_def)

lemma values_parse:
  "parse_csv f64_from_str (str_of ''10,25,50'') flag = Inr [f64_of_nat 10, f64_of_nat 25, f64_of_nat 50]"
  "is_err (parse_csv f64_from_str (str_of ''10,abc,50'') flag)"
  "parse_csv f64_from_str (str_of ''10'') flag = Inr [f64_of_nat 10]"
  "parse_csv parse_usize (str_of ''20,50'') flag = Inr [20, 50]"
  "parse_csv parse_usize (str_of ''30,60'') flag = Inr [30, 60]" "parse_csv parse_usize (str_of ''20'') flag = Inr [20]"
  by (simp_all only: parse_csv_def lists_split list.map numbers_trim insert_iff simp_thms volumes_read windows_read
      option.case collect_results.simps sum.case is_err_def) simp_all

text \<open>The five flags, and no other.\<close>

lemma flags_set:
  "set_flag (str_of ''--bucket-volumes'') v opts =
     result_bind (parse_csv f64_from_str v (str_of ''--bucket-volumes'')) (\<lambda>xs. Inr (opts\<lparr>co_bucket_volumes := Some xs\<rparr>))"
  "set_flag (str_of ''--sigma-windows'') v opts =
     result_bind (parse_csv parse_usize v (str_of ''--sigma-windows'')) (\<lambda>xs. Inr (opts\<lparr>co_sigma_windows := Some xs\<rparr>))"
  "set_flag (str_of ''--vpin-windows'') v opts =
     result_bind (parse_csv parse_usize v (str_of ''--vpin-windows'')) (\<lambda>xs. Inr (opts\<lparr>co_vpin_windows := Some xs\<rparr>))"
  "set_flag (str_of ''--cdf-window'') v opts =
     (case parse_usize v of None \<Rightarrow> Inl (Bad_Cdf_Window v) | Some n \<Rightarrow> Inr (opts\<lparr>co_cdf_window := Some n\<rparr>))"
  "set_flag (str_of ''--format'') v opts = result_bind (OutputFormat_from_str v) (\<lambda>f. Inr (opts\<lparr>co_format := f\<rparr>))"
  "is_err (set_flag (str_of ''--bogus'') v opts)"
  by (simp_all add: set_flag_def str_of_def is_err_def)

lemma formats_parse: "OutputFormat_from_str (str_of ''csv'') = Inr Csv" "is_err (OutputFormat_from_str (str_of ''xml''))"
  by (simp_all add: OutputFormat_from_str_def str_of_def ascii_lower_def is_err_def)

lemma err_bind: "is_err r \<Longrightarrow> is_err (result_bind r f)"
  by (cases r) (simp_all add: is_err_def)

lemma calib_args_tests:
  "parses_valid_args" "cdf_window_and_format_are_optional_with_sane_defaults" "missing_required_flag_is_an_error"
  "missing_vpin_windows_is_an_error" "unknown_flag_is_an_error" "unknown_format_is_an_error"
  "malformed_number_in_csv_is_an_error"
  unfolding parses_valid_args_def cdf_window_and_format_are_optional_with_sane_defaults_def missing_required_flag_is_an_error_def
    missing_vpin_windows_is_an_error_def unknown_flag_is_an_error_def unknown_format_is_an_error_def
    malformed_number_in_csv_is_an_error_def
  by (simp_all add: calib_parse_args_def flags_set values_parse windows_read formats_parse required_def err_bind
      del: str_of_def)

subsection \<open>\<open>tools/calibrate/src/main.rs\<close>: statistics\<close>

definition summarize_empty_is_all_nan :: bool where
  "summarize_empty_is_all_nan \<longleftrightarrow> (case summarize [] of (mean, mn, mx, stddev) \<Rightarrow>
     f64_is_nan mean \<and> f64_is_nan mn \<and> f64_is_nan mx \<and> f64_is_nan stddev)"

definition summarize_matches_known_values :: bool where
  "summarize_matches_known_values \<longleftrightarrow>
     (case summarize known_data of (mean, mn, mx, stddev) \<Rightarrow>
        near (f64_of_dec 1 9) mean (f64_of_nat 5) \<and> f64_eq mn (f64_of_nat 2) \<and> f64_eq mx (f64_of_nat 9) \<and>
        near (f64_of_dec 1 9) stddev (f64_of_dec 2138089935299395 15))"

definition mean_interval_computes_average_gap :: bool where
  "mean_interval_computes_average_gap \<longleftrightarrow>
     near (f64_of_dec 1 9) (mean_interval_ms [0, 1000000, 3000000, 6000000]) (f64_of_nat 2)"

definition mean_interval_needs_at_least_two_points :: bool where
  "mean_interval_needs_at_least_two_points \<longleftrightarrow>
     f64_is_nan (mean_interval_ms []) \<and> f64_is_nan (mean_interval_ms [42])"

definition calibrate_one_reports_invalid_config_as_error_not_panic :: "(f64 \<Rightarrow> f64) \<Rightarrow> bool" where
  "calibrate_one_reports_invalid_config_as_error_not_panic erf \<longleftrightarrow>
     (let trades = [\<lparr>ct_price = f64_of_nat 100, ct_volume = f64_of_nat 1, ct_ts_ns = 0, ct_taker_side = Buy\<rparr>]
      in case calibrate_one erf trades (f64_neg (f64_of_nat 5)) 10 10 None
             \<lparr>bv_accuracy = NaN, bv_mean_abs_error = NaN, bv_compared = 0\<rparr> of
           None \<Rightarrow> False | Some result \<Rightarrow> is_err result)"

definition bvc_accuracy_is_nan_before_sigma_warms_up :: "(f64 \<Rightarrow> f64) \<Rightarrow> bool" where
  "bvc_accuracy_is_nan_before_sigma_warms_up erf \<longleftrightarrow>
     (let trades = map (\<lambda>i. \<lparr>ct_price = f64_add (f64_of_nat 100) (f64_of_nat i), ct_volume = f64_of_nat 10,
            ct_ts_ns = of_nat i, ct_taker_side = Buy\<rparr>) [0..<5]
      in case bvc_accuracy_stats erf trades (f64_of_nat 10) 1000 of Inl e \<Rightarrow> False
         | Inr bvc \<Rightarrow> f64_is_nan (bv_accuracy bvc) \<and> f64_is_nan (bv_mean_abs_error bvc) \<and> bv_compared bvc = 0)"

definition two_proportion_p_value_is_one_for_identical_large_samples :: "(f64 \<Rightarrow> f64) \<Rightarrow> bool" where
  "two_proportion_p_value_is_one_for_identical_large_samples erf \<longleftrightarrow>
     near (f64_of_dec 1 9) (two_proportion_p_value erf (f64_of_dec 8 1) 200 (f64_of_dec 8 1) 200) (f64_of_nat 1)"

definition two_proportion_p_value_is_nan_below_min_compared :: "(f64 \<Rightarrow> f64) \<Rightarrow> bool" where
  "two_proportion_p_value_is_nan_below_min_compared erf \<longleftrightarrow>
     f64_is_nan (two_proportion_p_value erf (f64_of_dec 9 1) 10 (f64_of_dec 5 1) 200) \<and>
     f64_is_nan (two_proportion_p_value erf (f64_of_dec 9 1) 200 (f64_of_dec 5 1) 10)"

definition two_proportion_p_value_is_nan_for_nan_inputs :: "(f64 \<Rightarrow> f64) \<Rightarrow> bool" where
  "two_proportion_p_value_is_nan_for_nan_inputs erf \<longleftrightarrow> f64_is_nan (two_proportion_p_value erf NaN 200 (f64_of_dec 5 1) 200)"

lemma whole_inf: "n \<le> 2 ^ 53 \<Longrightarrow> f64_min f64_inf (f64_of_nat n) = f64_of_nat n"
  "n \<le> 2 ^ 53 \<Longrightarrow> f64_max f64_neg_inf (f64_of_nat n) = f64_of_nat n"
  using whole_finite [of n] by (cases "f64_of_nat n"; auto simp: f64_min_def f64_max_def f64_inf_def f64_neg_inf_def f64_lt_def)+

lemma whole_min_max:
  "a \<le> 2 ^ 53 \<Longrightarrow> b \<le> 2 ^ 53 \<Longrightarrow> f64_min (f64_of_nat a) (f64_of_nat b) = f64_of_nat (min a b)"
  "a \<le> 2 ^ 53 \<Longrightarrow> b \<le> 2 ^ 53 \<Longrightarrow> f64_max (f64_of_nat a) (f64_of_nat b) = f64_of_nat (max a b)"
  using whole_less finite_not_nan [OF whole_finite] by (auto simp: f64_min_def f64_max_def min_def max_def)

lemma summarize_tests: "summarize_empty_is_all_nan" "summarize_matches_known_values"
  "mean_interval_computes_average_gap" "mean_interval_needs_at_least_two_points"
proof -
  show summarize_empty_is_all_nan mean_interval_needs_at_least_two_points
    by (simp_all add: summarize_empty_is_all_nan_def mean_interval_needs_at_least_two_points_def summarize_def mean_interval_ms_def)
  have m: "foldl f64_min f64_inf known_data = f64_of_nat 2" "foldl f64_max f64_neg_inf known_data = f64_of_nat 9"
    "length known_data = 8" "known_data \<noteq> []"
    by (simp_all add: known_data_def whole_inf whole_min_max)
  have e: "summarize known_data =
      (f64_of_nat 5, f64_of_nat 2, f64_of_nat 9, f64_sqrt (f64_div (f64_of_nat 32) (f64_of_nat 7)))"
    using m known_mean known_squares by (simp add: summarize_def Let_def)
  show summarize_matches_known_values
    unfolding summarize_matches_known_values_def e prod.case using near_self(1) [OF whole_finite, of 5] known_std
    by (simp add: whole_f64_eq)
  have "\<not> length [0, 1000000, 3000000, 6000000 :: u64] < 2" "length [0, 1000000, 3000000, 6000000 :: u64] - 1 = 3"
    "unat (saturating_sub_u64 (last [0, 1000000, 3000000, 6000000]) (hd [0, 1000000, 3000000, 6000000])) = 6000000"
    by (simp_all add: saturating_sub_u64_def)
  moreover have "f64_div (f64_div (f64_of_nat 6000000) (f64_of_nat 3)) (f64_of_nat 1000000) = f64_of_nat 2"
    using whole_div [of 2000000 3] whole_div [of 2 1000000] by simp
  ultimately have "mean_interval_ms [0, 1000000, 3000000, 6000000] = f64_of_nat 2"
    unfolding mean_interval_ms_def Let_def by (simp only: if_False)
  then show mean_interval_computes_average_gap
    using near_self(1) [OF whole_finite, of 2] by (simp add: mean_interval_computes_average_gap_def)
qed

text \<open>The p-value of equal proportions needs the error function at zero only.\<close>

lemma p_value_equal:
  assumes "erf f64_zero = f64_zero"
  shows "two_proportion_p_value_is_one_for_identical_large_samples erf"
proof -
  define p where "p = f64_of_dec 8 1"
  let ?v = "f64_div (f64_mul p (f64_sub f64_one p)) (f64_of_nat 200)"
  let ?se = "Num False 0x3FA47AE147AE147B"
  have "?v = Num False 0x3F4A36E2EB1C432C" by (simp add: p_def f64_eval)
  then have se: "f64_sqrt (f64_add ?v ?v) = ?se" by (simp add: f64_eval)
  have z: "f64_sub p p = f64_zero" "\<not> f64_is_nan p" by (simp_all add: p_def f64_eval)
  have cdf: "standard_normal_cdf erf f64_zero = f64_half"
    by (simp add: standard_normal_cdf_def frac_1_sqrt_2_def assms f64_eval)
  have one: "f64_mul f64_two (f64_sub f64_one f64_half) = f64_one" by (simp add: f64_eval)
  have q: "f64_div f64_zero ?se = f64_zero" "f64_eq ?se f64_zero \<longleftrightarrow> False" by (simp_all add: f64_eval)
  have n: "unat (200 :: u64) = 200" "(200 :: u64) < MIN_COMPARED \<longleftrightarrow> False" by (simp_all add: MIN_COMPARED_def)
  have "two_proportion_p_value erf p 200 p 200 = f64_one"
    unfolding two_proportion_p_value_def Let_def n se q z(1) f64_abs.simps cdf one using z(2) by simp
  moreover have "near (f64_of_dec 1 9) f64_one f64_one" by (simp add: near_def f64_eval)
  ultimately show ?thesis
    by (simp add: two_proportion_p_value_is_one_for_identical_large_samples_def f64_of_nat_1 p_def)
qed

text \<open>Nothing is compared before sigma has its window.\<close>

lemma comparisons_warmup: "length earlier + length cps \<le> w \<Longrightarrow> comparisons erf w earlier cps = []"
  by (induction erf w earlier cps rule: comparisons.induct) (simp_all add: comparison_def sigma_after_def)

lemma bvc_reference_warmup:
  assumes "length trades \<le> w" shows "bvc_reference erf V w trades = []"
proof -
  have "length (pieces V [] trades) \<le> w" using length_pieces [of V "[]" trades] assms by simp
  then show ?thesis unfolding bvc_reference_def by (intro comparisons_warmup) simp
qed

lemma statistics_tests:
  "calibrate_one_reports_invalid_config_as_error_not_panic erf"
  "bvc_accuracy_is_nan_before_sigma_warms_up erf"
  "two_proportion_p_value_is_nan_below_min_compared erf"
  "two_proportion_p_value_is_nan_for_nan_inputs erf"
proof -
  have "\<not> f64_lt f64_zero (f64_neg (f64_of_nat 5))" by (simp add: f64_eval)
  then show "calibrate_one_reports_invalid_config_as_error_not_panic erf"
    by (simp add: calibrate_one_reports_invalid_config_as_error_not_panic_def calibrate_one_def VpinEngine_new_def
        checked_ci_def VolumeBucketer_new_def)
  show "two_proportion_p_value_is_nan_below_min_compared erf" "two_proportion_p_value_is_nan_for_nan_inputs erf"
    by (simp_all add: two_proportion_p_value_is_nan_below_min_compared_def two_proportion_p_value_is_nan_for_nan_inputs_def
        two_proportion_p_value_def MIN_COMPARED_def)
  define trades where "trades = map (\<lambda>i. \<lparr>ct_price = f64_add (f64_of_nat 100) (f64_of_nat i), ct_volume = f64_of_nat 10,
    ct_ts_ns = of_nat i, ct_taker_side = Buy\<rparr>) [0..<5]"
  have n: "length trades = 5" by (simp add: trades_def)
  have "bvc_accuracy_stats erf trades (f64_of_nat 10) 1000 = Inr \<lparr>bv_accuracy = NaN, bv_mean_abs_error = NaN, bv_compared = 0\<rparr>"
    using bvc_accuracy_stats_eq [of trades erf "f64_of_nat 10" 1000] bvc_reference_warmup [of trades 1000 erf]
    by (simp add: n whole_finite f64_of_nat_pos)
  then show "bvc_accuracy_is_nan_before_sigma_warms_up erf"
    unfolding bvc_accuracy_is_nan_before_sigma_warms_up_def Let_def trades_def [symmetric] by simp
qed

subsection \<open>\<open>tools/calibrate/src/main.rs\<close>: sweep and output\<close>

definition zigzag_step :: "f64 \<Rightarrow> nat \<Rightarrow> f64" where
  "zigzag_step price i = f64_add price (if even i then f64_of_dec 4 1 else f64_neg (f64_of_dec 25 2))"

definition synthetic_zigzag_trades :: "nat \<Rightarrow> calib_trade list" where
  "synthetic_zigzag_trades n = map (\<lambda>i. \<lparr>ct_price = foldl zigzag_step (f64_of_nat 100) [0..<Suc i], ct_volume = f64_of_nat 10,
     ct_ts_ns = of_nat i * 1000000, ct_taker_side = (if even i then Buy else Sell)\<rparr>) [0..<n]"

definition run_sweep_covers_the_full_cartesian_product :: "(f64 \<Rightarrow> f64) \<Rightarrow> bool" where
  "run_sweep_covers_the_full_cartesian_product erf \<longleftrightarrow>
     (case run_sweep erf (synthetic_zigzag_trades 500) [f64_of_nat 10, f64_of_nat 20] [10, 20] [10, 15] None of
        None \<Rightarrow> False | Some results \<Rightarrow> length results = 2 * 2 * 2)"

definition csv_escape_only_quotes_when_needed :: bool where
  "csv_escape_only_quotes_when_needed \<longleftrightarrow> csv_escape (str_of ''plain'') = str_of ''plain'' \<and>
     csv_escape (str_of ''has,comma'') = str_of (''\"'' @ ''has,comma'' @ ''\"'') \<and>
     csv_escape (str_of (''has'' @ ''\"'' @ ''quote'')) = str_of (''\"has\"\"quote\"'')"

definition csv_rows_have_the_same_field_count_as_the_header :: "(f64 \<Rightarrow> f64) \<Rightarrow> (f64 \<Rightarrow> str) \<Rightarrow> bool" where
  "csv_rows_have_the_same_field_count_as_the_header erf show_f64 \<longleftrightarrow>
     (case run_sweep erf (synthetic_zigzag_trades 200) [f64_of_nat 10, f64_neg (f64_of_nat 5)] [10] [10] None of
        None \<Rightarrow> False
      | Some results \<Rightarrow> (\<forall>r \<in> set results. length (csv_row show_f64 r) = length (split_on 44 CSV_HEADER)))"

lemma csv_row_fields: "length (csv_row show_f64 r) = 15"
  by (simp add: csv_row_def split: sum.splits)

lemma csv_header_fields: "length (split_on 44 CSV_HEADER) = 15"
  by (simp add: CSV_HEADER_def str_of_def)

lemma run_sweep_length:
  "\<exists>rows. run_sweep erf trades bvs sws vws cdf = Some rows \<and> length rows = length bvs * (length sws * length vws)"
  by (rule run_sweep_cases [of erf trades bvs sws vws cdf]) (simp_all add: length_product)

lemma sweep_tests:
  "run_sweep_covers_the_full_cartesian_product erf" "csv_escape_only_quotes_when_needed"
  "csv_rows_have_the_same_field_count_as_the_header erf show_f64"
proof -
  show "run_sweep_covers_the_full_cartesian_product erf"
    using run_sweep_length [of erf "synthetic_zigzag_trades 500" "[f64_of_nat 10, f64_of_nat 20]" "[10, 20]" "[10, 15]" None]
    unfolding run_sweep_covers_the_full_cartesian_product_def by auto
  show csv_escape_only_quotes_when_needed
    by (simp add: csv_escape_only_quotes_when_needed_def csv_escape_def str_of_def)
  show "csv_rows_have_the_same_field_count_as_the_header erf show_f64"
    using run_sweep_length [of erf "synthetic_zigzag_trades 200" "[f64_of_nat 10, f64_neg (f64_of_nat 5)]" "[10]" "[10]" None]
    unfolding csv_rows_have_the_same_field_count_as_the_header_def by (auto simp: csv_row_fields csv_header_fields)
qed

end
