(* ===== verification/Tests_Replay.thy ===== *)
theory Tests_Replay
  imports Tests_Warmup Tests_Tools Py_Vpin Sweep_Warmup
begin

text \<open>
  The tests of the tools that replay a whole zigzag through the engine: those of
  \<open>bindings/py-vpin/src/lib.rs\<close>, and of \<open>tools/calibrate/src/main.rs\<close> those that run \<open>calibrate_one\<close>, the
  comparison pass or a sweep until there are values. The error function and the texts of numbers are parameters.
\<close>

subsection \<open>\<open>bindings/py-vpin/src/lib.rs\<close>\<close>

definition construct_and_push_trade_via_pymethods :: "(f64 \<Rightarrow> str) \<Rightarrow> (f64 \<Rightarrow> f64) \<Rightarrow> bool" where
  "construct_and_push_trade_via_pymethods show_f64 erf \<longleftrightarrow>
     (case py_engine_new show_f64 (f64_of_nat 10) 5 5 None of Inl e \<Rightarrow> False
      | Inr engine \<Rightarrow> (case py_run erf engine (ticks 300) of None \<Rightarrow> False
          | Some (_, rs) \<Rightarrow> rs \<noteq> [] \<and> (\<forall>r \<in> set rs. 0 < py_trades_in_bucket r \<and> pred_option in_unit (py_vpin r))))"

definition invalid_config_becomes_value_error_not_a_panic :: "(f64 \<Rightarrow> str) \<Rightarrow> bool" where
  "invalid_config_becomes_value_error_not_a_panic show_f64 \<longleftrightarrow>
     is_err (py_engine_new show_f64 (f64_neg (f64_of_nat 1)) 5 5 None)"

definition repr_handles_none_fields_without_panicking :: "(f64 \<Rightarrow> str) \<Rightarrow> bool" where
  "repr_handles_none_fields_without_panicking show_f64 \<longleftrightarrow>
     py_repr show_f64 \<lparr>py_bucket_id = 0, py_ts_close_ns = 0, py_trades_in_bucket = 3, py_vpin = None, py_vpin_cdf = None\<rparr> =
       str_of ''VpinReading(bucket_id=0, trades_in_bucket=3, vpin=None, vpin_cdf=None)''"

definition repr_formats_some_values_as_numbers_not_debug_syntax :: "(f64 \<Rightarrow> str) \<Rightarrow> bool" where
  "repr_formats_some_values_as_numbers_not_debug_syntax show_f64 \<longleftrightarrow>
     py_repr show_f64 \<lparr>py_bucket_id = 1, py_ts_close_ns = 0, py_trades_in_bucket = 3, py_vpin = Some (f64_of_dec 42 2),
         py_vpin_cdf = Some (f64_of_dec 9 1)\<rparr> =
       str_of ''VpinReading(bucket_id=1, trades_in_bucket=3, vpin=0.42, vpin_cdf=0.9)''"

lemma py_vpin_texts:
  "invalid_config_becomes_value_error_not_a_panic show_f64" "repr_handles_none_fields_without_panicking show_f64"
  "show_f64 (f64_of_dec 42 2) = str_of ''0.42'' \<Longrightarrow> show_f64 (f64_of_dec 9 1) = str_of ''0.9'' \<Longrightarrow>
    repr_formats_some_values_as_numbers_not_debug_syntax show_f64"
proof -
  have "\<not> f64_lt f64_zero (f64_neg (f64_of_nat 1))" by (simp add: f64_eval)
  then show "invalid_config_becomes_value_error_not_a_panic show_f64"
    by (simp add: invalid_config_becomes_value_error_not_a_panic_def py_engine_new_def VpinEngine_new_def checked_ci_def
        VolumeBucketer_new_def is_err_def)
  show "repr_handles_none_fields_without_panicking show_f64"
    by (simp add: repr_handles_none_fields_without_panicking_def py_repr_def opt_repr_def show_u64_def show_nat.simps str_of_def)
  show "repr_formats_some_values_as_numbers_not_debug_syntax show_f64"
    if "show_f64 (f64_of_dec 42 2) = str_of ''0.42''" "show_f64 (f64_of_dec 9 1) = str_of ''0.9''"
    using that by (simp add: repr_formats_some_values_as_numbers_not_debug_syntax_def py_repr_def opt_repr_def
        show_u64_def show_nat.simps str_of_def)
qed

abbreviation py_config :: vpin_engine_config where
  "py_config \<equiv> calib_config (f64_of_nat 10) 5 5 None"

lemma ten_config_ok:
  assumes "2 \<le> w" "1 \<le> n" "n \<le> 2 ^ 52" "pred_option (\<lambda>k. 2 \<le> k \<and> k < 2 ^ 64) cdf"
  shows "config_ok (calib_config (f64_of_nat 10) w n cdf)" "config_bounded (calib_config (f64_of_nat 10) w n cdf)"
  using assms by (cases cdf; simp add: config_ok_def config_bounded_def calib_config_def whole_finite f64_of_nat_pos
      capped_def uval_f64_of_nat)+

lemma py_vpin_run:
  assumes "erf_range erf" shows "construct_and_push_trade_via_pymethods show_f64 erf"
proof -
  have ok: "config_ok py_config" "config_bounded py_config" using ten_config_ok [of 5 5 None] by simp_all
  have new: "VpinEngine_new py_config = Inr (fresh_engine py_config)" using ok(1) by (simp add: VpinEngine_new_Inr)
  have c: "vc_bucket_volume py_config = f64_of_nat 10" "3 \<le> vc_sigma_window py_config"
    "vc_sigma_window py_config + vc_vpin_window py_config \<le> 300" "300 \<le> (900 :: nat)" by (simp_all add: calib_config_def)
  from ticks_readings [OF assms ok c] obtain rs where rs: "readings erf py_config (ticks 300) = Some rs" "\<exists>r \<in> set rs. vr_vpin r \<noteq> None"
    "\<forall>r \<in> set rs. reading_ok (vc_confidence_interval py_config \<noteq> None) r \<and> vr_trades_in_bucket r = 1" by blast
  obtain e' where "engine_run erf (fresh_engine py_config) (ticks 300) = Some (e', rs)"
    using rs(1) by (auto simp: readings_def new)
  then have run: "py_run erf \<lparr>py_inner = fresh_engine py_config\<rparr> (ticks 300) =
      Some (\<lparr>py_inner = e'\<rparr>, map py_reading_from rs)" by (simp add: py_run_engine)
  have "py_engine_new show_f64 (f64_of_nat 10) 5 5 None = Inr \<lparr>py_inner = fresh_engine py_config\<rparr>"
    unfolding py_engine_new_def calib_config_def [symmetric] new by simp
  moreover have "\<forall>r \<in> set (map py_reading_from rs). 0 < py_trades_in_bucket r \<and> pred_option in_unit (py_vpin r)"
    using rs(3) by (simp add: py_reading_from_def reading_ok_def)
  moreover have "rs \<noteq> []" using rs(2) by auto
  ultimately show ?thesis
    unfolding construct_and_push_trade_via_pymethods_def run by (simp only: sum.case run option.case prod.case) simp
qed

subsection \<open>The zigzag of \<open>tools/calibrate\<close>\<close>

definition calibrate_one_runs_end_to_end_on_synthetic_trades :: "(f64 \<Rightarrow> f64) \<Rightarrow> bool" where
  "calibrate_one_runs_end_to_end_on_synthetic_trades erf \<longleftrightarrow>
     (let trades = synthetic_zigzag_trades 500
      in case bvc_accuracy_stats erf trades (f64_of_nat 10) 10 of Inl e \<Rightarrow> False
         | Inr bvc \<Rightarrow> (case calibrate_one erf trades (f64_of_nat 10) 10 10 (Some 20) bvc of
               Some (Inr stats) \<Rightarrow> 0 < st_total_buckets stats \<and> 0 < st_non_warmup_readings stats \<and>
                 f64_le f64_zero (st_vpin_mean stats) \<and> f64_le (st_vpin_mean stats) f64_one \<and>
                 \<not> f64_is_nan (st_avg_bucket_interval_ms stats) \<and> \<not> f64_is_nan (st_bvc_accuracy stats) \<and>
                 in_unit (st_bvc_accuracy stats) \<and> f64_le f64_zero (st_bvc_mean_abs_error stats)
             | _ \<Rightarrow> False))"

definition accuracies :: "sweep_result list \<Rightarrow> f64 list option" where
  "accuracies rows = those (map (\<lambda>r. case sw_stats r of Inl e \<Rightarrow> None | Inr s \<Rightarrow> Some (st_bvc_accuracy s)) rows)"

definition run_sweep_reuses_bvc_stats_across_vpin_windows :: "(f64 \<Rightarrow> f64) \<Rightarrow> bool" where
  "run_sweep_reuses_bvc_stats_across_vpin_windows erf \<longleftrightarrow>
     (case run_sweep erf (synthetic_zigzag_trades 500) [f64_of_nat 10] [10] [5, 10, 20, 50] None of None \<Rightarrow> False
      | Some results \<Rightarrow> (case accuracies results of None \<Rightarrow> False
          | Some accs \<Rightarrow> list_all2 f64_eq (butlast accs) (tl accs)))"

abbreviation zigzag_delta :: "nat \<Rightarrow> f64" where
  "zigzag_delta \<equiv> alternating (f64_of_dec 4 1) (f64_of_dec 25 2)"

abbreviation zigzag_time :: "nat \<Rightarrow> u64" where
  "zigzag_time i \<equiv> of_nat i * 1000000"

lemma zigzag_steps: "steps_ok zigzag_delta" "3 \<le> w \<Longrightarrow> varied w zigzag_delta"
proof -
  have "f64_is_finite (f64_of_dec 4 1) \<and> uval (f64_of_dec 4 1) \<le> 2 ^ 1073 \<and> 2 ^ 1072 \<le> uval (f64_of_dec 4 1)"
    "f64_is_finite (f64_of_dec 25 2) \<and> uval (f64_of_dec 25 2) = 2 ^ 1072"
    by (simp_all add: f64_of_dec_def rnd_mag_def rnd_index_def rnd_at_def fit_exp_def rne_def round_quotient_def
        compute_floorlog munits_def sig_of_def exp_of_def inf_mag_def)
  then show "steps_ok zigzag_delta" "3 \<le> w \<Longrightarrow> varied w zigzag_delta" by (auto intro!: alternating_steps)
qed

lemma zigzag_price: "foldl zigzag_step (f64_of_nat 100) [0..<Suc i] = zig zigzag_delta i"
proof -
  have "zigzag_step p i = f64_add p (zigzag_delta i)" for p i
    by (simp add: zigzag_step_def alternating_def even_iff_mod_2_eq_zero)
  then show ?thesis unfolding zig_def foldl_map by presburger
qed

lemma zigzag_tape: "map tape_in (synthetic_zigzag_trades n) = zig_tape (zig zigzag_delta) zigzag_time n"
  unfolding synthetic_zigzag_trades_def zigzag_price by (simp add: tape_in_def zig_tape_def comp_def)

lemma zigzag_length: "length (synthetic_zigzag_trades n) = n"
  by (simp add: synthetic_zigzag_trades_def)

lemma zigzag_small: "small_tape (synthetic_zigzag_trades n)"
  by (auto simp: small_tape_def synthetic_zigzag_trades_def capped_def whole_finite uval_f64_of_nat)

lemma zigzag_buckets:
  assumes "0 < n"
  shows "tape_buckets (f64_of_nat 10) (synthetic_zigzag_trades n) = map (zig_bucket (zig zigzag_delta) zigzag_time) [0..<n]"
proof -
  let ?c = "calib_config (f64_of_nat 10) 2 1 None"
  have c: "VpinEngine_new ?c = Inr (fresh_engine ?c)" "VolumeBucketer_new (f64_of_nat 10) = Inr (ve_bucketer (fresh_engine ?c))"
    by (simp_all add: VpinEngine_new_Inr config_ok_def calib_config_def VolumeBucketer_new_def fresh_engine_def
        whole_finite f64_of_nat_pos)
  show ?thesis using zig_buckets [OF c(1) _ assms, of "zig zigzag_delta" zigzag_time] c(2)
    by (simp add: tape_buckets_def zigzag_tape calib_config_def)
qed

lemma zigzag_compared:
  assumes "3 \<le> w" "w \<le> 2 ^ 52" "0 < n" "n \<le> 900"
  shows "length (bvc_reference erf (f64_of_nat 10) w (synthetic_zigzag_trades n)) = n - w"
proof -
  have v: "VolumeBucketer_new (f64_of_nat 10) = Inr \<lparr>vb_target_volume = f64_of_nat 10, vb_bucket_id = 0,
      vb_acc_volume = f64_zero, vb_last_price = f64_zero, vb_prev_close = None, vb_trade_count = 0, vb_started = False\<rparr>"
    by (simp add: VolumeBucketer_new_def whole_finite f64_of_nat_pos)
  have m: "always_moves w (tape_buckets (f64_of_nat 10) (synthetic_zigzag_trades n))"
    unfolding zigzag_buckets [OF assms(3)] by (rule zig_moves [OF zigzag_steps(1) zig_follows [OF zigzag_steps(1)] zigzag_steps(2) [OF assms(1)] assms(4)])
  have "2 \<le> w" using assms(1) by simp
  from compared_when_moving [OF v m this assms(2)] show ?thesis by (simp add: zigzag_buckets [OF assms(3)])
qed

subsection \<open>The tests of \<open>tools/calibrate/src/main.rs\<close>\<close>

lemma quotient_not_nan: "\<not> f64_is_nan a \<Longrightarrow> f64_is_finite b \<Longrightarrow> \<not> f64_eq b f64_zero \<Longrightarrow> \<not> f64_is_nan (f64_div a b)"
  by (cases a; cases b) (auto simp: f64_eq_def split: if_splits intro!: gr0I)

lemma whole_nonzero: "0 < n \<Longrightarrow> n \<le> 2 ^ 53 \<Longrightarrow> f64_is_finite (f64_of_nat n) \<and> \<not> f64_eq (f64_of_nat n) f64_zero"
  using whole_finite [of n] f64_of_nat_pos [of n] by (auto simp: f64_eq_def f64_lt_def)

lemma mean_interval_number:
  assumes "2 \<le> length ts" "length ts \<le> 2 ^ 53" shows "\<not> f64_is_nan (mean_interval_ms ts)"
proof -
  have "\<not> f64_is_nan (f64_of_nat n)" for n by (simp add: f64_of_nat_def)
  moreover have "f64_is_finite (f64_of_nat (length ts - 1)) \<and> \<not> f64_eq (f64_of_nat (length ts - 1)) f64_zero"
    "f64_is_finite (f64_of_nat 1000000) \<and> \<not> f64_eq (f64_of_nat 1000000) f64_zero"
    using assms by (intro whole_nonzero; simp)+
  ultimately show ?thesis using assms(1) by (simp add: mean_interval_ms_def Let_def quotient_not_nan)
qed

text \<open>A configuration of 10 units per bucket on the zigzag: all that its row reports.\<close>

lemma zigzag_row:
  assumes "erf_range erf" "3 \<le> w" "1 \<le> m" "w + m \<le> n" "n \<le> 900" "pred_option (\<lambda>k. 2 \<le> k \<and> k < 2 ^ 64) cdf"
    "bvc_accuracy_stats erf (synthetic_zigzag_trades n) (f64_of_nat 10) w = Inr b"
  shows "\<exists>s. calibrate_one erf (synthetic_zigzag_trades n) (f64_of_nat 10) w m cdf b = Some (Inr s) \<and> stats_ok s \<and>
    0 < st_total_buckets s \<and> 0 < st_non_warmup_readings s \<and> \<not> f64_is_nan (st_avg_bucket_interval_ms s) \<and>
    st_bvc_accuracy s = bv_accuracy b \<and> st_bvc_mean_abs_error s = bv_mean_abs_error b"
proof -
  let ?c = "calib_config (f64_of_nat 10) w m cdf" and ?t = "synthetic_zigzag_trades n"
  have n: "2 \<le> n" "2 \<le> w" "m \<le> 2 ^ 52" "w \<le> 2 ^ 52" "n \<le> 2 ^ 53" "0 < n" "w + m - 1 < n" using assms(2-5) by simp_all
  note ok = ten_config_ok [OF n(2) assms(3) n(3) assms(6)]
  have c: "vc_sigma_window ?c = w" "vc_vpin_window ?c = m" "vc_bucket_volume ?c = f64_of_nat 10" by (simp_all add: calib_config_def)
  from zig_readings [OF assms(1) ok _ c(3) zigzag_steps(1) _ n(6) assms(5) zig_follows [OF zigzag_steps(1)], of zigzag_time,
      unfolded c,
      OF n(4) zigzag_steps(2) [OF assms(2)]]
  obtain e' rs where r: "engine_run erf (fresh_engine ?c) (map tape_in ?t) = Some (e', rs)" "length rs = n"
    "\<forall>i < n. vr_vpin (rs ! i) \<noteq> None \<longleftrightarrow> w + m - 1 \<le> i" unfolding zigzag_tape by blast
  obtain x y where "x \<in> set rs" "vr_vpin x = Some y" using zig_gives_value [OF r(2,3) n(7)] by blast
  then have "y \<in> set (List.map_filter vr_vpin rs)" by (auto simp: in_map_filter)
  then have v: "List.map_filter vr_vpin rs \<noteq> []" by auto
  have l: "length (List.map_filter vr_vpin rs) \<le> length rs"
    by (induction rs) (simp_all add: map_filter_simps split: option.splits)
  then have u: "0 < (of_nat (length (List.map_filter vr_vpin rs)) :: u64)" "0 < (of_nat n :: u64)"
    using v n(5,6) r(2) of_nat_u64_zero [of n] of_nat_u64_zero [of "length (List.map_filter vr_vpin rs)"]
    by (auto simp: word_neq_0_conv [symmetric])
  have "\<not> f64_is_nan (mean_interval_ms (map vr_ts_close_ns rs))" using mean_interval_number n(1,5) r(2) by simp
  moreover have "VpinEngine_new ?c = Inr (fresh_engine ?c)" using ok(1) by (simp add: VpinEngine_new_Inr)
  ultimately obtain s where s: "calibrate_one erf ?t (f64_of_nat 10) w m cdf b = Some (Inr s)" "0 < st_total_buckets s"
    "0 < st_non_warmup_readings s" "\<not> f64_is_nan (st_avg_bucket_interval_ms s)" "st_bvc_accuracy s = bv_accuracy b"
    "st_bvc_mean_abs_error s = bv_mean_abs_error b"
    using u r(1,2) by (cases rule: calibrate_one_cases [of "f64_of_nat 10" w m cdf erf ?t b]) (auto split: prod.splits)
  have "run_one erf ?t cdf (f64_of_nat 10) w m = Some (Inr s)" by (simp add: run_one_def assms(7) s(1))
  moreover have "small (f64_of_nat 10)" by (simp add: capped_def whole_finite uval_f64_of_nat)
  moreover have "pred_option (\<lambda>k. k < 2 ^ 64) cdf" using assms(6) by (cases cdf) simp_all
  ultimately have "stats_ok s" using run_one_ok [OF assms(1) _ zigzag_small _ n(3)] n(5) by (simp add: zigzag_length)
  then show ?thesis using s by blast
qed

lemma zigzag_bvc:
  assumes "erf_range erf" "3 \<le> w" "w < n" "n \<le> 900"
  shows "\<exists>b. bvc_accuracy_stats erf (synthetic_zigzag_trades n) (f64_of_nat 10) w = Inr b \<and>
    in_unit (bv_accuracy b) \<and> in_unit (bv_mean_abs_error b)"
proof -
  let ?t = "synthetic_zigzag_trades n"
  have n: "w \<le> 2 ^ 52" "0 < n" "n \<le> 2 ^ 53" "length ?t < 2 ^ 64" "n - w \<le> 2 ^ 53" using assms(3,4) by (simp_all add: zigzag_length)
  obtain b where b: "bvc_accuracy_stats erf ?t (f64_of_nat 10) w = Inr b" "bv_compared b = of_nat (n - w)"
    using bvc_accuracy_stats_eq [OF n(4), of erf "f64_of_nat 10" w] zigzag_compared [OF assms(2) n(1,2) assms(4), of erf] assms(2)
    by (simp add: whole_finite f64_of_nat_pos Let_def)
  have "small (f64_of_nat 10)" by (simp add: capped_def whole_finite uval_f64_of_nat)
  from bvc_stats_unit [OF assms(1) this zigzag_small _ b(1)] show ?thesis
    using b of_nat_u64_zero [OF n(5)] n(3) assms(3) by (simp add: zigzag_length maybe_unit_def)
qed

lemma calibrate_replay_test:
  assumes "erf_range erf" shows "calibrate_one_runs_end_to_end_on_synthetic_trades erf"
proof -
  obtain b where b: "bvc_accuracy_stats erf (synthetic_zigzag_trades 500) (f64_of_nat 10) 10 = Inr b"
    "in_unit (bv_accuracy b)" "in_unit (bv_mean_abs_error b)" using zigzag_bvc [OF assms, of 10 500] by auto
  obtain s where s: "calibrate_one erf (synthetic_zigzag_trades 500) (f64_of_nat 10) 10 10 (Some 20) b = Some (Inr s)"
    "stats_ok s" "0 < st_total_buckets s" "0 < st_non_warmup_readings s" "\<not> f64_is_nan (st_avg_bucket_interval_ms s)"
    "st_bvc_accuracy s = bv_accuracy b" "st_bvc_mean_abs_error s = bv_mean_abs_error b"
    using zigzag_row [OF assms _ _ _ _ _ b(1), of 10 "Some 20"] by auto
  have "st_non_warmup_readings s \<noteq> 0" using s(4) by (simp add: word_neq_0_conv)
  then have "in_unit (st_vpin_mean s)" using s(2) by (simp add: stats_ok_def maybe_unit_def)
  moreover have "\<not> f64_is_nan (bv_accuracy b)" using b(2) in_unit_finite finite_not_nan by blast
  ultimately show ?thesis using b s
    by (simp add: calibrate_one_runs_end_to_end_on_synthetic_trades_def in_unit_def)
qed

text \<open>Every row of a sweep over several windows reports the accuracy of the one comparison pass.\<close>

lemma sweep_accuracies:
  assumes "bvc_accuracy_stats erf trades V w = Inr b"
    "\<forall>m \<in> set vws. \<exists>s. calibrate_one erf trades V w m cdf b = Some (Inr s) \<and> st_bvc_accuracy s = bv_accuracy b"
  shows "\<exists>rows. run_sweep erf trades [V] [w] vws cdf = Some rows \<and>
    accuracies rows = Some (replicate (length vws) (bv_accuracy b))"
proof -
  define out where "out = map (row_of erf trades cdf) (List.product [V] (List.product [w] vws))"
  have o: "\<forall>r \<in> set out. \<exists>s. sw_stats r = Inr s \<and> st_bvc_accuracy s = bv_accuracy b" "length out = length vws"
    using assms by (auto simp: out_def row_of_def run_one_def)
  have a: "accuracies rows = Some (replicate (length rows) (bv_accuracy b))"
    if "\<forall>r \<in> set rows. \<exists>s. sw_stats r = Inr s \<and> st_bvc_accuracy s = bv_accuracy b" for rows
    using that by (induction rows) (auto simp: accuracies_def)
  show ?thesis
  proof (rule run_sweep_cases [where erf = erf and trades = trades and cdf = cdf and bvs = "[V]" and sws = "[w]" and vws = vws,
        folded out_def])
    assume "run_sweep erf trades [V] [w] vws cdf = Some out"
    then show ?thesis using a [OF o(1)] o(2) by simp
  next
    fix i s
    let ?rows = "map (fill_p_value erf i (st_bvc_accuracy s) (st_bvc_compared s)) (enumerate 0 out)"
    assume r: "run_sweep erf trades [V] [w] vws cdf = Some ?rows"
    have "\<forall>r \<in> set ?rows. \<exists>s. sw_stats r = Inr s \<and> st_bvc_accuracy s = bv_accuracy b"
    proof
      fix r assume "r \<in> set ?rows"
      then obtain j where j: "j < length out" "r = fill_p_value erf i (st_bvc_accuracy s) (st_bvc_compared s) (j, out ! j)"
        by (auto simp: in_set_enumerate_eq)
      then show "\<exists>s. sw_stats r = Inr s \<and> st_bvc_accuracy s = bv_accuracy b"
        using bspec [OF o(1) nth_mem [OF j(1)]] unfolding j(2) fill_p_value_parts(2) by auto
    qed
    then show ?thesis using a [of ?rows] o(2) r by simp
  qed
qed

lemma sweep_reuse_test:
  assumes "erf_range erf" shows "run_sweep_reuses_bvc_stats_across_vpin_windows erf"
proof -
  obtain b where b: "bvc_accuracy_stats erf (synthetic_zigzag_trades 500) (f64_of_nat 10) 10 = Inr b"
    "in_unit (bv_accuracy b)" using zigzag_bvc [OF assms, of 10 500] by auto
  have "\<forall>m \<in> set [5, 10, 20, 50]. \<exists>s. calibrate_one erf (synthetic_zigzag_trades 500) (f64_of_nat 10) 10 m None b =
      Some (Inr s) \<and> st_bvc_accuracy s = bv_accuracy b"
  proof
    fix m :: usize assume "m \<in> set [5, 10, 20, 50]"
    then have "1 \<le> m" "10 + m \<le> 500" by auto
    then show "\<exists>s. calibrate_one erf (synthetic_zigzag_trades 500) (f64_of_nat 10) 10 m None b =
        Some (Inr s) \<and> st_bvc_accuracy s = bv_accuracy b"
      using zigzag_row [OF assms _ _ _ _ _ b(1), of m None] by auto
  qed
  from sweep_accuracies [OF b(1) this] in_unit_eq [OF b(2)] show ?thesis
    by (auto simp: run_sweep_reuses_bvc_stats_across_vpin_windows_def numeral_eq_Suc)
qed

text \<open>\<open>to_string\<close> and \<open>from_str\<close> of \<open>serde_json\<close> are one parameter, the value read back from the text; all the
  test looks at are the keys of its objects.\<close>

fun json_keys :: "json \<Rightarrow> str set" where
  "json_keys (JObject kvs) = fst ` set kvs"
| "json_keys _ = {}"

definition json_output_is_valid_and_has_the_expected_shape :: "(f64 \<Rightarrow> f64) \<Rightarrow> (f64 \<Rightarrow> str) \<Rightarrow> (json list \<Rightarrow> json list option) \<Rightarrow> bool" where
  "json_output_is_valid_and_has_the_expected_shape erf show_f64 reparse \<longleftrightarrow>
     (case run_sweep erf (synthetic_zigzag_trades 200) [f64_of_nat 10, f64_neg (f64_of_nat 5)] [10] [10] None of None \<Rightarrow> False
      | Some results \<Rightarrow> (case reparse (map (stats_to_json show_f64) results) of None \<Rightarrow> False
          | Some arr \<Rightarrow> length arr = 2 \<and> str_of ''bvc_accuracy'' \<in> json_keys (arr ! 0) \<and>
              str_of ''error'' \<in> json_keys (arr ! 1) \<and> str_of ''bvc_accuracy'' \<notin> json_keys (arr ! 1)))"

lemma json_row_keys:
  "sw_stats r = Inr s \<Longrightarrow> str_of ''bvc_accuracy'' \<in> json_keys (stats_to_json show_f64 r)"
  "sw_stats r = Inl e \<Longrightarrow> str_of ''error'' \<in> json_keys (stats_to_json show_f64 r) \<and>
     str_of ''bvc_accuracy'' \<notin> json_keys (stats_to_json show_f64 r)"
  by (simp_all add: stats_to_json_def str_of_def)

lemma json_test:
  assumes "erf_range erf" "\<forall>rows. \<exists>arr. reparse rows = Some arr \<and> map json_keys arr = map json_keys rows"
  shows "json_output_is_valid_and_has_the_expected_shape erf show_f64 reparse"
proof -
  let ?t = "synthetic_zigzag_trades 200" and ?bvs = "[f64_of_nat 10, f64_neg (f64_of_nat 5)]"
  obtain b where b: "bvc_accuracy_stats erf ?t (f64_of_nat 10) 10 = Inr b" using zigzag_bvc [OF assms(1), of 10 200] by auto
  obtain s where s: "calibrate_one erf ?t (f64_of_nat 10) 10 10 None b = Some (Inr s)"
    using zigzag_row [OF assms(1) _ _ _ _ _ b, of 10 None] by auto
  have "\<not> f64_lt f64_zero (f64_neg (f64_of_nat 5))" by (simp add: f64_eval)
  then have e: "bvc_accuracy_stats erf ?t (f64_neg (f64_of_nat 5)) 10 = Inl (InvalidBucketVolume (f64_neg (f64_of_nat 5)))"
    by (simp add: bvc_accuracy_stats_def VolumeBucketer_new_def)
  obtain rows where r: "run_sweep erf ?t ?bvs [10] [10] None = Some rows" "length rows = 2"
    "isl (sw_stats (rows ! 0)) = False" "isl (sw_stats (rows ! 1)) = True"
    using run_sweep_kinds [of erf ?t ?bvs "[10]" "[10]" None] by (auto simp: row_of_def run_one_def b s e)
  obtain arr where a: "reparse (map (stats_to_json show_f64) rows) = Some arr"
    "map json_keys arr = map json_keys (map (stats_to_json show_f64) rows)" using assms(2) by blast
  have "length arr = 2" using arg_cong [OF a(2), of length] r(2) by simp
  moreover from this have "json_keys (arr ! i) = json_keys (stats_to_json show_f64 (rows ! i))" if "i < 2" for i
    using a(2) r(2) that by (metis length_map nth_map)
  ultimately show ?thesis using r(3,4) a(1) json_row_keys
    by (cases "sw_stats (rows ! 0)"; cases "sw_stats (rows ! 1)")
      (simp_all add: json_output_is_valid_and_has_the_expected_shape_def r(1))
qed

end
