(* ===== verification/Tests_Erf.thy ===== *)
theory Tests_Erf
  imports Tests_Warmup Tests_Tools
begin

text \<open>
  The tests whose outcome depends on values of the error function that its documentation gives: it lies between
  -1 and 1, and from 6 (below -6) on it is 1 (-1) in double precision.
\<close>

definition erf_saturates :: "(f64 \<Rightarrow> f64) \<Rightarrow> bool" where
  "erf_saturates erf \<longleftrightarrow> (\<forall>x. f64_le (f64_of_nat 6) x \<longrightarrow> erf x = f64_one) \<and>
     (\<forall>x. f64_le x (f64_neg (f64_of_nat 6)) \<longrightarrow> erf x = f64_neg f64_one)"

definition large_positive_delta_p_goes_almost_entirely_to_buy :: "(f64 \<Rightarrow> f64) \<Rightarrow> bool" where
  "large_positive_delta_p_goes_almost_entirely_to_buy erf \<longleftrightarrow> (case buy_fraction erf (f64_of_nat 10) f64_one of
     None \<Rightarrow> False | Some fract \<Rightarrow> f64_lt (f64_of_dec 999999 6) fract)"

definition large_negative_delta_p_goes_almost_entirely_to_sell :: "(f64 \<Rightarrow> f64) \<Rightarrow> bool" where
  "large_negative_delta_p_goes_almost_entirely_to_sell erf \<longleftrightarrow> (case buy_fraction erf (f64_neg (f64_of_nat 10)) f64_one of
     None \<Rightarrow> False | Some fract \<Rightarrow> f64_lt fract (f64_of_dec 1 6))"

definition buy_and_sell_always_sum_to_total_volume :: "(f64 \<Rightarrow> f64) \<Rightarrow> bool" where
  "buy_and_sell_always_sum_to_total_volume erf \<longleftrightarrow>
     (\<forall>delta_p \<in> set [f64_neg (f64_of_nat 5), f64_neg (f64_of_nat 1), f64_neg (f64_of_dec 1 2), f64_of_nat 0, f64_of_dec 1 2,
         f64_of_nat 1, f64_of_nat 5]. \<forall>sigma \<in> set [f64_of_dec 1 3, f64_of_dec 5 1, f64_of_nat 1, f64_of_dec 37 1].
        case classify erf delta_p sigma (f64_of_dec 12345 1) of None \<Rightarrow> False
        | Some (buy, sell) \<Rightarrow> near (f64_of_dec 1 6) (f64_add buy sell) (f64_of_dec 12345 1))"

definition two_proportion_p_value_is_small_for_a_clear_difference :: "(f64 \<Rightarrow> f64) \<Rightarrow> bool" where
  "two_proportion_p_value_is_small_for_a_clear_difference erf \<longleftrightarrow>
     f64_lt (two_proportion_p_value erf (f64_of_dec 95 2) 200 (f64_of_dec 60 2) 200) (f64_of_dec 1 3)"

lemma saturated_tests:
  assumes "erf_saturates erf"
  shows "large_positive_delta_p_goes_almost_entirely_to_buy erf" "large_negative_delta_p_goes_almost_entirely_to_sell erf"
proof -
  let ?x = "f64_mul (f64_div (f64_of_nat 10) f64_one) frac_1_sqrt_2"
    and ?y = "f64_mul (f64_div (f64_neg (f64_of_nat 10)) f64_one) frac_1_sqrt_2"
  have "f64_le (f64_of_nat 6) ?x" "f64_le ?y (f64_neg (f64_of_nat 6))" by (simp_all add: frac_1_sqrt_2_def f64_eval)
  then have e: "erf ?x = f64_one" "erf ?y = f64_neg f64_one" using assms by (simp_all add: erf_saturates_def)
  have f: "f64_is_finite f64_one \<and> f64_lt f64_zero f64_one \<and> f64_is_finite (f64_of_nat 10)" by (simp add: f64_eval)
  then have "buy_fraction erf (f64_of_nat 10) f64_one = Some (f64_mul f64_half (f64_add f64_one f64_one))"
    "buy_fraction erf (f64_neg (f64_of_nat 10)) f64_one = Some (f64_mul f64_half (f64_add f64_one (f64_neg f64_one)))"
    by (simp_all add: buy_fraction_def standard_normal_cdf_def e)
  moreover have "f64_lt (f64_of_dec 999999 6) (f64_mul f64_half (f64_add f64_one f64_one))"
    "f64_lt (f64_mul f64_half (f64_add f64_one (f64_neg f64_one))) (f64_of_dec 1 6)" by (simp_all add: f64_eval)
  ultimately show "large_positive_delta_p_goes_almost_entirely_to_buy erf" "large_negative_delta_p_goes_almost_entirely_to_sell erf"
    by (simp_all add: large_positive_delta_p_goes_almost_entirely_to_buy_def large_negative_delta_p_goes_almost_entirely_to_sell_def)
qed

lemma p_value_small:
  assumes "erf_saturates erf" shows "two_proportion_p_value_is_small_for_a_clear_difference erf"
proof -
  define p q where "p = f64_of_dec 95 2" and "q = f64_of_dec 60 2"
  let ?se = "f64_sqrt (f64_add (f64_div (f64_mul p (f64_sub f64_one p)) (f64_of_nat 200))
    (f64_div (f64_mul q (f64_sub f64_one q)) (f64_of_nat 200)))"
  define z where "z = f64_abs (f64_div (f64_sub p q) ?se)"
  have z: "f64_le (f64_of_nat 6) (f64_mul z frac_1_sqrt_2)" "\<not> f64_eq ?se f64_zero" "\<not> f64_is_nan p" "\<not> f64_is_nan q"
    by (simp_all add: z_def p_def q_def frac_1_sqrt_2_def f64_eval)
  then have "erf (f64_mul z frac_1_sqrt_2) = f64_one" using assms by (simp add: erf_saturates_def)
  moreover have n: "unat (200 :: u64) = 200" "(200 :: u64) < MIN_COMPARED \<longleftrightarrow> False" by (simp_all add: MIN_COMPARED_def)
  ultimately have "two_proportion_p_value erf p 200 q 200 =
      f64_mul f64_two (f64_sub f64_one (f64_mul f64_half (f64_add f64_one f64_one)))"
    using z(2-4) unfolding two_proportion_p_value_def Let_def n z_def [symmetric] standard_normal_cdf_def by simp
  moreover have "f64_lt (f64_mul f64_two (f64_sub f64_one (f64_mul f64_half (f64_add f64_one f64_one)))) (f64_of_dec 1 3)"
    by (simp add: f64_eval)
  ultimately show ?thesis by (simp add: two_proportion_p_value_is_small_for_a_clear_difference_def p_def q_def)
qed

text \<open>The two sides add up to the volume: three roundings of numbers below \<open>2 ^ 12\<close>.\<close>

lemma uval_small_lt:
  assumes "f64_is_finite x" "f64_is_finite e" "\<bar>real_of_int (uval x)\<bar> \<le> y" "y < real_of_int (uval e)"
  shows "f64_lt (f64_abs x) e"
proof -
  have "real_of_int \<bar>uval x\<bar> < real_of_int (uval e)" using assms(3,4) by (simp only: of_int_abs)
  then have l: "\<bar>uval x\<bar> < uval e" by (simp only: of_int_less_iff)
  obtain t m where x: "x = Num t m" using assms(1) by (cases x) simp_all
  have a: "f64_is_finite (f64_abs x)" "uval (f64_abs x) = \<bar>uval x\<bar>" using assms(1) unfolding x by (cases t; simp)+
  have "\<not> f64_le e (f64_abs x)" unfolding f64_le_uval [OF assms(2) a(1)] a(2) using l by simp
  then show ?thesis using f64_not_lt [OF finite_not_nan [OF a(1)] finite_not_nan [OF assms(2)]] by blast
qed

lemma sides_add_up:
  assumes "erf_range erf" "classify erf d s v = Some (b, c)" "f64_is_finite v" "f64_le f64_zero v"
    "real_of_int (uval v) \<le> 2 ^ 1085"
  shows "near (f64_of_dec 1 6) (f64_add b c) v"
proof -
  obtain p where p: "buy_fraction erf d s = Some p" "b = f64_mul v p" "c = f64_sub v b"
    using assms(2) classify_Some by blast
  note u = f64c.split_bounds [OF assms(3,4) buy_fraction_unit [OF assms(1) p(1)]]
  have f: "f64_is_finite b" "f64_is_finite c" using u finite_between [OF assms(3)] by (auto simp: p(2,3))
  have i: "0 \<le> real_of_int (uval b)" "real_of_int (uval b) \<le> real_of_int (uval v)"
    "0 \<le> real_of_int (uval c)" "real_of_int (uval c) \<le> real_of_int (uval v)"
    using u f f64_le_uval assms(3) by (auto simp: p(2,3))
  have e: "(2::real) ^ 1034 + 2 ^ 1034 = 2 ^ 1035" "(2::real) ^ 1085 + 2 ^ 1085 = 2 ^ 1086" "(2::real) ^ 1085 \<le> 2 ^ 1086"
    "(2::real) ^ 1035 \<le> 2 ^ 1086" "(2::real) ^ 1034 + 2 ^ 1035 < 2 ^ 1040" by simp_all
  have 1: "\<bar>real_of_int (uval c) - (real_of_int (uval v) - real_of_int (uval b))\<bar> \<le> 2 ^ 1034"
    using rounded_close [OF f64_sub_rounded [OF assms(3) f(1)]] i assms(5) e(3) unfolding p(3) [symmetric] of_int_diff by linarith
  have r: "rounded (real_of_int (uval b) + real_of_int (uval c)) (f64_add b c)"
    using f64_add_rounded [OF f] by simp
  have 2: "\<bar>real_of_int (uval (f64_add b c)) - (real_of_int (uval b) + real_of_int (uval c))\<bar> \<le> 2 ^ 1034"
    using i assms(5) e(2) by (intro rounded_close [OF r]) linarith
  have "\<bar>real_of_int (uval b) + real_of_int (uval c)\<bar> \<le> 2 ^ 1086" using i assms(5) e(2) by linarith
  then have g: "f64_is_finite (f64_add b c)" using rounded_within [OF r, of 1 1086] by simp
  have t: "\<bar>real_of_int (uval (f64_add b c) - uval v)\<bar> \<le> 2 ^ 1035" using 1 2 e(1) unfolding of_int_diff by linarith
  note d = f64_sub_rounded [OF g assms(3)]
  have h: "f64_is_finite (f64_sub (f64_add b c) v)" using rounded_within [OF d, of 1 1035] t by simp
  have "\<bar>real_of_int (uval (f64_sub (f64_add b c) v)) - real_of_int (uval (f64_add b c) - uval v)\<bar> \<le> 2 ^ 1034"
    using t e(4) by (intro rounded_close [OF d]) linarith
  then have "\<bar>real_of_int (uval (f64_sub (f64_add b c) v))\<bar> \<le> 2 ^ 1040" using t e(5) by linarith
  moreover have "f64_is_finite (f64_of_dec 1 6) \<and> 2 ^ 1041 \<le> uval (f64_of_dec 1 6)"
    by (simp add: f64_of_dec_def rnd_mag_def rnd_index_def rnd_at_def fit_exp_def rne_def round_quotient_def
        compute_floorlog munits_def sig_of_def exp_of_def inf_mag_def)
  moreover from this have "real_of_int (2 ^ 1041) \<le> real_of_int (uval (f64_of_dec 1 6))" by (simp only: of_int_le_iff)
  moreover have "(2::real) ^ 1040 < real_of_int (2 ^ 1041)" by simp
  ultimately show ?thesis using h unfolding near_def by (intro uval_small_lt [of _ _ "2 ^ 1040"]) linarith+
qed

lemma sum_test:
  assumes "erf_range erf" shows "buy_and_sell_always_sum_to_total_volume erf"
proof -
  let ?v = "f64_of_dec 12345 1"
  have v: "f64_is_finite ?v" "f64_le f64_zero ?v" by (simp_all add: f64_eval)
  have "uval ?v \<le> 2 ^ 1085"
    by (simp add: f64_of_dec_def rnd_mag_def rnd_index_def rnd_at_def fit_exp_def rne_def round_quotient_def
        compute_floorlog munits_def sig_of_def exp_of_def inf_mag_def)
  then have "real_of_int (uval ?v) \<le> real_of_int (2 ^ 1085)" by (simp only: of_int_le_iff)
  then have u: "real_of_int (uval ?v) \<le> 2 ^ 1085" by simp
  have ok: "case classify erf d s ?v of None \<Rightarrow> False | Some (buy, sell) \<Rightarrow> near (f64_of_dec 1 6) (f64_add buy sell) ?v"
    if d: "f64_is_finite d" and s: "f64_is_finite s \<and> f64_lt f64_zero s" for d s
  proof -
    obtain b c where "classify erf d s ?v = Some (b, c)" using d s by (simp add: classify_def buy_fraction_def Let_def)
    then show ?thesis using sides_add_up [OF assms _ v u] by simp
  qed
  have "\<forall>d \<in> set [f64_neg (f64_of_nat 5), f64_neg (f64_of_nat 1), f64_neg (f64_of_dec 1 2), f64_of_nat 0, f64_of_dec 1 2,
      f64_of_nat 1, f64_of_nat 5]. f64_is_finite d"
    "\<forall>s \<in> set [f64_of_dec 1 3, f64_of_dec 5 1, f64_of_nat 1, f64_of_dec 37 1]. f64_is_finite s \<and> f64_lt f64_zero s"
    by (simp_all add: f64_eval)
  then show ?thesis unfolding buy_and_sell_always_sum_to_total_volume_def using ok by blast
qed

end
