(* ===== verification/Spec2Isabelle.thy ===== *)
theory Spec2Isabelle
  imports Engine_Types Capture_Reader Fanout Client Pipeline Process Goes_Live Sweep_Warmup Capture_Tool Py_Vpin
    Tests_Ingest Tests_Worker Tests_Replay Tests_Erf
begin

text \<open>
  A verification library for geiger-rs, a service that estimates how toxic the order flow of a market is
  (the VPIN estimator), with its trade feeds, its clients and its offline tools.

  \<^bold>\<open>The program.\<close> An exchange adapter (\<open>crates/trade-ingest\<close>) connects to a WebSocket, decodes prints into
  \<open>NormalizedTrade\<close>s and sends them over a channel, reconnecting with the delays of \<open>crates/backoff\<close>. A worker
  (\<open>services/toxicity-service/src/worker.rs\<close>) pushes them through a \<open>VpinEngine\<close> (\<open>crates/vpin-engine\<close>) and
  publishes each reading in its stream's registry entry: it stores it as the last message, then broadcasts it.
  The server sends a subscriber the last message and then the broadcast; \<open>crates/toxicity-client-rs\<close> folds what
  it receives into one state a strategy can read. \<open>main.rs\<close> starts the streams of the configuration and adds
  new ones on reload; \<open>health.rs\<close> reports the registry over HTTP. \<open>tools/capture\<close> records an adapter's trades
  in the binary format of \<open>capture.rs\<close>, and \<open>tools/calibrate\<close> replays such a tape through the engine for a
  grid of parameters; \<open>bindings/py-vpin\<close> hands the engine to Python.

  \<^bold>\<open>The theories and what they model.\<close>
  \<^item> \<open>Prelude\<close>, \<open>Strings\<close>, \<open>Json_Values\<close>: machine integers with their checked, saturating and wrapping
    operations, \<open>Result\<close> as a sum, bounded windows, the \<open>str\<close> functions of the standard library the code
    calls, and the values of \<open>json!\<close>.
  \<^item> \<open>F64_Core\<close>, \<open>F64\<close>, \<open>F64_Laws\<close>, \<open>F64_Exact\<close>, \<open>F64_Whole\<close>, \<open>Rounded_Cone\<close>: binary64 numbers as sign and magnitude, every
    operation executable and proved to return the nearest number, ties to even. Only one NaN is kept: the
    code never looks at a NaN's sign or payload. \<open>rounded_cone\<close> is the interface the bounds of the
    statistics need of a rounded arithmetic, interpreted on these numbers.
  \<^item> \<open>Bucket\<close> (\<open>bucket.rs\<close>, \<open>error.rs\<close>), \<open>Bvc\<close> (\<open>bvc.rs\<close>), \<open>Rolling\<close> (\<open>vpin.rs\<close>: \<open>RollingSigma\<close>,
    \<open>EmpiricalCdf\<close>; \<open>intensity.rs\<close>), \<open>Bootstrap\<close> (\<open>vpin.rs\<close>: \<open>SplitMix64\<close>, \<open>bootstrap_ci\<close>), \<open>Engine\<close>
    (\<open>vpin.rs\<close>: \<open>VpinEngine\<close>). Counters are words; \<open>VolumeBucketer_push_debug\<close> is the debug build.
    \<open>Engine_Types\<close>: the shape of an engine's buffers and readings, and that every operation keeps it.
    \<open>Warmup\<close>: a tape whose price keeps moving, and that the deviation of such a window is a positive number.
  \<^item> \<open>Backoff\<close> (\<open>crates/backoff\<close>), \<open>Trade_Types\<close> (\<open>types.rs\<close>), \<open>Capture\<close> and \<open>Capture_Reader\<close> (\<open>capture.rs\<close>), \<open>Ingest\<close>
    (\<open>binance.rs\<close>, \<open>bybit.rs\<close>, \<open>hyperliquid.rs\<close>: \<open>decode\<close>, \<open>run_once\<close>, \<open>run\<close>).
  \<^item> \<open>Worker\<close> (\<open>protocol.rs\<close>, \<open>registry.rs\<close>, \<open>worker.rs\<close>), \<open>Service\<close> (\<open>config.rs\<close>, \<open>main.rs\<close>), \<open>Server\<close>
    (\<open>server.rs\<close>), \<open>Health\<close> (\<open>health.rs\<close>), \<open>Client\<close> (\<open>crates/toxicity-client-rs\<close>). \<open>Fanout\<close>: a worker, any
    number of sessions and the bounded broadcast channel between them. \<open>Process\<close>: \<open>main\<close> as a whole, with
    the poller, the health endpoint's accept loop, the server, signals and exits interleaved.
  \<^item> \<open>Calibrate\<close>, \<open>Calibrate_Stats\<close>, \<open>Calibrate_Cli\<close> (\<open>tools/calibrate\<close>), \<open>Capture_Tool\<close> (\<open>tools/capture\<close>),
    \<open>Py_Vpin\<close> (\<open>bindings/py-vpin\<close>).
  \<^item> \<open>Pipeline\<close>: adapter, worker, recorder and replay put together, against a specification of the wire feed.
    \<open>Goes_Live\<close>: the same up to a client that follows the worker. \<open>Sweep_Warmup\<close>: what a sweep counts.
  \<^item> \<open>Tests_Engine\<close>, \<open>Tests_Warmup\<close>, \<open>Tests_Ingest\<close>, \<open>Tests_Service\<close>, \<open>Tests_Worker\<close>, \<open>Tests_Tools\<close>,
    \<open>Tests_Replay\<close>, \<open>Tests_Erf\<close>: the repository's own tests under their own names, each a proposition about
    the model, and proved: what its authors expect of the code is what the definitions do.
  \<^item> This theory: the property that spans worker, server and client.

  \<^bold>\<open>How state and effects are modelled.\<close> A struct is a record with the code's fields, an operation returns the
  updated record. A \<open>Result\<close> is a sum, a panic (an index out of range, a debug assertion) is \<open>None\<close>. An
  asynchronous loop (\<open>select!\<close>) is a function of the list of events it receives, each with the outcome of the
  writes it causes; a reconnect loop is a function of the list of its sessions. The one place where two tasks
  interleave inside an operation, a publication (store, then broadcast) against a subscription (join the
  broadcast, then read the stored message), is the step relation \<open>link_step\<close> of \<open>Server\<close>, and with any number
  of subscribers \<open>fanout_step\<close> of \<open>Fanout\<close>, which implements it. Reload passes at any time are the
  reachability predicate of \<open>Service\<close>, and the tasks of the process interleave in \<open>process_step\<close> of \<open>Process\<close>.
  The broadcast channel is the list of all messages ever sent, a receiver an index into it, and what a
  receiver gets is a parameter with the documented contract \<open>broadcast_laws\<close>.

  \<^bold>\<open>What the lemma groups show.\<close> \<open>Bucket\<close>, \<open>Rolling\<close>, \<open>Engine\<close>: the streaming code equals specifications over
  the whole tape (how the tape is cut, which buckets a sigma, a VPIN value and a rank are made of), first
  by relating the state to the tape so far. \<open>Bvc\<close>, \<open>Bootstrap\<close>, \<open>Engine\<close>, \<open>Calibrate_Stats\<close>: every number
  reported lies in \<open>[0, 1]\<close> with all rounding taken into account, and nothing panics. \<open>Warmup\<close>,
  \<open>Goes_Live\<close>, \<open>Sweep_Warmup\<close>: readings do come: once the windows are full, every bucket of a moving market has
  a value, in the engine, at the client and in the counts of a sweep. \<open>Capture\<close>,
  \<open>Capture_Tool\<close>: a tape reads back whatever its reads look like, and what a kill at any moment loses.
  \<open>Ingest\<close>, \<open>Backoff\<close>: what is emitted, numbered and waited. \<open>Service\<close>: which streams run after any
  reloads. \<open>Server\<close>, \<open>Client\<close>: no message is skipped between snapshot and stream, what a client's state
  proves about what it received. \<open>Fanout\<close>: what a lagging subscriber gets, and that it catches up.
  \<open>Calibrate\<close>: the sweep equals running each configuration alone. \<open>Pipeline\<close>: the readings broadcast are those
  of the engine on the wire feed, and replaying a recording gives the same ones. \<open>Process\<close>: polling,
  scraping and serving do not disturb each other, and how the process ends.

  \<^bold>\<open>Interfaces.\<close> \<open>rolling_window\<close> (\<open>Rolling\<close>) is shared by the sigma and the rank windows, \<open>record_codec\<close>
  (\<open>Capture\<close>) is what reading a file needs of the record format, \<open>rounded_cone\<close> (\<open>Rounded_Cone\<close>) what the
  ratio bounds need of the arithmetic, the decoder interface of \<open>Ingest\<close> what the session loop needs of
  the three adapters, and \<open>venue_feed\<close> (\<open>Pipeline\<close>) what the feed specification does; each is interpreted on the
  code's definitions.

  \<^bold>\<open>Bounds.\<close> \<open>small\<close> volumes are at most \<open>2 ^ 900\<close>, far above any quantity (quantities are 64-bit words
  divided by \<open>10 ^ 8\<close>) and low enough that no sum of \<open>2 ^ 53\<close> of them overflows; windows of at most
  \<open>2 ^ 52\<close> buckets and at most \<open>2 ^ 53\<close> trades or resamples keep counts exact in binary64; both are
  beyond what fits in memory. A price that keeps moving has, in every window of sigma, changes of at most
  \<open>2 ^ 400\<close> of which two are at least \<open>2 ^ (-400)\<close> apart, so that neither a square overflows nor the
  deviation rounds to zero. Loops recurse on their input, so no fuel is needed; the few others
  (\<open>read_all\<close>, \<open>frames\<close>, \<open>split_whitespace\<close>) have a termination proof.

  \<^bold>\<open>Parameters.\<close> Code outside the repository is an argument: \<open>libm::erf\<close> with the documented \<open>erf_range\<close> (its
  values lie between -1 and 1), \<open>erf_nonneg\<close> and, for some tests, \<open>erf_saturates\<close> (it is 1 from 6 on); the feed handler's price, quantity and symbol types as the
  record \<open>feedhandler\<close> with \<open>feedhandler_laws\<close> (its conversions round-trip); \<open>serde\<close>'s parsers and
  printers; the printing of an \<open>f64\<close>; the clock; \<open>tokio\<close>'s broadcast channel with \<open>broadcast_laws\<close> (a receiver
  gets the messages in order or the number it missed, never more than are beyond the capacity); the outcome
  of reads, writes, connects and accepts.

  \<^bold>\<open>Not modelled.\<close> Logging; TCP, TLS, HTTP and WebSocket framing and the JSON text itself; memory
  exhaustion; the conversions and the module table of pyo3; of the tests, those that need
  values of \<open>erf\<close> between 0 and 6, the JSON text, the bytes of an HTTP exchange or the size of a
  struct in memory, those that compare the
  rounded results of particular tapes (which configuration of a sweep is best, how much wider an interval of
  higher confidence is), and the randomised test of the engine, whose range assertions follow from the bounds
  of the readings. The timers' exact
  moments are the times or ticks in the event lists; a signal is an event.
\<close>

subsection \<open>From the worker to the consumer\<close>

lemma delivery_frames: "\<forall>e \<in> set evs. is_delivery e \<Longrightarrow>
    session_frames json evs = map (\<lambda>m. TextFrame (json m)) (received evs) \<and> session_end evs = None"
  by (induction evs) (auto simp: is_delivery_def)

lemma send_all_ok: "(\<forall>k. sends k = None) \<Longrightarrow> send_all sends fs r out = (out @ fs, r)"
  by (induction fs arbitrary: out) (simp_all add: ws_send_def)

lemma client_loop_messages:
  assumes "\<forall>m \<in> set ms. parse (json m) = Inr m"
  shows "\<exists>st'. client_loop parse sa (map (\<lambda>m. (clock m, Client_Frame (TextFrame (json m)) None)) ms) t0 st = (None, st') \<and>
    cl_state st' = fold apply_message ms (cl_state st)"
  using assms
proof (induction ms arbitrary: t0 st)
  case (Cons m ms)
  then show ?case using Cons.IH [of "clock m" "st\<lparr>cl_state := apply_message m (cl_state st)\<rparr>"]
    by (simp add: handle_message_def)
qed simp

lemma fold_last: "ms \<noteq> [] \<Longrightarrow> fold g ms st = g (last ms) (fold g (butlast ms) st)"
  by (induction ms arbitrary: st) auto



end
